(* ===== verification/Ctypes_Prelude.thy ===== *)
theory Ctypes_Prelude
  imports Main "HOL-Library.Word"
begin

text \<open>
  What every theory of the development shares: the faults a stub can end in and the result
  type that carries them, two's complement conversions at a width given in bytes, and the
  byte codec that the memory model is built on.  The collections \<open>c_int\<close>
  (conversions of C integers) and \<open>codec\<close> (encoding to and from bytes) hold the rewrite
  rules the component theories pass to the simplifier.
\<close>

named_theorems c_int
named_theorems codec

type_synonym byte = "8 word"

definition ascii :: "string \<Rightarrow> byte list" where
  "ascii s = map (\<lambda>c. of_nat (of_char c)) s"

section \<open>Faults and results\<close>

text \<open>
  \<open>Memory_fault\<close>, \<open>Division_trap\<close>, \<open>Conversion_trap\<close> and \<open>Ill_typed\<close> stand for undefined behaviour of the C
  code (an access to memory that is not mapped, a division by zero, an OCaml value of
  another shape than the stub's type promises, a floating value that no integer type holds), \<open>Assert_failure\<close> for \<open>assert(0)\<close>, and the
  others for the OCaml exceptions the stubs raise.
\<close>

datatype fault =
    Memory_fault
  | Division_trap
  | Ill_typed
  | Conversion_trap
  | Not_compiled
  | Assert_failure
  | Out_of_memory
  | Invalid_argument string
  | Failure string
  | FFI_internal_error string
  | Unsupported
  | IncompleteType
  | CallToExpiredClosure
  | EmptyWeakReference
  | Not_found
  | Unix_error int "byte list"

type_synonym 'a result = "fault + 'a"

definition bindR :: "'a result \<Rightarrow> ('a \<Rightarrow> 'b result) \<Rightarrow> 'b result" where
  "bindR m f = (case m of Inl e \<Rightarrow> Inl e | Inr x \<Rightarrow> f x)"

definition need :: "fault \<Rightarrow> 'a option \<Rightarrow> 'a result" where
  "need e x = (case x of None \<Rightarrow> Inl e | Some y \<Rightarrow> Inr y)"

lemma bindR_simps [simp]:
  "bindR (Inr x) f = f x"
  "bindR (Inl e) f = Inl e"
  by (simp_all add: bindR_def)

lemma bindR_eq_Inr [simp]: "bindR m f = Inr y \<longleftrightarrow> (\<exists>x. m = Inr x \<and> f x = Inr y)"
  by (cases m) auto

lemma bindR_eq_Inl: "bindR m f = Inl e \<longleftrightarrow> m = Inl e \<or> (\<exists>x. m = Inr x \<and> f x = Inl e)"
  by (cases m) auto

lemma bindR_assoc: "bindR (bindR m f) g = bindR m (\<lambda>x. bindR (f x) g)"
  by (cases m) auto

lemma need_simps [simp]:
  "need e (Some x) = Inr x"
  "need e None = Inl e"
  by (simp_all add: need_def)

lemma need_eq_Inr [simp]: "need e x = Inr y \<longleftrightarrow> x = Some y"
  by (cases x) auto

lemma need_eq_Inl [simp]: "need e x = Inl d \<longleftrightarrow> x = None \<and> d = e"
  by (cases x) auto

section \<open>Two's complement at a width in bytes\<close>

text \<open>
  \<open>uwrap n\<close> is the conversion to an unsigned C integer type of \<open>n\<close> bytes, \<open>swrap n\<close> the
  conversion to a signed one (which every compiler this code supports defines as
  reduction modulo \<open>2 ^ (8 * n)\<close>).
\<close>

definition uwrap :: "nat \<Rightarrow> int \<Rightarrow> int" where
  "uwrap n x = x mod 256 ^ n"

definition swrap :: "nat \<Rightarrow> int \<Rightarrow> int" where
  "swrap n x = (x + 256 ^ n div 2) mod 256 ^ n - 256 ^ n div 2"

definition in_urange :: "nat \<Rightarrow> int \<Rightarrow> bool" where
  "in_urange n x \<longleftrightarrow> 0 \<le> x \<and> x < 256 ^ n"

definition in_srange :: "nat \<Rightarrow> int \<Rightarrow> bool" where
  "in_srange n x \<longleftrightarrow> - (256 ^ n div 2) \<le> x \<and> x < 256 ^ n div 2"

lemma pow256_even: "0 < n \<Longrightarrow> 2 * (256 ^ n div 2 :: int) = 256 ^ n"
  by (cases n) simp_all

lemma in_urange_uwrap [simp]: "in_urange n (uwrap n x)"
  by (simp add: in_urange_def uwrap_def)

lemma in_srange_swrap: "0 < n \<Longrightarrow> in_srange n (swrap n x)"
proof -
  assume n: "0 < n"
  define h where "h = (256 ^ n div 2 :: int)"
  have h: "256 ^ n = 2 * h" using pow256_even [OF n] by (simp add: h_def)
  have "0 \<le> (x + h) mod 256 ^ n" "(x + h) mod 256 ^ n < 256 ^ n" by simp_all
  then show ?thesis
    unfolding in_srange_def swrap_def h_def [symmetric] using h by linarith
qed

lemma uwrap_id [c_int]: "in_urange n x \<Longrightarrow> uwrap n x = x"
  by (simp add: in_urange_def uwrap_def)

lemma swrap_id [c_int]: "0 < n \<Longrightarrow> in_srange n x \<Longrightarrow> swrap n x = x"
proof -
  assume n: "0 < n" and r: "in_srange n x"
  define h where "h = (256 ^ n div 2 :: int)"
  have h: "256 ^ n = 2 * h" using pow256_even [OF n] by (simp add: h_def)
  have "(x + h) mod 256 ^ n = x + h"
    using r h unfolding in_srange_def h_def [symmetric] by (intro mod_pos_pos_trivial) auto
  then show ?thesis by (simp add: swrap_def h_def)
qed

lemma uwrap_uwrap [simp]: "uwrap n (uwrap n x) = uwrap n x"
  by (simp add: uwrap_def)

lemma swrap_swrap [simp]: "0 < n \<Longrightarrow> swrap n (swrap n x) = swrap n x"
  by (simp add: c_int in_srange_swrap)

lemma uwrap_swrap [simp]: "uwrap n (swrap n x) = uwrap n x"
  unfolding uwrap_def swrap_def by (simp add: mod_diff_left_eq)

lemma swrap_uwrap [simp]: "swrap n (uwrap n x) = swrap n x"
  unfolding uwrap_def swrap_def by (simp add: mod_add_left_eq)

lemma uwrap_mod: "uwrap n x = uwrap n y \<longleftrightarrow> x mod 256 ^ n = y mod 256 ^ n"
  by (simp add: uwrap_def)

lemma swrap_cong: "uwrap n x = uwrap n y \<Longrightarrow> swrap n x = swrap n y"
  by (metis swrap_uwrap)

text \<open>A narrower conversion after a wider one is the narrower one.\<close>

lemma uwrap_narrow: "m \<le> n \<Longrightarrow> uwrap m (uwrap n x) = uwrap m x"
  unfolding uwrap_def by (simp add: mod_mod_cancel le_imp_power_dvd)

lemma uwrap_narrow_swrap: "m \<le> n \<Longrightarrow> uwrap m (swrap n x) = uwrap m x"
  by (metis uwrap_narrow uwrap_swrap)

lemma swrap_narrow: "m \<le> n \<Longrightarrow> swrap m (swrap n x) = swrap m x"
  by (metis swrap_cong uwrap_narrow_swrap)

lemma swrap_narrow_uwrap: "m \<le> n \<Longrightarrow> swrap m (uwrap n x) = swrap m x"
  by (metis swrap_cong uwrap_narrow)

lemma in_urange_mono: "m \<le> n \<Longrightarrow> in_urange m x \<Longrightarrow> in_urange n x"
  unfolding in_urange_def
  using power_increasing [of m n "256 :: int"] by (auto intro: less_le_trans)

lemma in_srange_mono: "m \<le> n \<Longrightarrow> in_srange m x \<Longrightarrow> in_srange n x"
  unfolding in_srange_def
  using power_increasing [of m n "256 :: int"] zdiv_mono1 [of "256 ^ m" "256 ^ n" "2 :: int"]
  by auto

lemma in_srange_of_urange:
  assumes "m < n" "in_urange m x"
  shows "in_srange n x"
proof -
  have "(256 :: int) ^ Suc m \<le> 256 ^ n"
    using assms(1) by (intro power_increasing) auto
  moreover have "0 < (256 :: int) ^ m" by simp
  ultimately have "2 * (256 :: int) ^ m \<le> 256 ^ n" unfolding power_Suc by linarith
  then have "256 ^ m \<le> (256 ^ n div 2 :: int)" by linarith
  then show ?thesis using assms(2) by (auto simp: in_urange_def in_srange_def)
qed

section \<open>Bytes of an integer\<close>

primrec le_bytes :: "nat \<Rightarrow> int \<Rightarrow> byte list" where
  "le_bytes 0 x = []"
| "le_bytes (Suc n) x = word_of_int x # le_bytes n (x div 256)"

primrec of_le :: "byte list \<Rightarrow> int" where
  "of_le [] = 0"
| "of_le (b # bs) = uint b + 256 * of_le bs"

lemma length_le_bytes [simp]: "length (le_bytes n x) = n"
  by (induction n arbitrary: x) auto

lemma of_le_nonneg [simp]: "0 \<le> of_le bs"
  by (induction bs) auto

lemma of_le_less: "of_le bs < 256 ^ length bs"
proof (induction bs)
  case (Cons b bs)
  have "uint b < 256" using uint_lt2p [of b] by simp
  with Cons show ?case by simp
qed simp

lemma of_le_le_bytes [codec]: "of_le (le_bytes n x) = uwrap n x"
proof (induction n arbitrary: x)
  case (Suc n)
  have "uint (word_of_int x :: byte) = x mod 256"
    by (simp add: uint_word_of_int)
  with Suc show ?case
    by (simp add: uwrap_def zmod_zmult2_eq)
qed (simp add: uwrap_def)

lemma le_bytes_of_le [codec]: "le_bytes (length bs) (of_le bs) = bs"
proof (induction bs)
  case (Cons b bs)
  have u: "0 \<le> uint b" "uint b < 256" using uint_lt2p [of b] by simp_all
  then have "(uint b + 256 * of_le bs) div 256 = of_le bs" by simp
  moreover have "word_of_int (uint b + 256 * of_le bs) = b"
  proof -
    have "(word_of_int (256 * of_le bs) :: byte) = 0"
      by (simp only: word_of_int_eq_0_iff) simp
    then have "(word_of_int (uint b + 256 * of_le bs) :: byte) = word_of_int (uint b)"
      by (simp only: of_int_add add_0_right)
    then show ?thesis by simp
  qed
  ultimately show ?case using Cons by simp
qed simp

lemma le_bytes_uwrap [simp]: "le_bytes n (uwrap n x) = le_bytes n x"
  by (metis le_bytes_of_le length_le_bytes of_le_le_bytes)

lemma le_bytes_swrap [simp]: "le_bytes n (swrap n x) = le_bytes n x"
  by (metis le_bytes_uwrap uwrap_swrap)

lemma in_urange_of_le: "length bs = n \<Longrightarrow> in_urange n (of_le bs)"
  using of_le_less [of bs] by (simp add: in_urange_def)

text \<open>Lists of bytes that differ have different readings.\<close>

lemma of_le_inject: "length as = length bs \<Longrightarrow> of_le as = of_le bs \<longleftrightarrow> as = bs"
  by (metis le_bytes_of_le)

end
