(* ===== verification/C_Float.thy ===== *)
theory C_Float
  imports Complex_Main Ctypes_Prelude
begin

text \<open>
  Binary floating point as C converts, compares and stores it: IEEE 754 interchange formats
  (\<open>float\<close>, \<open>double\<close>, quad \<open>long double\<close>) and the x87 extended format with its explicit
  integer bit.  A stored value is its bit pattern, a natural number; \<open>decode\<close> reads it as
  a NaN, an infinity or a dyadic number and \<open>encode\<close> rounds a dyadic number to nearest,
  ties to even.  The main facts: a magnitude and its bit pattern grow together
  (\<open>mval_strict_mono\<close>), and rounding a value that the format has gives its own pattern
  (\<open>round_mag_exact\<close>), however the value is written.
\<close>

record fformat =
  fbits :: nat
  ebits :: nat

definition F32 :: fformat where "F32 = \<lparr>fbits = 23, ebits = 8\<rparr>"
definition F64 :: fformat where "F64 = \<lparr>fbits = 52, ebits = 11\<rparr>"
definition X87 :: fformat where "X87 = \<lparr>fbits = 63, ebits = 15\<rparr>"
definition F128 :: fformat where "F128 = \<lparr>fbits = 112, ebits = 15\<rparr>"

text \<open>\<open>Fin s m e\<close> is the number \<open>m * 2 powi e\<close>, negated when \<open>s\<close>.\<close>

datatype fpv = NaN | Inf bool | Fin bool nat int

definition emin :: "fformat \<Rightarrow> int" where
  "emin F = 2 - 2 ^ (ebits F - 1) - int (fbits F)"

definition inf_mag :: "fformat \<Rightarrow> nat" where
  "inf_mag F = (2 ^ ebits F - 1) * 2 ^ fbits F"

definition sign_bit :: "fformat \<Rightarrow> nat" where
  "sign_bit F = 2 ^ (ebits F + fbits F)"

definition decode_mag :: "fformat \<Rightarrow> nat \<Rightarrow> nat \<times> int" where
  "decode_mag F b =
     (let ex = b div 2 ^ fbits F; fr = b mod 2 ^ fbits F
      in if ex = 0 then (fr, emin F) else (2 ^ fbits F + fr, emin F + int ex - 1))"

definition decode :: "fformat \<Rightarrow> nat \<Rightarrow> fpv" where
  "decode F b =
     (let s = (sign_bit F \<le> b); mag = (if s then b - sign_bit F else b)
      in if inf_mag F < mag then NaN
         else if mag = inf_mag F then Inf s
         else case decode_mag F mag of (m, e) \<Rightarrow> Fin s m e)"

fun bitlen :: "nat \<Rightarrow> nat" where
  "bitlen n = (if n = 0 then 0 else Suc (bitlen (n div 2)))"

declare bitlen.simps [simp del]

text \<open>\<open>rne m k\<close> is \<open>m / 2 ^ k\<close> rounded to nearest, ties to even.\<close>

definition rne :: "nat \<Rightarrow> nat \<Rightarrow> nat" where
  "rne m k =
     (let d = m div 2 ^ k; r = 2 * (m mod 2 ^ k)
      in if r < 2 ^ k \<or> (r = 2 ^ k \<and> even d) then d else d + 1)"

definition round_mag :: "fformat \<Rightarrow> nat \<Rightarrow> int \<Rightarrow> nat" where
  "round_mag F m e =
     (if m = 0 then 0
      else let q = max (emin F) (e + int (bitlen m) - int (fbits F) - 1);
               m' = (if q \<le> e then m * 2 ^ nat (e - q) else rne m (nat (q - e)))
           in min (inf_mag F) (nat (q - emin F) * 2 ^ fbits F + m'))"

text \<open>\<open>nan\<close> is the pattern a conversion that produces a NaN stores.\<close>

definition encode :: "fformat \<Rightarrow> nat \<Rightarrow> fpv \<Rightarrow> nat" where
  "encode F nan v =
     (case v of NaN \<Rightarrow> nan
      | Inf s \<Rightarrow> (if s then sign_bit F else 0) + inf_mag F
      | Fin s m e \<Rightarrow> (if s then sign_bit F else 0) + round_mag F m e)"

definition sval :: "nat \<Rightarrow> int \<Rightarrow> real" where
  "sval m e = real m * 2 powi e"

definition mval :: "fformat \<Rightarrow> nat \<Rightarrow> real" where
  "mval F b = (case decode_mag F b of (m, e) \<Rightarrow> sval m e)"

section \<open>Magnitudes\<close>

lemma powi2_pos [simp]: "(0 :: real) < 2 powi e"
  by simp

lemma powi2_Suc: "(2 :: real) powi (e + 1) = 2 * 2 powi e"
  by (simp add: power_int_add)

lemma powi2_shift: "(2 :: real) powi e = 2 ^ k * 2 powi (e - int k)"
proof -
  have "(2 :: real) powi (int k + (e - int k)) = 2 powi int k * 2 powi (e - int k)"
    by (rule power_int_add) simp
  then show ?thesis by simp
qed

lemma sval_shift: "sval (m * 2 ^ k) e = sval m (e + int k)"
  using powi2_shift [of "e + int k" k] by (simp add: sval_def)

lemma mval_Suc:
  "mval F (Suc b) = mval F b + 2 powi (emin F + int (b div 2 ^ fbits F) - (if b div 2 ^ fbits F = 0 then 0 else 1))"
proof -
  let ?p = "2 ^ fbits F :: nat"
  have p: "0 < ?p" by simp
  show ?thesis
  proof (cases "Suc (b mod ?p) = ?p")
    case False
    have "b mod ?p < ?p" by simp
    with False have "Suc (b mod ?p) < ?p" by linarith
    then have "Suc b div ?p = b div ?p" "Suc b mod ?p = Suc (b mod ?p)"
      by (simp_all add: div_Suc mod_Suc)
    then show ?thesis
      by (simp add: mval_def decode_mag_def Let_def sval_def algebra_simps)
  next
    case True
    then have S: "Suc b div ?p = Suc (b div ?p)" "Suc b mod ?p = 0"
      by (simp_all add: div_Suc mod_Suc)
    have r: "real (b mod ?p) = 2 ^ fbits F - 1"
      using True by (metis add_diff_cancel_left' of_nat_Suc of_nat_numeral of_nat_power plus_1_eq_Suc
          add.commute)
    show ?thesis
    proof (cases "b div ?p = 0")
      case True
      then show ?thesis
        by (simp add: mval_def decode_mag_def S r sval_def algebra_simps)
    next
      case False
      then have "emin F + int (Suc (b div ?p)) - 1 = (emin F + int (b div ?p) - 1) + 1" by simp
      then have "(2::real) powi (emin F + int (Suc (b div ?p)) - 1)
          = 2 * 2 powi (emin F + int (b div ?p) - 1)"
        by (metis powi2_Suc)
      with False show ?thesis
        by (simp add: mval_def decode_mag_def S r sval_def algebra_simps)
    qed
  qed
qed

lemma mval_strict_mono: "b < c \<Longrightarrow> mval F b < mval F c"
  by (rule lift_Suc_mono_less [of "mval F"]) (simp_all only: mval_Suc less_add_same_cancel1 powi2_pos)

lemma mval_inject [simp]: "mval F b = mval F c \<longleftrightarrow> b = c"
  by (metis less_irrefl mval_strict_mono nat_neq_iff)

lemma mval_less [simp]: "mval F b < mval F c \<longleftrightarrow> b < c"
  by (metis less_asym' mval_strict_mono nat_neq_iff)

lemma mval_0 [simp]: "mval F 0 = 0"
  by (simp add: mval_def decode_mag_def sval_def)

lemma mval_nonneg: "0 \<le> mval F b"
  by (auto simp: mval_def sval_def split: prod.split)

section \<open>Rounding\<close>

lemma bitlen_0 [simp]: "bitlen 0 = 0"
  by (simp add: bitlen.simps)

lemma bitlen_bounds: "0 < m \<Longrightarrow> 2 ^ bitlen m \<le> 2 * m \<and> m < 2 ^ bitlen m"
proof (induction m rule: bitlen.induct)
  case (1 m)
  show ?case
  proof (cases "m = 1")
    case False
    with 1 have "2 ^ bitlen (m div 2) \<le> 2 * (m div 2)" "m div 2 < 2 ^ bitlen (m div 2)" by auto
    moreover have "bitlen m = Suc (bitlen (m div 2))" using 1 by (simp add: bitlen.simps)
    ultimately show ?thesis by simp linarith
  qed (simp add: bitlen.simps)
qed

text \<open>The position of the leading bit depends on the value only.\<close>

lemma leading_bit:
  assumes "0 < m"
  shows "2 powi (e + int (bitlen m) - 1) \<le> sval m e" "sval m e < 2 powi (e + int (bitlen m))"
proof -
  have "(2::real) ^ bitlen m \<le> 2 * real m"
    using bitlen_bounds [OF assms] by (metis of_nat_le_iff of_nat_mult of_nat_numeral of_nat_power)
  moreover have "(2::real) * 2 powi (e + int (bitlen m) - 1) = 2 ^ bitlen m * 2 powi e"
    using powi2_Suc [of "e + int (bitlen m) - 1"] powi2_shift [of "e + int (bitlen m)" "bitlen m"]
    by simp
  ultimately have "2 * 2 powi (e + int (bitlen m) - 1) \<le> 2 * sval m e"
    by (simp add: sval_def mult_right_mono)
  then show "2 powi (e + int (bitlen m) - 1) \<le> sval m e" by simp
  have "real m < 2 ^ bitlen m"
    using bitlen_bounds [OF assms] by (metis of_nat_less_iff of_nat_numeral of_nat_power)
  then show "sval m e < 2 powi (e + int (bitlen m))"
    using powi2_shift [of "e + int (bitlen m)" "bitlen m"] by (simp add: sval_def)
qed

lemma powi2_less_iff: "(2 :: real) powi i < 2 powi j \<longleftrightarrow> i < j"
  using power_int_strict_increasing [of i j "2 :: real"] power_int_strict_increasing [of j i "2 :: real"]
  by (cases i j rule: linorder_cases) (auto dest: less_asym)

lemma leading_bit_unique:
  assumes "0 < m" "0 < n" "sval m e = sval n d"
  shows "e + int (bitlen m) = d + int (bitlen n)"
proof -
  have "2 powi (e + int (bitlen m) - 1) < (2::real) powi (d + int (bitlen n))"
    "2 powi (d + int (bitlen n) - 1) < (2::real) powi (e + int (bitlen m))"
    using leading_bit [OF assms(1), of e] leading_bit [OF assms(2), of d] assms(3) by linarith+
  then show ?thesis unfolding powi2_less_iff by linarith
qed

lemma decode_mag_cases:
  assumes "decode_mag F b = (m, e)"
  shows "emin F \<le> e" "m < 2 * 2 ^ fbits F" "emin F < e \<Longrightarrow> 2 ^ fbits F \<le> m"
    "b = nat (e - emin F) * 2 ^ fbits F + m"
proof -
  let ?p = "2 ^ fbits F :: nat"
  have r: "b mod ?p < ?p" by simp
  have b: "b = b div ?p * ?p + b mod ?p" by (simp only: div_mult_mod_eq)
  show "b = nat (e - emin F) * ?p + m"
  proof (cases "b div ?p")
    case 0
    then have "b mod ?p = b" using b by simp
    then show ?thesis using assms 0 by (auto simp: decode_mag_def Let_def)
  next
    case (Suc k)
    then show ?thesis using assms b by (auto simp: decode_mag_def Let_def)
  qed
  show "emin F \<le> e" "m < 2 * ?p" "emin F < e \<Longrightarrow> ?p \<le> m"
    using assms r by (auto simp: decode_mag_def Let_def split: if_splits simp del: mod_less_divisor)
qed

lemma decode_mag_build:
  assumes "m < 2 * 2 ^ fbits F" "emin F \<le> e" "emin F < e \<Longrightarrow> 2 ^ fbits F \<le> m"
  shows "decode_mag F (nat (e - emin F) * 2 ^ fbits F + m) = (m, e)"
proof -
  let ?p = "2 ^ fbits F :: nat"
  show ?thesis
  proof (cases "m < ?p")
    case True
    with assms have "e = emin F" by linarith
    with True show ?thesis by (simp add: decode_mag_def)
  next
    case False
    then obtain r where r: "m = ?p + r" "r < ?p"
      using assms(1) by (metis add_less_cancel_left le_Suc_ex mult_2 not_less)
    have "nat (e - emin F) * ?p + m = r + Suc (nat (e - emin F)) * ?p" by (simp add: r)
    then have "(nat (e - emin F) * ?p + m) div ?p = Suc (nat (e - emin F))"
      "(nat (e - emin F) * ?p + m) mod ?p = r"
      using r(2) by (simp_all del: mult_Suc)
    with assms(2) r(1) show ?thesis by (simp add: decode_mag_def)
  qed
qed

lemma rne_exact: "rne (m * 2 ^ k) k = m"
  by (simp add: rne_def)

lemma sval_0_iff: "sval m e = 0 \<longleftrightarrow> m = 0"
  by (simp add: sval_def)

lemma sval_eq_shift:
  assumes "sval m e = sval n q" "q \<le> e"
  shows "m * 2 ^ nat (e - q) = n"
proof -
  have "sval (m * 2 ^ nat (e - q)) q = sval n q"
    using assms by (simp add: sval_shift)
  then have "real (m * 2 ^ nat (e - q)) = real n"
    unfolding sval_def by simp
  then show ?thesis by (simp only: of_nat_eq_iff)
qed

lemma bitlen_le: "m < 2 ^ k \<Longrightarrow> bitlen m \<le> k"
proof (rule ccontr)
  assume m: "m < 2 ^ k" and "\<not> bitlen m \<le> k"
  then have k: "Suc k \<le> bitlen m" by simp
  then have "0 < m" by (cases m) auto
  then have "2 ^ Suc k \<le> 2 * m"
    using bitlen_bounds [of m] power_increasing [OF k, of "2 :: nat"] by auto
  with m show False by simp
qed

lemma bitlen_ge: "2 ^ k \<le> m \<Longrightarrow> Suc k \<le> bitlen m"
proof (rule ccontr)
  assume m: "2 ^ k \<le> m" and "\<not> Suc k \<le> bitlen m"
  then have "bitlen m \<le> k" by simp
  then have "2 ^ bitlen m \<le> (2 ^ k :: nat)" by (rule power_increasing) simp
  moreover have "0 < m" using m by (metis gr0I le_zero_eq power_not_zero zero_neq_numeral)
  ultimately show False using bitlen_bounds [of m] m by linarith
qed

theorem round_mag_exact:
  assumes v: "sval m e = mval F b" and b: "b \<le> inf_mag F"
  shows "round_mag F m e = b"
proof -
  obtain n q where d: "decode_mag F b = (n, q)" by (cases "decode_mag F b")
  note D = decode_mag_cases [OF d]
  have vn: "sval m e = sval n q" using v d by (simp add: mval_def)
  show ?thesis
  proof (cases "m = 0")
    case True
    then have "n = 0" using vn by (metis sval_0_iff)
    then have "q = emin F" using D(1,3) by force
    with True D(4) \<open>n = 0\<close> show ?thesis by (simp add: round_mag_def)
  next
    case False
    then have n0: "0 < n" using vn by (metis sval_0_iff gr0I)
    have L: "e + int (bitlen m) = q + int (bitlen n)"
      using False n0 vn by (intro leading_bit_unique) auto
    have bl: "bitlen n \<le> Suc (fbits F)" using D(2) by (intro bitlen_le) simp
    have q: "max (emin F) (e + int (bitlen m) - int (fbits F) - 1) = q"
    proof (cases "emin F < q")
      case True
      then have "bitlen n = Suc (fbits F)" using bl bitlen_ge [OF D(3)] by simp
      with L True show ?thesis by simp
    next
      case False
      with D(1) L bl show ?thesis by simp
    qed
    have m': "(if q \<le> e then m * 2 ^ nat (e - q) else rne m (nat (q - e))) = n"
    proof (cases "q \<le> e")
      case True
      then show ?thesis using sval_eq_shift [OF vn] by simp
    next
      case False
      then have "n * 2 ^ nat (q - e) = m" using sval_eq_shift [OF vn [symmetric]] by simp
      with False show ?thesis using rne_exact [of n "nat (q - e)"] by simp
    qed
    show ?thesis
      using False b unfolding round_mag_def q Let_def m' D(4) [symmetric] by simp
  qed
qed

text \<open>A number with few enough bits and an exponent in range is stored exactly.\<close>

theorem round_mag_value:
  assumes "bitlen m \<le> Suc (fbits F)" "emin F \<le> e" "2 \<le> ebits F"
    and "e + int (bitlen m) - int (fbits F) - 1 - emin F + 3 \<le> 2 ^ ebits F"
  shows "mval F (round_mag F m e) = sval m e \<and> round_mag F m e < inf_mag F"
proof (cases "m = 0")
  case True
  have "(2::nat) ^ 1 < 2 ^ ebits F" using assms(3) by (intro power_strict_increasing) auto
  then show ?thesis using True by (simp add: round_mag_def inf_mag_def sval_def)
next
  case False
  define q where "q = max (emin F) (e + int (bitlen m) - int (fbits F) - 1)"
  have q: "emin F \<le> q" "q \<le> e" using assms(1,2) by (simp_all add: q_def)
  define n where "n = m * 2 ^ nat (e - q)"
  have val: "sval n q = sval m e" using q by (simp add: n_def sval_shift)
  have n0: "0 < n" using False by (simp add: n_def)
  have L: "e + int (bitlen m) = q + int (bitlen n)"
    using False n0 val by (intro leading_bit_unique) auto
  have up: "n < 2 * 2 ^ fbits F"
  proof -
    have "bitlen n \<le> Suc (fbits F)" using L q_def by linarith
    then have "(2::nat) ^ bitlen n \<le> 2 ^ Suc (fbits F)" by (rule power_increasing) simp
    with bitlen_bounds [OF n0] show ?thesis by simp
  qed
  have lo: "2 ^ fbits F \<le> n" if "emin F < q"
  proof -
    have "bitlen n = Suc (fbits F)" using that L q_def by linarith
    then show ?thesis using bitlen_bounds [OF n0] by simp
  qed
  have big: "nat (q - emin F) * 2 ^ fbits F + n < inf_mag F"
  proof -
    have "(4::int) \<le> 2 ^ ebits F"
      using power_increasing [OF assms(3), of "2 :: int"] by simp
    then have "int (nat (q - emin F) + 3) \<le> 2 ^ ebits F" using assms(4) by (auto simp: q_def max_def)
    then have "nat (q - emin F) + 3 \<le> 2 ^ ebits F"
      by (metis of_nat_le_iff of_nat_numeral of_nat_power)
    then have "nat (q - emin F) + 2 \<le> 2 ^ ebits F - 1" by simp
    then have "(nat (q - emin F) + 2) * 2 ^ fbits F \<le> inf_mag F"
      unfolding inf_mag_def by (rule mult_le_mono1)
    with up show ?thesis by simp
  qed
  have "round_mag F m e = nat (q - emin F) * 2 ^ fbits F + n"
    using False q big unfolding round_mag_def q_def [symmetric] Let_def by (simp add: n_def)
  with big decode_mag_build [OF up q(1) lo] val show ?thesis by (simp add: mval_def)
qed

section \<open>Patterns and values\<close>

text \<open>Two readings denote the same number (a NaN only equals a NaN).\<close>

fun same_val :: "fpv \<Rightarrow> fpv \<Rightarrow> bool" where
  "same_val NaN NaN = True"
| "same_val (Inf s) (Inf t) = (s = t)"
| "same_val (Fin s m e) (Fin t n d) = (s = t \<and> sval m e = sval n d)"
| "same_val _ _ = False"

lemma same_val_refl [simp]: "same_val v v"
  by (cases v) auto

lemma same_val_sym: "same_val v w \<Longrightarrow> same_val w v"
  by (cases v; cases w) auto

lemma same_val_trans: "same_val u v \<Longrightarrow> same_val v w \<Longrightarrow> same_val u w"
  by (cases u; cases v; cases w) auto

definition pattern_limit :: "fformat \<Rightarrow> nat" where
  "pattern_limit F = 2 * sign_bit F"

text \<open>A sane format, and the requirement on the pattern used for NaN results.\<close>

definition format_ok :: "fformat \<Rightarrow> bool" where
  "format_ok F \<longleftrightarrow> 2 \<le> ebits F \<and> 0 < fbits F"

definition nan_ok :: "fformat \<Rightarrow> nat \<Rightarrow> bool" where
  "nan_ok F nan \<longleftrightarrow> nan < pattern_limit F \<and> decode F nan = NaN"

lemma inf_mag_less: "inf_mag F < sign_bit F"
  by (simp add: inf_mag_def sign_bit_def power_add)

lemma round_mag_le: "round_mag F m e \<le> inf_mag F"
  by (simp add: round_mag_def Let_def)

lemma round_mag_less: "round_mag F m e < sign_bit F"
  using round_mag_le inf_mag_less by (rule le_less_trans)

lemma encode_less:
  assumes "v = NaN \<Longrightarrow> nan < pattern_limit F"
  shows "encode F nan v < pattern_limit F"
  using assms inf_mag_less [of F] round_mag_less [of F]
  by (cases v) (auto simp: encode_def pattern_limit_def mult_2 trans_less_add1)

theorem encode_decode:
  assumes "same_val v (decode F b)" "decode F b \<noteq> NaN" "b < pattern_limit F"
  shows "encode F nan v = b"
proof -
  define s where "s = (sign_bit F \<le> b)"
  define mag where "mag = (if s then b - sign_bit F else b)"
  have b: "b = (if s then sign_bit F else 0) + mag" by (simp add: s_def mag_def)
  have d: "decode F b = (if inf_mag F < mag then NaN else if mag = inf_mag F then Inf s
      else case decode_mag F mag of (m, e) \<Rightarrow> Fin s m e)"
    by (simp add: decode_def Let_def s_def mag_def)
  show ?thesis
  proof (cases "mag = inf_mag F")
    case True
    then have "v = Inf s" using assms(1) d by (cases v) auto
    with True b show ?thesis by (simp add: encode_def)
  next
    case False
    with assms(2) d have le: "mag < inf_mag F" by (auto split: if_splits)
    obtain m e where me: "decode_mag F mag = (m, e)" by (cases "decode_mag F mag")
    with d le assms(1) obtain n q where v: "v = Fin s n q" "sval n q = sval m e"
      by (cases v) auto
    have "round_mag F n q = mag"
      using v(2) me le by (intro round_mag_exact) (simp_all add: mval_def)
    with v b show ?thesis by (simp add: encode_def)
  qed
qed

text \<open>Reading back what \<open>encode\<close> stored for an exactly representable number.\<close>

lemma decode_encode_Fin:
  assumes "round_mag F m e < inf_mag F" "mval F (round_mag F m e) = sval m e"
  shows "same_val (decode F (encode F nan (Fin s m e))) (Fin s m e)"
  using assms inf_mag_less [of F]
  by (auto simp: encode_def decode_def Let_def mval_def split: prod.splits)

lemma decode_0: "0 < ebits F \<Longrightarrow> decode F 0 = Fin False 0 (emin F)"
proof -
  assume "0 < ebits F"
  then have "(1::nat) < 2 ^ ebits F" by (rule one_less_power [rotated]) simp
  then show ?thesis by (simp add: decode_def decode_mag_def inf_mag_def sign_bit_def Let_def)
qed

lemma decode_encode_Inf: "decode F (encode F nan (Inf s)) = Inf s"
  using inf_mag_less [of F] by (auto simp: encode_def decode_def Let_def)

text \<open>Every number of \<open>F\<close> is a number of \<open>G\<close>.\<close>

definition embeds :: "fformat \<Rightarrow> fformat \<Rightarrow> bool" where
  "embeds F G \<longleftrightarrow> fbits F \<le> fbits G \<and> emin G \<le> emin F \<and> 2 \<le> ebits G \<and>
     emin F + int (fbits F) + 2 ^ ebits F \<le> emin G + int (fbits G) + 2 ^ ebits G"

lemma embeds_formats [simp]:
  "embeds F32 F64" "embeds F64 X87" "embeds F64 F128" "embeds F32 F32" "embeds F64 F64"
  "embeds F32 X87" "embeds X87 X87" "embeds F128 F128"
  by (simp_all add: embeds_def emin_def F32_def F64_def X87_def F128_def)

lemma decode_Fin:
  assumes "decode F b = Fin s m e"
  shows "m < 2 * 2 ^ fbits F" "emin F \<le> e" "e + 3 \<le> emin F + 2 ^ ebits F \<or> e = emin F"
    "decode_mag F (if s then b - sign_bit F else b) = (m, e)"
    "(if s then b - sign_bit F else b) < inf_mag F" "s = (sign_bit F \<le> b)"
proof -
  show d: "decode_mag F (if s then b - sign_bit F else b) = (m, e)" (is "decode_mag F ?b = _")
    and s: "s = (sign_bit F \<le> b)"
    and lt: "(if s then b - sign_bit F else b) < inf_mag F"
    using assms by (auto simp: decode_def Let_def split: if_splits prod.splits)
  note D = decode_mag_cases [OF d]
  show "m < 2 * 2 ^ fbits F" "emin F \<le> e" using D by auto
  show "e + 3 \<le> emin F + 2 ^ ebits F \<or> e = emin F"
  proof (cases "e = emin F")
    case False
    then have "2 ^ fbits F \<le> m" using D(1,3) by simp
    then have "(nat (e - emin F) + 1) * 2 ^ fbits F < (2 ^ ebits F - 1) * 2 ^ fbits F"
      using lt D(4) by (simp add: inf_mag_def)
    then have "nat (e - emin F) + 1 < 2 ^ ebits F - 1" by (simp only: mult_less_cancel2)
    then have "nat (e - emin F) + 3 \<le> 2 ^ ebits F" by linarith
    then have "int (nat (e - emin F) + 3) \<le> int (2 ^ ebits F)" by (simp only: of_nat_le_iff)
    then show ?thesis using D(1) by simp
  qed simp
qed

theorem encode_widen:
  assumes "embeds F G" "decode F b = Fin s m e" "2 \<le> ebits F"
  shows "round_mag G m e < inf_mag G" "mval G (round_mag G m e) = sval m e"
proof -
  note D = decode_Fin [OF assms(2)]
  have bl: "bitlen m \<le> Suc (fbits F)" using D(1) by (intro bitlen_le) simp
  have "(4::int) \<le> 2 ^ ebits F" using power_increasing [OF assms(3), of "2 :: int"] by simp
  with D(3) have "e + 3 \<le> emin F + 2 ^ ebits F" by auto
  then have "e + int (bitlen m) - int (fbits G) - 1 - emin G + 3 \<le> 2 ^ ebits G"
    using assms(1) bl unfolding embeds_def by linarith
  then show "round_mag G m e < inf_mag G" "mval G (round_mag G m e) = sval m e"
    using round_mag_value [of m G e] assms(1) bl D(2) by (auto simp: embeds_def)
qed

text \<open>Conversion between formats, and the exact round trip through a wider one.\<close>

definition convert :: "fformat \<Rightarrow> fformat \<Rightarrow> nat \<Rightarrow> nat \<Rightarrow> nat" where
  "convert F G nan b = encode G nan (decode F b)"

theorem widen_value:
  assumes "embeds F G" "2 \<le> ebits F" "decode F b \<noteq> NaN"
  shows "same_val (decode G (convert F G nan b)) (decode F b)"
proof (cases "decode F b")
  case (Fin s m e)
  with encode_widen [OF assms(1) Fin assms(2)] show ?thesis
    by (simp add: convert_def decode_encode_Fin)
qed (use assms in \<open>simp_all add: convert_def decode_encode_Inf\<close>)

theorem narrow_widen:
  assumes "embeds F G" "2 \<le> ebits F" "decode F b \<noteq> NaN" "b < pattern_limit F"
  shows "convert G F nan' (convert F G nan b) = b"
  unfolding convert_def [of G] using widen_value [OF assms(1-3)] assms(3,4) by (rule encode_decode)

section \<open>Comparison, arithmetic and truncation\<close>

definition signed_mant :: "bool \<Rightarrow> nat \<Rightarrow> int" where
  "signed_mant s m = (if s then - int m else int m)"

text \<open>The two mantissas of a pair of dyadic numbers at their common exponent.\<close>

definition align :: "bool \<Rightarrow> nat \<Rightarrow> int \<Rightarrow> bool \<Rightarrow> nat \<Rightarrow> int \<Rightarrow> int \<times> int" where
  "align s m e t n d =
     (let k = min e d
      in (signed_mant s m * 2 ^ nat (e - k), signed_mant t n * 2 ^ nat (d - k)))"

fun fp_lt :: "fpv \<Rightarrow> fpv \<Rightarrow> bool" where
  "fp_lt NaN w = False"
| "fp_lt v NaN = False"
| "fp_lt (Inf s) (Inf t) = (s \<and> \<not> t)"
| "fp_lt (Inf s) (Fin t n d) = s"
| "fp_lt (Fin s m e) (Inf t) = (\<not> t)"
| "fp_lt (Fin s m e) (Fin t n d) = (case align s m e t n d of (x, y) \<Rightarrow> x < y)"

fun fp_eq :: "fpv \<Rightarrow> fpv \<Rightarrow> bool" where
  "fp_eq (Inf s) (Inf t) = (s = t)"
| "fp_eq (Fin s m e) (Fin t n d) = (case align s m e t n d of (x, y) \<Rightarrow> x = y)"
| "fp_eq v w = False"

definition of_signed :: "bool \<Rightarrow> int \<Rightarrow> int \<Rightarrow> fpv" where
  "of_signed s0 x e = (if x = 0 then Fin s0 0 e else Fin (x < 0) (nat \<bar>x\<bar>) e)"

fun fp_neg :: "fpv \<Rightarrow> fpv" where
  "fp_neg NaN = NaN"
| "fp_neg (Inf s) = Inf (\<not> s)"
| "fp_neg (Fin s m e) = Fin (\<not> s) m e"

fun fp_add :: "fpv \<Rightarrow> fpv \<Rightarrow> fpv" where
  "fp_add NaN w = NaN"
| "fp_add v NaN = NaN"
| "fp_add (Inf s) (Inf t) = (if s = t then Inf s else NaN)"
| "fp_add (Inf s) (Fin t n d) = Inf s"
| "fp_add (Fin s m e) (Inf t) = Inf t"
| "fp_add (Fin s m e) (Fin t n d) =
     (case align s m e t n d of (x, y) \<Rightarrow> of_signed (s \<and> t) (x + y) (min e d))"

fun fp_mul :: "fpv \<Rightarrow> fpv \<Rightarrow> fpv" where
  "fp_mul NaN w = NaN"
| "fp_mul v NaN = NaN"
| "fp_mul (Inf s) (Inf t) = Inf (s \<noteq> t)"
| "fp_mul (Inf s) (Fin t n d) = (if n = 0 then NaN else Inf (s \<noteq> t))"
| "fp_mul (Fin s m e) (Inf t) = (if m = 0 then NaN else Inf (s \<noteq> t))"
| "fp_mul (Fin s m e) (Fin t n d) = Fin (s \<noteq> t) (m * n) (e + d)"

text \<open>
  The quotient carries three bits more than the format \<open>F\<close> keeps and a sticky bit for the
  remainder, so that rounding it once rounds the exact quotient.
\<close>

fun fp_div :: "fformat \<Rightarrow> fpv \<Rightarrow> fpv \<Rightarrow> fpv" where
  "fp_div F NaN w = NaN"
| "fp_div F v NaN = NaN"
| "fp_div F (Inf s) (Inf t) = NaN"
| "fp_div F (Inf s) (Fin t n d) = Inf (s \<noteq> t)"
| "fp_div F (Fin s m e) (Inf t) = Fin (s \<noteq> t) 0 0"
| "fp_div F (Fin s m e) (Fin t n d) =
     (if n = 0 then (if m = 0 then NaN else Inf (s \<noteq> t))
      else let k = fbits F + 3 + bitlen n; q = m * 2 ^ k div n; r = m * 2 ^ k mod n
           in Fin (s \<noteq> t) (2 * q + (if r = 0 then 0 else 1)) (e - d - int k - 1))"

text \<open>Conversion to an integer drops the fraction; NaN and infinities have none.\<close>

fun fp_trunc :: "fpv \<Rightarrow> int option" where
  "fp_trunc (Fin s m e) =
     Some ((if s then -1 else 1) *
       int (if 0 \<le> e then m * 2 ^ nat e else m div 2 ^ nat (- e)))"
| "fp_trunc v = None"

definition fp_of_int :: "int \<Rightarrow> fpv" where
  "fp_of_int x = of_signed False x 0"

text \<open>The order of the values: a NaN first, then the extended reals.\<close>

fun fp_rank :: "fpv \<Rightarrow> int" where
  "fp_rank NaN = -2"
| "fp_rank (Inf s) = (if s then -1 else 1)"
| "fp_rank (Fin s m e) = 0"

fun fp_real :: "fpv \<Rightarrow> real" where
  "fp_real (Fin s m e) = (if s then - sval m e else sval m e)"
| "fp_real v = 0"

lemma align_real:
  assumes "align s m e t n d = (x, y)"
  shows "of_int x * 2 powi (min e d) = fp_real (Fin s m e)"
    "of_int y * 2 powi (min e d) = fp_real (Fin t n d)"
proof -
  have "sval m e = real m * 2 ^ nat (e - min e d) * 2 powi (min e d)"
    "sval n d = real n * 2 ^ nat (d - min e d) * 2 powi (min e d)"
    using powi2_shift [of e "nat (e - min e d)"] powi2_shift [of d "nat (d - min e d)"]
    by (simp_all add: sval_def)
  then show "of_int x * 2 powi (min e d) = fp_real (Fin s m e)"
    "of_int y * 2 powi (min e d) = fp_real (Fin t n d)"
    using assms by (auto simp: align_def signed_mant_def Let_def)
qed

lemma align_compare:
  assumes "align s m e t n d = (x, y)"
  shows "x < y \<longleftrightarrow> fp_real (Fin s m e) < fp_real (Fin t n d)"
    "x = y \<longleftrightarrow> fp_real (Fin s m e) = fp_real (Fin t n d)"
  unfolding align_real [OF assms, symmetric] by simp_all

lemma fp_lt_iff:
  "fp_lt v w \<longleftrightarrow> v \<noteq> NaN \<and> w \<noteq> NaN \<and>
     (fp_rank v < fp_rank w \<or> fp_rank v = fp_rank w \<and> fp_real v < fp_real w)"
  by (cases "(v, w)" rule: fp_lt.cases) (auto simp: align_compare simp del: fp_real.simps(1) split: prod.splits)

lemma fp_eq_iff:
  "fp_eq v w \<longleftrightarrow> v \<noteq> NaN \<and> w \<noteq> NaN \<and> fp_rank v = fp_rank w \<and> fp_real v = fp_real w"
  by (cases "(v, w)" rule: fp_eq.cases) (auto simp: align_compare simp del: fp_real.simps(1) split: prod.splits)

lemma same_val_fp_eq: "v \<noteq> NaN \<Longrightarrow> same_val v w \<Longrightarrow> fp_eq v w"
  by (cases v; cases w) (auto simp: fp_eq_iff)

lemma fp_add_commute: "fp_add v w = fp_add w v"
proof (cases "\<exists>s m e t n d. v = Fin s m e \<and> w = Fin t n d")
  case True
  then obtain s m e t n d where [simp]: "v = Fin s m e" "w = Fin t n d" by blast
  have "align t n d s m e = prod.swap (align s m e t n d)"
    by (simp add: align_def Let_def min.commute)
  then show ?thesis
    by (simp add: add.commute min.commute conj_commute split: prod.split)
qed (cases v; cases w; auto)

lemma fp_mul_commute: "fp_mul v w = fp_mul w v"
  by (cases v; cases w) (auto simp: mult.commute add.commute)

lemma fp_trunc_of_int [simp]: "fp_trunc (fp_of_int x) = Some x"
  by (auto simp: fp_of_int_def of_signed_def)

text \<open>Truncation depends on the number only.\<close>

lemma fp_trunc_same:
  assumes "same_val v w"
  shows "fp_trunc v = fp_trunc w"
proof -
  have fl: "int (if 0 \<le> e then m * 2 ^ nat e else m div 2 ^ nat (- e)) = \<lfloor>sval m e\<rfloor>" for m e
  proof (cases "0 \<le> e")
    case True
    then have "sval m e = of_int (int (m * 2 ^ nat e))"
      by (simp add: sval_def power_int_def)
    then have "\<lfloor>sval m e\<rfloor> = int (m * 2 ^ nat e)" by (simp only: floor_of_int)
    with True show ?thesis by simp
  next
    case False
    then have "sval m e = real_of_int (int m) / real_of_int (2 ^ nat (- e))"
      by (simp add: sval_def power_int_def power_one_over)
    then have "\<lfloor>sval m e\<rfloor> = int m div 2 ^ nat (- e)"
      by (simp only: floor_divide_of_int_eq)
    with False show ?thesis by (simp add: zdiv_int)
  qed
  show ?thesis
  proof (cases "(v, w)" rule: same_val.cases)
    case (3 s m e t n d)
    with assms have "s = t" "sval m e = sval n d" by simp_all
    with 3 show ?thesis by (simp only: prod.inject fp_trunc.simps fl)
  qed (use assms in auto)
qed

text \<open>Flipping the sign bit of a pattern negates what it denotes.\<close>

definition flip_sign :: "nat \<Rightarrow> nat \<Rightarrow> nat" where
  "flip_sign s b = (if s \<le> b then b - s else b + s)"

lemma flip_sign_flip: "b < 2 * s \<Longrightarrow> flip_sign s (flip_sign s b) = b"
  by (auto simp: flip_sign_def)

lemma flip_sign_less: "b < 2 * s \<Longrightarrow> flip_sign s b < 2 * s"
  by (auto simp: flip_sign_def)

lemma decode_flip_sign:
  assumes "b < pattern_limit F"
  shows "decode F (flip_sign (sign_bit F) b) = fp_neg (decode F b)"
proof -
  have "(if sign_bit F \<le> flip_sign (sign_bit F) b then flip_sign (sign_bit F) b - sign_bit F
      else flip_sign (sign_bit F) b) = (if sign_bit F \<le> b then b - sign_bit F else b)"
    "(sign_bit F \<le> flip_sign (sign_bit F) b) = (\<not> sign_bit F \<le> b)"
    using assms by (auto simp: flip_sign_def pattern_limit_def)
  then show ?thesis
    unfolding decode_def Let_def by (auto split: prod.splits)
qed

lemma fp_neg_NaN [simp]: "fp_neg v = NaN \<longleftrightarrow> v = NaN"
  by (cases v) auto

lemma fp_neg_order:
  "v \<noteq> NaN \<Longrightarrow> w \<noteq> NaN \<Longrightarrow> fp_lt (fp_neg w) (fp_neg v) = fp_lt v w"
  "v \<noteq> NaN \<Longrightarrow> w \<noteq> NaN \<Longrightarrow> fp_eq (fp_neg w) (fp_neg v) = fp_eq v w"
  by (cases v; cases w; auto simp: fp_lt_iff fp_eq_iff)+

section \<open>Classification\<close>

datatype fpclass = FP_NAN | FP_INFINITE | FP_ZERO | FP_SUBNORMAL | FP_NORMAL

fun fpclassify :: "fformat \<Rightarrow> fpv \<Rightarrow> fpclass" where
  "fpclassify F NaN = FP_NAN"
| "fpclassify F (Inf s) = FP_INFINITE"
| "fpclassify F (Fin s m e) =
     (if m = 0 then FP_ZERO
      else if e + int (bitlen m) \<le> emin F + int (fbits F) then FP_SUBNORMAL
      else FP_NORMAL)"

lemma fpclassify_NAN [simp]: "fpclassify F v = FP_NAN \<longleftrightarrow> v = NaN"
  and fpclassify_ZERO [simp]: "fpclassify F v = FP_ZERO \<longleftrightarrow> (\<exists>s e. v = Fin s 0 e)"
  by (cases v; auto)+

text \<open>Equal numbers other than zero have one pattern; the two zeros are the exception.\<close>

lemma fp_eq_same_val:
  assumes "fp_eq v w"
  shows "same_val v w \<or> (\<exists>s e t d. v = Fin s 0 e \<and> w = Fin t 0 d)"
proof (cases "(v, w)" rule: fp_eq.cases)
  case (2 s m e t n d)
  then have eq: "(if s then - sval m e else sval m e) = (if t then - sval n d else sval n d)"
    using assms by (simp add: fp_eq_iff)
  have nn: "0 \<le> sval m e" "0 \<le> sval n d" by (simp_all add: sval_def)
  show ?thesis
  proof (cases "sval m e = 0")
    case True
    with eq have "sval n d = 0" by (auto split: if_splits)
    with True have "m = 0" "n = 0" by (simp_all add: sval_0_iff)
    with 2 show ?thesis by simp
  next
    case False
    with eq nn have "s = t" "sval m e = sval n d" by (auto split: if_splits)
    with 2 show ?thesis by simp
  qed
qed (use assms in auto)

end
