(* ===== verification/X87_Float.thy ===== *)
theory X87_Float
  imports C_Float
begin

text \<open>
  The x87 extended format stores the integer bit of the mantissa that the interchange
  formats leave implicit.  This theory reads and writes its bit patterns and reduces them
  to the format \<open>X87\<close> with an implicit bit, whose theorems it reuses.
\<close>

section \<open>The x87 extended format\<close>

text \<open>
  Sign, 15 exponent bits, then the 64-bit mantissa with the integer bit written out.
  Patterns whose integer bit contradicts the exponent (other than a pseudo-denormal) are
  invalid operands and read as NaN.
\<close>

definition x87_of_mag :: "nat \<Rightarrow> nat" where
  "x87_of_mag b =
     (let ex = b div 2 ^ 63 in ex * 2 ^ 64 + (if ex = 0 then 0 else 2 ^ 63) + b mod 2 ^ 63)"

definition decode_x87 :: "nat \<Rightarrow> fpv" where
  "decode_x87 b =
     (let s = (2 ^ 79 \<le> b); r = (if s then b - 2 ^ 79 else b);
          ex = r div 2 ^ 64; m = r mod 2 ^ 64
      in if ex = 0 then Fin s m (emin X87)
         else if m < 2 ^ 63 then NaN
         else if 32767 \<le> ex then (if ex = 32767 \<and> m = 2 ^ 63 then Inf s else NaN)
         else Fin s m (emin X87 + int ex - 1))"

definition encode_x87 :: "nat \<Rightarrow> fpv \<Rightarrow> nat" where
  "encode_x87 nan v =
     (case v of NaN \<Rightarrow> nan
      | Inf s \<Rightarrow> (if s then 2 ^ 79 else 0) + x87_of_mag (inf_mag X87)
      | Fin s m e \<Rightarrow> (if s then 2 ^ 79 else 0) + x87_of_mag (round_mag X87 m e))"

text \<open>The patterns that the FPU itself stores: the integer bit is set exactly when the exponent is not 0.\<close>

definition canonical_x87 :: "nat \<Rightarrow> bool" where
  "canonical_x87 b =
     (b < 2 ^ 80 \<and> (((b mod 2 ^ 79) div 2 ^ 64 = 0) = (b mod 2 ^ 64 < 2 ^ 63)))"

lemma X87_consts:
  "sign_bit X87 = 2 ^ 78" "inf_mag X87 = 32767 * 2 ^ 63" "fbits X87 = 63" "ebits X87 = 15"
  by (simp_all add: sign_bit_def inf_mag_def X87_def)

lemma x87_of_mag_parts:
  "x87_of_mag b div 2 ^ 64 = b div 2 ^ 63"
  "x87_of_mag b mod 2 ^ 64 = (if b div 2 ^ 63 = 0 then 0 else 2 ^ 63) + b mod 2 ^ 63"
proof -
  define r where "r = (if b div 2 ^ 63 = 0 then 0 else 2 ^ 63) + b mod 2 ^ 63"
  have r: "r < 2 ^ 64"
  proof -
    have "b mod 2 ^ 63 < 2 ^ 63" by simp
    then show ?thesis by (auto simp: r_def)
  qed
  have x: "x87_of_mag b = r + b div 2 ^ 63 * 2 ^ 64" by (simp add: x87_of_mag_def r_def Let_def)
  show "x87_of_mag b div 2 ^ 64 = b div 2 ^ 63" unfolding x using r by simp
  show "x87_of_mag b mod 2 ^ 64 = (if b div 2 ^ 63 = 0 then 0 else 2 ^ 63) + b mod 2 ^ 63"
    unfolding x r_def [symmetric] using r by simp
qed

lemma decode_x87_signed:
  assumes "r < 2 ^ 79"
  shows "decode_x87 ((if s then 2 ^ 79 else 0) + r) =
    (if r div 2 ^ 64 = 0 then Fin s (r mod 2 ^ 64) (emin X87)
     else if r mod 2 ^ 64 < 2 ^ 63 then NaN
     else if 32767 \<le> r div 2 ^ 64
       then (if r div 2 ^ 64 = 32767 \<and> r mod 2 ^ 64 = 2 ^ 63 then Inf s else NaN)
     else Fin s (r mod 2 ^ 64) (emin X87 + int (r div 2 ^ 64) - 1))"
proof -
  define b where "b = (if s then 2 ^ 79 else 0) + r"
  have "(2 ^ 79 \<le> b) = s" "(if s then b - 2 ^ 79 else b) = r"
    using assms by (auto simp: b_def)
  then show ?thesis unfolding b_def [symmetric] decode_x87_def by (simp only: Let_def)
qed

lemma x87_of_mag_less: "b \<le> inf_mag X87 \<Longrightarrow> x87_of_mag b < 2 ^ 79"
proof -
  assume "b \<le> inf_mag X87"
  then have "b div 2 ^ 63 \<le> 32767 * 2 ^ 63 div 2 ^ 63"
    unfolding X87_consts by (rule div_le_mono)
  then have "x87_of_mag b div 2 ^ 64 < 2 ^ 15" unfolding x87_of_mag_parts by simp
  then show ?thesis by (simp add: div_less_iff_less_mult)
qed

lemma decode_x87_of_mag:
  assumes "b \<le> inf_mag X87"
  shows "decode_x87 ((if s then 2 ^ 79 else 0) + x87_of_mag b)
    = decode X87 ((if s then sign_bit X87 else 0) + b)"
proof -
  have lt: "x87_of_mag b < 2 ^ 79" using assms by (rule x87_of_mag_less)
  have lb: "b < sign_bit X87" using assms inf_mag_less by (rule le_less_trans)
  have ex: "b div 2 ^ 63 \<le> 32767"
    using div_le_mono [OF assms, of "2 ^ 63"] by (simp add: X87_consts)
  have b: "b = b div 2 ^ 63 * 2 ^ 63 + b mod 2 ^ 63" by (simp only: div_mult_mod_eq)
  have inf: "(b = inf_mag X87) = (b div 2 ^ 63 = 32767)"
  proof
    assume "b div 2 ^ 63 = 32767"
    then show "b = inf_mag X87" using b assms by (simp add: X87_consts)
  qed (simp add: X87_consts)
  define ex where "ex = b div 2 ^ 63"
  define fr where "fr = b mod 2 ^ 63"
  have fr: "fr < 2 ^ 63" by (simp add: fr_def)
  have L: "decode_x87 ((if s then 2 ^ 79 else 0) + x87_of_mag b) =
      (if ex = 0 then Fin s fr (emin X87)
       else if ex = 32767 then (if fr = 0 then Inf s else NaN)
       else Fin s (2 ^ 63 + fr) (emin X87 + int ex - 1))"
  proof -
    have "ex = 32767 \<or> ex < 32767" using ex unfolding ex_def by linarith
    then show ?thesis
      unfolding decode_x87_signed [OF lt] x87_of_mag_parts ex_def [symmetric] fr_def [symmetric]
      using fr by (cases "ex = 0") auto
  qed
  have R: "decode X87 ((if s then sign_bit X87 else 0) + b) =
      (if b = inf_mag X87 then Inf s
       else if ex = 0 then Fin s fr (emin X87) else Fin s (2 ^ 63 + fr) (emin X87 + int ex - 1))"
    using lb assms
    by (auto simp: decode_def Let_def decode_mag_def X87_consts(3) ex_def fr_def)
  have "fr = 0" if "b = inf_mag X87" using that by (simp add: fr_def X87_consts)
  then show ?thesis unfolding L R inf ex_def [symmetric] using inf by (auto simp: ex_def)
qed

lemma canonical_x87_mag:
  assumes "canonical_x87 b" "decode_x87 b \<noteq> NaN"
  obtains s c where "c \<le> inf_mag X87" "b = (if s then 2 ^ 79 else 0) + x87_of_mag c"
proof -
  define s where "s = (2 ^ 79 \<le> b)"
  define r where "r = (if s then b - 2 ^ 79 else b)"
  have b80: "b < 2 ^ 80" using assms(1) by (simp add: canonical_x87_def)
  have r79: "r < 2 ^ 79" using b80 by (auto simp: r_def s_def)
  have b: "b = (if s then 2 ^ 79 else 0) + r" by (simp add: r_def s_def)
  define ex where "ex = r div 2 ^ 64"
  define m where "m = r mod 2 ^ 64"
  have m: "m < 2 ^ 64" by (simp add: m_def)
  have r: "r = ex * 2 ^ 64 + m" unfolding ex_def m_def by (simp only: div_mult_mod_eq)
  have "b mod 2 ^ 79 = r" using r79 by (simp add: b)
  moreover have "b mod 2 ^ 64 = m"
  proof -
    have "(2 ^ 15 * 2 ^ 64 + r) mod 2 ^ 64 = r mod 2 ^ 64" by (rule mod_mult_self3)
    then have "b mod 2 ^ 64 = r mod 2 ^ 64" by (cases s) (simp_all add: b)
    then show ?thesis by (simp add: m_def)
  qed
  ultimately have can: "(ex = 0) = (m < 2 ^ 63)"
    using assms(1) by (simp add: canonical_x87_def ex_def)
  define c where "c = ex * 2 ^ 63 + (if ex = 0 then m else m - 2 ^ 63)"
  have f: "(if ex = 0 then m else m - 2 ^ 63) < 2 ^ 63" using can m by auto
  have c: "c div 2 ^ 63 = ex" "c mod 2 ^ 63 = (if ex = 0 then m else m - 2 ^ 63)"
    using f by (simp_all add: c_def)
  have "x87_of_mag c = r" unfolding x87_of_mag_def Let_def c r using can by auto
  moreover have "c \<le> inf_mag X87"
  proof -
    have "ex < 32767 \<or> ex = 32767 \<and> m = 2 ^ 63"
      using assms(2) can unfolding decode_x87_def Let_def s_def [symmetric] r_def [symmetric]
        ex_def [symmetric] m_def [symmetric] by (auto split: if_splits)
    then show ?thesis
    proof
      assume "ex < 32767"
      then have "c div 2 ^ 63 < 32767" using c by simp
      then have "c < 32767 * 2 ^ 63" by (simp add: div_less_iff_less_mult)
      then show ?thesis by (simp add: X87_consts)
    qed (simp add: c_def X87_consts)
  qed
  ultimately show thesis using that [of c s] b by simp
qed

theorem encode_decode_x87:
  assumes "same_val v (decode_x87 b)" "decode_x87 b \<noteq> NaN" "canonical_x87 b"
  shows "encode_x87 nan v = b"
proof -
  obtain s c where c: "c \<le> inf_mag X87" and b: "b = (if s then 2 ^ 79 else 0) + x87_of_mag c"
    using canonical_x87_mag [OF assms(3,2)] by blast
  let ?b = "(if s then sign_bit X87 else 0) + c"
  have d: "decode_x87 b = decode X87 ?b" using decode_x87_of_mag [OF c] by (simp add: b)
  have lim: "?b < pattern_limit X87"
    using c inf_mag_less [of X87] by (auto simp: pattern_limit_def)
  have e: "encode X87 nan v = ?b"
    using assms(1,2) lim unfolding d by (rule encode_decode)
  have sg: "c < sign_bit X87" using c inf_mag_less by (rule le_less_trans)
  show ?thesis
  proof (cases v)
    case NaN
    then show ?thesis using assms(1,2) by (cases "decode_x87 b") auto
  next
    case (Inf t)
    with e sg inf_mag_less [of X87] have "t = s \<and> c = inf_mag X87"
      by (auto simp: encode_def split: if_splits)
    with Inf b show ?thesis by (simp add: encode_x87_def)
  next
    case (Fin t m k)
    with e sg round_mag_less [of X87 m k] have "t = s \<and> c = round_mag X87 m k"
      by (auto simp: encode_def split: if_splits)
    with Fin b show ?thesis by (simp add: encode_x87_def)
  qed
qed

lemma decode_encode_x87:
  assumes "v \<noteq> NaN" "\<And>s m e. v = Fin s m e \<Longrightarrow> same_val (decode X87 (encode X87 nan v)) v"
  shows "same_val (decode_x87 (encode_x87 nan v)) v"
proof (cases v)
  case (Inf s)
  then show ?thesis
    using decode_x87_of_mag [of "inf_mag X87" s] decode_encode_Inf [of X87 nan s]
    by (simp add: encode_x87_def encode_def)
next
  case (Fin s m e)
  then show ?thesis
    using decode_x87_of_mag [OF round_mag_le, of s m e] assms(2) [OF Fin]
    by (simp add: encode_x87_def encode_def)
qed (use assms in simp)

lemma decode_x87_flip_sign:
  assumes "b < 2 ^ 80"
  shows "decode_x87 (flip_sign (2 ^ 79) b) = fp_neg (decode_x87 b)"
proof -
  have "(if 2 ^ 79 \<le> flip_sign (2 ^ 79) b then flip_sign (2 ^ 79) b - 2 ^ 79
      else flip_sign (2 ^ 79) b) = (if 2 ^ 79 \<le> b then b - 2 ^ 79 else b)"
    "(2 ^ 79 \<le> flip_sign (2 ^ 79) b) = (\<not> 2 ^ 79 \<le> b)"
    using assms by (auto simp: flip_sign_def)
  then show ?thesis
    unfolding decode_x87_def Let_def by (auto simp del: power_numeral)
qed

lemma canonical_x87_flip_sign:
  assumes "canonical_x87 b"
  shows "canonical_x87 (flip_sign (2 ^ 79) b)"
proof -
  have lt: "b < 2 ^ 80" using assms by (simp add: canonical_x87_def)
  define r where "r = (if 2 ^ 79 \<le> b then b - 2 ^ 79 else b)"
  have "(2 ^ 15 * 2 ^ 64 + r) mod 2 ^ 64 = r mod 2 ^ 64" by (rule mod_mult_self3)
  then have "(r + 2 ^ 79) mod 2 ^ 64 = r mod 2 ^ 64" by (simp add: add.commute)
  moreover have "b = (if 2 ^ 79 \<le> b then r + 2 ^ 79 else r)"
    "flip_sign (2 ^ 79) b = (if 2 ^ 79 \<le> b then r else r + 2 ^ 79)"
    by (auto simp: r_def flip_sign_def)
  ultimately have "flip_sign (2 ^ 79) b mod 2 ^ 64 = b mod 2 ^ 64"
    "flip_sign (2 ^ 79) b mod 2 ^ 79 = b mod 2 ^ 79"
    by (metis, metis mod_add_self2)
  with assms lt flip_sign_less [of b "2 ^ 79"] show ?thesis
    unfolding canonical_x87_def by simp
qed

end
