(* ===== verification/C_Memory.thy ===== *)
theory C_Memory
  imports X87_Float
begin

text \<open>
  The C side of the model: the target platform as the C compiler sees it, byte-addressed
  memory, the memory operations of the C library that the stubs call (\<open>memcpy\<close>,
  \<open>malloc\<close>, \<open>calloc\<close>, \<open>free\<close>, reading a NUL-terminated string) and the invariant of the
  allocated heap.  Where \<open>malloc\<close> puts a block is the choice of an \<open>allocator\<close>; its laws
  are the locale \<open>c_allocator\<close>, interpreted below on a bump allocator.
\<close>

section \<open>The platform\<close>

datatype target_os = Generic_os | NetBSD | FreeBSD | Android

record platform =
  os :: target_os
  big_endian :: bool
  char_signed :: bool
  sizeof_bool :: nat
  sizeof_short :: nat
  sizeof_int :: nat
  sizeof_long :: nat
  sizeof_llong :: nat
  sizeof_size_t :: nat
  sizeof_ptr :: nat
  sizeof_ldouble :: nat
  LDBL_MANT_DIG :: nat
  float_nan :: nat
  double_nan :: nat
  ldouble_nan :: nat
  ld_pad :: byte
  other_ld_decode :: "nat \<Rightarrow> fpv"
  other_ld_encode :: "fpv \<Rightarrow> nat"
  other_ld_class :: "nat \<Rightarrow> fpclass"

text \<open>
  The last seven fields are the choices of the compiler and the processor that C leaves
  open: the NaN patterns that conversions store, the content of padding bytes, and the
  meaning of a \<open>long double\<close> that is not in one of the IEEE formats (the pair of doubles of
  \<open>__ibm128\<close>).
\<close>

definition lp64 :: platform where
  "lp64 = \<lparr>os = Generic_os, big_endian = False, char_signed = True, sizeof_bool = 1, sizeof_short = 2,
     sizeof_int = 4, sizeof_long = 8, sizeof_llong = 8, sizeof_size_t = 8, sizeof_ptr = 8,
     sizeof_ldouble = 16, LDBL_MANT_DIG = 64,
     float_nan = 0x7FC00000, double_nan = 0x7FF8000000000000,
     ldouble_nan = 0x7FFFC000000000000000,
     ld_pad = 0xA5,
     other_ld_decode = (\<lambda>_. NaN), other_ld_encode = (\<lambda>_. 0), other_ld_class = (\<lambda>_. FP_NAN)\<rparr>"

definition s390x :: platform where
  "s390x = lp64\<lparr>big_endian := True, char_signed := False, LDBL_MANT_DIG := 113,
     ldouble_nan := 0x7FFF8000000000000000000000000000\<rparr>"

lemma lp64_sel [simp]:
  "os lp64 = Generic_os" "big_endian lp64 = False" "char_signed lp64 = True" "sizeof_bool lp64 = 1"
  "sizeof_short lp64 = 2" "sizeof_int lp64 = 4" "sizeof_long lp64 = 8" "sizeof_llong lp64 = 8"
  "sizeof_size_t lp64 = 8" "sizeof_ptr lp64 = 8" "sizeof_ldouble lp64 = 16" "LDBL_MANT_DIG lp64 = 64"
  "float_nan lp64 = 0x7FC00000" "double_nan lp64 = 0x7FF8000000000000"
  "ldouble_nan lp64 = 0x7FFFC000000000000000"
  by (simp_all add: lp64_def)

lemma s390x_sel [simp]:
  "os s390x = Generic_os" "big_endian s390x = True" "char_signed s390x = False" "sizeof_bool s390x = 1"
  "sizeof_short s390x = 2" "sizeof_int s390x = 4" "sizeof_long s390x = 8" "sizeof_llong s390x = 8"
  "sizeof_size_t s390x = 8" "sizeof_ptr s390x = 8" "sizeof_ldouble s390x = 16" "LDBL_MANT_DIG s390x = 113"
  "float_nan s390x = 0x7FC00000" "double_nan s390x = 0x7FF8000000000000"
  "ldouble_nan s390x = 0x7FFF8000000000000000000000000000"
  by (simp_all add: s390x_def lp64_def)

text \<open>Addresses are naturals; this is the bound every address stays below.\<close>

abbreviation addr_limit :: "platform \<Rightarrow> nat" where
  "addr_limit P \<equiv> 256 ^ sizeof_ptr P"

section \<open>Byte-addressed memory\<close>

type_synonym memory = "nat \<Rightarrow> byte option"

primrec load_bytes :: "memory \<Rightarrow> nat \<Rightarrow> nat \<Rightarrow> byte list option" where
  "load_bytes m a 0 = Some []"
| "load_bytes m a (Suc n) =
     (case m a of None \<Rightarrow> None | Some b \<Rightarrow> map_option ((#) b) (load_bytes m (Suc a) n))"

primrec store_bytes :: "memory \<Rightarrow> nat \<Rightarrow> byte list \<Rightarrow> memory option" where
  "store_bytes m a [] = Some m"
| "store_bytes m a (b # bs) =
     (case m a of None \<Rightarrow> None | Some _ \<Rightarrow> store_bytes (m(a \<mapsto> b)) (Suc a) bs)"

definition mapped :: "memory \<Rightarrow> nat \<Rightarrow> nat \<Rightarrow> bool" where
  "mapped m a n = list_all (\<lambda>x. m x \<noteq> None) [a..<a + n]"

lemma mapped_iff: "mapped m a n \<longleftrightarrow> (\<forall>x. a \<le> x \<and> x < a + n \<longrightarrow> m x \<noteq> None)"
  by (auto simp: mapped_def list_all_iff)

lemma mapped_0 [simp]: "mapped m a 0"
  by (simp add: mapped_def)

lemma mapped_Suc: "mapped m a (Suc n) \<longleftrightarrow> m a \<noteq> None \<and> mapped m (Suc a) n"
  by (cases n) (simp_all add: mapped_def upt_rec [of a])

lemma mapped_sub: "mapped m a n \<Longrightarrow> a \<le> b \<Longrightarrow> b + k \<le> a + n \<Longrightarrow> mapped m b k"
  by (auto simp: mapped_iff)

lemma load_bytes_length: "load_bytes m a n = Some bs \<Longrightarrow> length bs = n"
  by (induction n arbitrary: a bs) (auto split: option.splits)

lemma load_bytes_nth: "load_bytes m a n = Some bs \<Longrightarrow> i < n \<Longrightarrow> m (a + i) = Some (bs ! i)"
proof (induction n arbitrary: a bs i)
  case (Suc n)
  then obtain b bs' where "m a = Some b" "load_bytes m (Suc a) n = Some bs'" "bs = b # bs'"
    by (auto split: option.splits)
  with Suc show ?case by (cases i) force+
qed simp

lemma load_bytes_Some_iff: "(\<exists>bs. load_bytes m a n = Some bs) \<longleftrightarrow> mapped m a n"
  by (induction n arbitrary: a) (auto simp: mapped_Suc split: option.splits)

lemma load_bytes_mapped: "mapped m a n \<Longrightarrow> \<exists>bs. load_bytes m a n = Some bs"
  by (simp add: load_bytes_Some_iff)

lemma load_bytes_None_iff: "load_bytes m a n = None \<longleftrightarrow> \<not> mapped m a n"
  by (metis load_bytes_Some_iff not_Some_eq)

lemma load_bytesI:
  "length bs = n \<Longrightarrow> (\<And>i. i < n \<Longrightarrow> m (a + i) = Some (bs ! i)) \<Longrightarrow> load_bytes m a n = Some bs"
proof (induction n arbitrary: a bs)
  case (Suc n)
  then obtain b bs' where bs: "bs = b # bs'" by (cases bs) auto
  have "m (Suc a + i) = Some (bs' ! i)" if "i < n" for i
    using Suc.prems(2) [of "Suc i"] that by (simp add: bs)
  then have "load_bytes m (Suc a) n = Some bs'"
    using Suc.prems(1) by (intro Suc.IH) (simp_all add: bs)
  moreover have "m a = Some b" using Suc.prems(2) [of 0] by (simp add: bs)
  ultimately show ?case by (simp add: bs)
qed simp

lemma store_bytes_eq:
  "store_bytes m a bs =
     (if mapped m a (length bs)
      then Some (\<lambda>x. if a \<le> x \<and> x < a + length bs then Some (bs ! (x - a)) else m x)
      else None)"
proof (induction bs arbitrary: m a)
  case (Cons b bs)
  have M: "mapped (m(a \<mapsto> b)) (Suc a) (length bs) = mapped m (Suc a) (length bs)"
    by (auto simp: mapped_iff)
  have F: "(\<lambda>x. if Suc a \<le> x \<and> x < Suc a + length bs then Some (bs ! (x - Suc a))
                      else (m(a \<mapsto> b)) x)
      = (\<lambda>x. if a \<le> x \<and> x < a + length (b # bs) then Some ((b # bs) ! (x - a)) else m x)"
    by (auto simp: fun_eq_iff nth_Cons' not_less_eq_eq)
  show ?case
    by (cases "m a") (simp_all only: store_bytes.simps option.case Cons.IH M F mapped_Suc
        list.size add_0 add_0_right add_Suc_right option.distinct simp_thms if_False if_True)
qed (auto simp: fun_eq_iff)

lemma store_bytes_Some_iff: "(\<exists>m'. store_bytes m a bs = Some m') \<longleftrightarrow> mapped m a (length bs)"
  by (simp add: store_bytes_eq)

lemma load_store_same:
  "store_bytes m a bs = Some m' \<Longrightarrow> length bs = n \<Longrightarrow> load_bytes m' a n = Some bs"
  by (intro load_bytesI) (auto simp: store_bytes_eq split: if_splits)

lemma store_bytes_outside:
  "store_bytes m a bs = Some m' \<Longrightarrow> x < a \<or> a + length bs \<le> x \<Longrightarrow> m' x = m x"
  by (auto simp: store_bytes_eq split: if_splits)

lemma store_bytes_dom: "store_bytes m a bs = Some m' \<Longrightarrow> (m' x = None) = (m x = None)"
  by (auto simp: store_bytes_eq mapped_iff split: if_splits)

lemma store_bytes_mapped: "store_bytes m a bs = Some m' \<Longrightarrow> mapped m' b n = mapped m b n"
  by (simp add: mapped_iff store_bytes_dom)

lemma load_bytes_cong:
  "(\<And>x. a \<le> x \<Longrightarrow> x < a + n \<Longrightarrow> m' x = m x) \<Longrightarrow> load_bytes m' a n = load_bytes m a n"
proof (induction n arbitrary: a)
  case (Suc n)
  have "load_bytes m' (Suc a) n = load_bytes m (Suc a) n"
    by (rule Suc.IH) (use Suc.prems in auto)
  moreover have "m' a = m a" using Suc.prems [of a] by simp
  ultimately show ?case by (simp only: load_bytes.simps)
qed simp

lemma load_store_other:
  assumes "store_bytes m a bs = Some m'" "b + n \<le> a \<or> a + length bs \<le> b"
  shows "load_bytes m' b n = load_bytes m b n"
  by (rule load_bytes_cong) (use assms in \<open>auto intro: store_bytes_outside\<close>)

section \<open>Scalars in memory\<close>

definition enc :: "platform \<Rightarrow> nat \<Rightarrow> int \<Rightarrow> byte list" where
  "enc P n x = (if big_endian P then rev (le_bytes n x) else le_bytes n x)"

definition dec :: "platform \<Rightarrow> byte list \<Rightarrow> int" where
  "dec P bs = of_le (if big_endian P then rev bs else bs)"

definition load_u :: "platform \<Rightarrow> memory \<Rightarrow> nat \<Rightarrow> nat \<Rightarrow> int result" where
  "load_u P m a n = map_sum id (dec P) (need Memory_fault (load_bytes m a n))"

definition load_s :: "platform \<Rightarrow> memory \<Rightarrow> nat \<Rightarrow> nat \<Rightarrow> int result" where
  "load_s P m a n = map_sum id (swrap n) (load_u P m a n)"

definition store_int :: "platform \<Rightarrow> memory \<Rightarrow> nat \<Rightarrow> nat \<Rightarrow> int \<Rightarrow> memory result" where
  "store_int P m a n x = need Memory_fault (store_bytes m a (enc P n x))"

lemma length_enc [simp]: "length (enc P n x) = n"
  by (simp add: enc_def)

lemma dec_enc [codec]: "dec P (enc P n x) = uwrap n x"
  by (simp add: enc_def dec_def codec)

lemma enc_dec [codec]: "length bs = n \<Longrightarrow> enc P n (dec P bs) = bs"
  using le_bytes_of_le [of bs] le_bytes_of_le [of "rev bs"] by (auto simp: enc_def dec_def)

lemma enc_uwrap [simp]: "enc P n (uwrap n x) = enc P n x"
  by (simp add: enc_def)

lemma enc_swrap [simp]: "enc P n (swrap n x) = enc P n x"
  by (simp add: enc_def)

lemma in_urange_dec: "length bs = n \<Longrightarrow> in_urange n (dec P bs)"
  by (simp add: dec_def in_urange_of_le)

lemma load_u_Inr: "load_u P m a n = Inr x \<longleftrightarrow> (\<exists>bs. load_bytes m a n = Some bs \<and> x = dec P bs)"
  by (auto simp: load_u_def need_def split: option.splits)

lemma load_u_range: "load_u P m a n = Inr x \<Longrightarrow> in_urange n x"
  by (auto simp: load_u_Inr dest: load_bytes_length intro: in_urange_dec)

lemma load_s_range: "0 < n \<Longrightarrow> load_s P m a n = Inr x \<Longrightarrow> in_srange n x"
  by (cases "load_u P m a n") (auto simp: load_s_def in_srange_swrap)

lemma load_u_store:
  "store_int P m a n x = Inr m' \<Longrightarrow> load_u P m' a n = Inr (uwrap n x)"
  by (auto simp: load_u_def store_int_def codec dest!: load_store_same [where n = n])

lemma load_s_store:
  "store_int P m a n x = Inr m' \<Longrightarrow> load_s P m' a n = Inr (swrap n x)"
  by (simp add: load_s_def load_u_store)

lemma store_int_defined: "(\<exists>m'. store_int P m a n x = Inr m') \<longleftrightarrow> mapped m a n"
  using store_bytes_Some_iff [of m a "enc P n x"] by (simp add: store_int_def)

lemma load_u_defined: "(\<exists>x. load_u P m a n = Inr x) \<longleftrightarrow> mapped m a n"
  by (auto simp: load_u_Inr load_bytes_Some_iff [symmetric])

lemma load_s_defined: "(\<exists>x. load_s P m a n = Inr x) \<longleftrightarrow> mapped m a n"
  unfolding load_u_defined [symmetric, where P = P]
  by (cases "load_u P m a n") (auto simp: load_s_def)

lemma load_u_fault: "load_u P m a n = Inl e \<longleftrightarrow> e = Memory_fault \<and> \<not> mapped m a n"
  by (auto simp: load_u_def need_def load_bytes_None_iff [symmetric] split: option.splits)

lemma load_s_fault: "load_s P m a n = Inl e \<longleftrightarrow> e = Memory_fault \<and> \<not> mapped m a n"
  using load_u_fault [of P m a n] load_u_defined [of P m a n]
  by (cases "load_u P m a n") (auto simp: load_s_def)

lemma store_int_outside:
  "store_int P m a n x = Inr m' \<Longrightarrow> y < a \<or> a + n \<le> y \<Longrightarrow> m' y = m y"
  by (auto simp: store_int_def dest: store_bytes_outside)

lemma store_int_mapped: "store_int P m a n x = Inr m' \<Longrightarrow> mapped m' b k = mapped m b k"
  by (auto simp: store_int_def dest: store_bytes_mapped)

section \<open>Block copies and strings\<close>

text \<open>
  \<open>memcpy\<close>: overlapping regions are undefined behaviour, as is a region that is not mapped.
\<close>

definition memcpy :: "memory \<Rightarrow> nat \<Rightarrow> nat \<Rightarrow> nat \<Rightarrow> memory result" where
  "memcpy m dst src n =
     (if n = 0 \<or> dst + n \<le> src \<or> src + n \<le> dst
      then bindR (need Memory_fault (load_bytes m src n))
             (\<lambda>bs. need Memory_fault (store_bytes m dst bs))
      else Inl Memory_fault)"

lemma memcpy_load:
  assumes "memcpy m dst src n = Inr m'"
  shows "load_bytes m' dst n = load_bytes m src n"
  using assms
  using load_bytes_length [of m src n]
  by (auto simp: memcpy_def load_store_same split: if_splits)

lemma memcpy_outside:
  "memcpy m dst src n = Inr m' \<Longrightarrow> x < dst \<or> dst + n \<le> x \<Longrightarrow> m' x = m x"
  by (auto simp: memcpy_def split: if_splits dest!: load_bytes_length store_bytes_outside)

lemma memcpy_defined:
  "dst + n \<le> src \<or> src + n \<le> dst \<Longrightarrow>
     (\<exists>m'. memcpy m dst src n = Inr m') \<longleftrightarrow> mapped m src n \<and> mapped m dst n"
  by (cases "load_bytes m src n")
    (auto simp: memcpy_def load_bytes_None_iff store_bytes_eq
      dest: load_bytes_length load_bytes_Some_iff [THEN iffD1, OF exI])

text \<open>The C string that an OCaml string's bytes are, up to the first NUL.\<close>

definition c_string :: "byte list \<Rightarrow> byte list" where
  "c_string s = takeWhile (\<lambda>b. b \<noteq> 0) s"

text \<open>
  Reading a NUL-terminated string, as \<open>caml_copy_string\<close> (\<open>strlen\<close> then a copy) does.  The
  fuel is the distance to the highest mapped address: the read that would exceed it is a
  read of unmapped memory.
\<close>

primrec read_cstring :: "memory \<Rightarrow> nat \<Rightarrow> nat \<Rightarrow> byte list result" where
  "read_cstring m a 0 = Inl Memory_fault"
| "read_cstring m a (Suc n) =
     bindR (need Memory_fault (m a))
       (\<lambda>b. if b = 0 then Inr [] else map_sum id ((#) b) (read_cstring m (Suc a) n))"

lemma read_cstring_stored:
  assumes "load_bytes m a (Suc (length bs)) = Some (bs @ [0])" "0 \<notin> set bs" "length bs < k"
  shows "read_cstring m a k = Inr bs"
  using assms
proof (induction bs arbitrary: a k)
  case (Cons b bs)
  then obtain j where "k = Suc j" by (cases k) auto
  with Cons show ?case by (auto split: option.splits)
qed (auto simp: gr0_conv_Suc split: option.splits)

section \<open>The C heap\<close>

record cheap =
  mem :: memory
  blocks :: "nat \<Rightarrow> nat option"
  top :: nat

text \<open>
  \<open>place\<close> chooses where a block of a given size goes (\<open>None\<close>: out of memory) and \<open>junk\<close> is
  the content of memory that \<open>malloc\<close> hands out uninitialised.
\<close>

record allocator =
  place :: "cheap \<Rightarrow> nat \<Rightarrow> nat option"
  junk :: "nat \<Rightarrow> byte"

definition install :: "nat \<Rightarrow> byte list \<Rightarrow> cheap \<Rightarrow> cheap" where
  "install a bs h = h\<lparr>mem := (\<lambda>x. if a \<le> x \<and> x < a + length bs then Some (bs ! (x - a)) else mem h x),
     blocks := (blocks h)(a \<mapsto> length bs), top := max (top h) (a + max (length bs) 1)\<rparr>"

definition c_malloc :: "allocator \<Rightarrow> nat \<Rightarrow> cheap \<Rightarrow> cheap \<times> nat" where
  "c_malloc A n h =
     (case place A h n of None \<Rightarrow> (h, 0)
      | Some a \<Rightarrow> (install a (map (junk A) [a..<a + n]) h, a))"

definition c_calloc :: "platform \<Rightarrow> allocator \<Rightarrow> nat \<Rightarrow> nat \<Rightarrow> cheap \<Rightarrow> cheap \<times> nat" where
  "c_calloc P A count sz h =
     (if 256 ^ sizeof_size_t P \<le> count * sz then (h, 0)
      else case place A h (count * sz) of None \<Rightarrow> (h, 0)
      | Some a \<Rightarrow> (install a (replicate (count * sz) 0) h, a))"

definition c_free :: "nat \<Rightarrow> cheap \<Rightarrow> cheap result" where
  "c_free a h =
     (if a = 0 then Inr h
      else case blocks h a of None \<Rightarrow> Inl Memory_fault
      | Some n \<Rightarrow> Inr (h\<lparr>mem := (\<lambda>x. if a \<le> x \<and> x < a + n then None else mem h x),
                          blocks := (blocks h)(a := None)\<rparr>))"

definition apart :: "nat \<Rightarrow> nat \<Rightarrow> nat \<Rightarrow> nat \<Rightarrow> bool" where
  "apart a n b k \<longleftrightarrow> a + max n 1 \<le> b \<or> b + max k 1 \<le> a"

definition heap_ok :: "platform \<Rightarrow> cheap \<Rightarrow> bool" where
  "heap_ok P h \<longleftrightarrow>
     0 < top h \<and> top h \<le> addr_limit P \<and> mem h 0 = None \<and> blocks h 0 = None \<and>
     (\<forall>x. mem h x \<noteq> None \<longrightarrow> x < top h) \<and>
     (\<forall>a n. blocks h a = Some n \<longrightarrow> mapped (mem h) a n \<and> a + max n 1 \<le> top h) \<and>
     (\<forall>a n b k. blocks h a = Some n \<longrightarrow> blocks h b = Some k \<longrightarrow> a \<noteq> b \<longrightarrow> apart a n b k)"

lemma heap_okD:
  assumes "heap_ok P h"
  shows "0 < top h" "top h \<le> addr_limit P" "mem h 0 = None" "blocks h 0 = None"
    "mem h x \<noteq> None \<Longrightarrow> x < top h"
    "blocks h a = Some n \<Longrightarrow> mapped (mem h) a n"
    "blocks h a = Some n \<Longrightarrow> a + max n 1 \<le> top h"
    "blocks h a = Some n \<Longrightarrow> blocks h b = Some k \<Longrightarrow> a \<noteq> b \<Longrightarrow> apart a n b k"
  using assms by (auto simp: heap_ok_def)

text \<open>A region where a new block may go.\<close>

definition fresh :: "platform \<Rightarrow> cheap \<Rightarrow> nat \<Rightarrow> nat \<Rightarrow> bool" where
  "fresh P h a n \<longleftrightarrow>
     a \<noteq> 0 \<and> a + max n 1 \<le> addr_limit P \<and> (\<forall>x. a \<le> x \<and> x < a + max n 1 \<longrightarrow> mem h x = None) \<and>
     (\<forall>b k. blocks h b = Some k \<longrightarrow> apart a n b k)"

lemma fresh_blocks: "fresh P h a n \<Longrightarrow> blocks h a = None"
proof (rule ccontr)
  assume fr: "fresh P h a n" and "blocks h a \<noteq> None"
  then obtain k where "blocks h a = Some k" by auto
  with fr have "apart a n a k" unfolding fresh_def by blast
  then show False by (simp add: apart_def)
qed

lemma fresh_mem: "fresh P h a n \<Longrightarrow> mem h x \<noteq> None \<Longrightarrow> x < a \<or> a + n \<le> x"
  unfolding fresh_def by (metis less_le_trans max.cobounded1 nat_add_left_cancel_le not_less)

lemma fresh_limit: "fresh P h a n \<Longrightarrow> 0 < a \<and> a < addr_limit P \<and> a + n \<le> addr_limit P"
  by (auto simp: fresh_def max_def split: if_splits)

lemma install_sel [simp]:
  "blocks (install a bs h) = (blocks h)(a \<mapsto> length bs)"
  "top (install a bs h) = max (top h) (a + max (length bs) 1)"
  by (simp_all add: install_def)

lemma load_install: "length bs = n \<Longrightarrow> load_bytes (mem (install a bs h)) a n = Some bs"
  by (rule load_bytesI) (auto simp: install_def)

lemma mem_install_outside:
  "x < a \<or> a + length bs \<le> x \<Longrightarrow> mem (install a bs h) x = mem h x"
  by (auto simp: install_def)

lemma mapped_install: "mapped (mem h) b k \<Longrightarrow> mapped (mem (install a bs h)) b k"
  by (auto simp: mapped_iff install_def)

lemma mapped_install_new: "length bs = n \<Longrightarrow> mapped (mem (install a bs h)) a n"
  by (auto simp: mapped_iff install_def)

lemma install_heap_ok:
  assumes ok: "heap_ok P h" and fr: "fresh P h a (length bs)"
  shows "heap_ok P (install a bs h)"
proof -
  note D = heap_okD [OF ok]
  have A: "apart x n y k" if "blocks (install a bs h) x = Some n"
    "blocks (install a bs h) y = Some k" "x \<noteq> y" for x n y k
    using that fr D(8) by (auto simp: fresh_def apart_def split: if_splits)
  have B: "mapped (mem (install a bs h)) x n \<and> x + max n 1 \<le> top (install a bs h)"
    if "blocks (install a bs h) x = Some n" for x n
    using that D(6,7) [of x n]
    by (auto intro: mapped_install mapped_install_new split: if_splits)
  have C: "x < top (install a bs h)" if "mem (install a bs h) x \<noteq> None" for x
    using that D(5) [of x] by (auto simp: install_def split: if_splits)
  show ?thesis
    using A B C D(1-4) fr unfolding heap_ok_def fresh_def
    by (auto simp: install_def [of a bs h] split: if_splits)
qed

lemma c_free_heap_ok:
  assumes ok: "heap_ok P h" and fr: "c_free a h = Inr h'"
  shows "heap_ok P h'"
proof (cases "a = 0")
  case False
  then obtain n where n: "blocks h a = Some n"
    and h': "h' = h\<lparr>mem := (\<lambda>x. if a \<le> x \<and> x < a + n then None else mem h x),
                   blocks := (blocks h)(a := None)\<rparr>"
    using fr by (auto simp: c_free_def split: option.splits)
  note D = heap_okD [OF ok]
  have "mapped (mem h') b k \<and> b + max k 1 \<le> top h'" if "blocks h' b = Some k" for b k
  proof -
    from that have b: "b \<noteq> a" "blocks h b = Some k" by (auto simp: h' split: if_splits)
    with D(8) [OF b(2) n] have "apart b k a n" by simp
    with D(6,7) [OF b(2)] show ?thesis by (auto simp: h' mapped_iff apart_def)
  qed
  then show ?thesis
    using D unfolding heap_ok_def by (auto simp: h' split: if_splits)
qed (use assms in \<open>simp add: c_free_def\<close>)

section \<open>The allocator interface\<close>

text \<open>
  What the C library promises of \<open>malloc\<close> and \<open>calloc\<close>: a block that is handed out is a
  fresh region of the address space.
\<close>

locale c_allocator =
  fixes P :: platform and A :: allocator
  assumes place_fresh: "heap_ok P h \<Longrightarrow> place A h n = Some a \<Longrightarrow> fresh P h a n"
begin

lemma malloc_ok:
  "heap_ok P h \<Longrightarrow> heap_ok P (fst (c_malloc A n h))"
  by (auto simp: c_malloc_def intro!: install_heap_ok dest: place_fresh split: option.splits)

lemma calloc_ok:
  "heap_ok P h \<Longrightarrow> heap_ok P (fst (c_calloc P A count sz h))"
  by (auto simp: c_calloc_def intro!: install_heap_ok dest: place_fresh split: option.splits)

lemma malloc_frame:
  assumes "heap_ok P h" "c_malloc A n h = (h', a)" "mem h x \<noteq> None"
  shows "mem h' x = mem h x"
proof (cases "place A h n")
  case (Some b)
  then have "x < b \<or> b + n \<le> x"
    using place_fresh [OF assms(1) Some] assms(3) by (blast dest: fresh_mem)
  with Some assms(2) show ?thesis by (auto simp: c_malloc_def mem_install_outside)
qed (use assms in \<open>auto simp: c_malloc_def\<close>)

lemma calloc_frame:
  assumes "heap_ok P h" "c_calloc P A count sz h = (h', a)" "mem h x \<noteq> None"
  shows "mem h' x = mem h x"
proof (cases "place A h (count * sz)")
  case (Some b)
  then have "x < b \<or> b + count * sz \<le> x"
    using place_fresh [OF assms(1) Some] assms(3) by (blast dest: fresh_mem)
  with Some assms(2) show ?thesis
    by (auto simp: c_calloc_def mem_install_outside split: if_splits)
qed (use assms in \<open>auto simp: c_calloc_def split: if_splits\<close>)

lemma malloc_new:
  assumes "heap_ok P h" "c_malloc A n h = (h', a)" "a \<noteq> 0"
  shows "blocks h a = None" "blocks h' = (blocks h)(a \<mapsto> n)" "a < addr_limit P"
    "load_bytes (mem h') a n = Some (map (junk A) [a..<a + n])"
    "fresh P h a n"
  using assms place_fresh [OF assms(1), of n a]
  by (auto simp: c_malloc_def load_install dest: fresh_blocks fresh_limit split: option.splits)

lemma calloc_new:
  assumes "heap_ok P h" "c_calloc P A count sz h = (h', a)" "a \<noteq> 0"
  shows "blocks h a = None" "blocks h' = (blocks h)(a \<mapsto> count * sz)" "a < addr_limit P"
    "load_bytes (mem h') a (count * sz) = Some (replicate (count * sz) 0)"
    "fresh P h a (count * sz)"
  using assms place_fresh [OF assms(1), of "count * sz" a]
  by (auto simp: c_calloc_def load_install dest: fresh_blocks fresh_limit
      split: option.splits if_splits)

end

text \<open>
  An allocator that hands out 16-aligned regions above everything mapped so far, up to a
  limit, and never reuses an address.
\<close>

definition bump :: "platform \<Rightarrow> nat \<Rightarrow> allocator" where
  "bump P limit =
     \<lparr>place = (\<lambda>h n. let a = (top h + 15) div 16 * 16 in
                if a + max n 1 \<le> min limit (addr_limit P) then Some a else None),
      junk = (\<lambda>_. 0xA5)\<rparr>"

lemma bump_place_ge: "place (bump P limit) h n = Some a \<Longrightarrow> top h \<le> a"
  by (auto simp: bump_def Let_def split: if_splits)

interpretation bump: c_allocator P "bump P limit" for P limit
proof
  fix h n a
  assume ok: "heap_ok P h" and pl: "place (bump P limit) h n = Some a"
  have ge: "top h \<le> a" using pl by (rule bump_place_ge)
  moreover have "a + max n 1 \<le> addr_limit P"
    using pl by (auto simp: bump_def Let_def split: if_splits)
  moreover have "mem h x = None" if "a \<le> x" for x
    using heap_okD(5) [OF ok, of x] ge that by fastforce
  moreover have "apart a n b k" if "blocks h b = Some k" for b k
    using heap_okD(7) [OF ok that] ge by (simp add: apart_def)
  ultimately show "fresh P h a n"
    using heap_okD(1) [OF ok] by (auto simp: fresh_def)
qed

definition empty_heap :: cheap where
  "empty_heap = \<lparr>mem = (\<lambda>_. None), blocks = (\<lambda>_. None), top = 1\<rparr>"

lemma empty_heap_ok: "heap_ok P empty_heap"
  by (simp add: heap_ok_def empty_heap_def)

end
