(* ===== verification/Ocaml_Value.thy ===== *)
theory Ocaml_Value
  imports C_Memory
begin

text \<open>
  OCaml values as the stubs see them through the runtime's macros.  An immediate is kept as
  the content of its machine word, so that \<open>Val_long\<close> and \<open>Long_val\<close> are the shift and the
  tag bit of the runtime and lose the bit they lose there.  A macro applied to a value of
  another shape is undefined in C: here it is the fault \<open>Ill_typed\<close>.

  The \<open>integers\<close> package (\<open>ocaml_integers.h\<close>) is not part of the repository: its functions are
  the parameter \<open>integers_lib\<close> and what its documentation promises of them is the locale
  \<open>integers_interface\<close>.
\<close>

datatype "value" =
    Imm int
  | Int32_block int
  | Int64_block int
  | Nativeint_block int
  | Double_block "64 word"
  | Double_array_block "64 word list"
  | String_block "byte list"
  | Custom_block string "byte list"
  | Custom_ptr string nat
  | Block nat "value list"

section \<open>Immediates\<close>

definition Val_long :: "platform \<Rightarrow> int \<Rightarrow> value" where
  "Val_long P x = Imm (swrap (sizeof_ptr P) (2 * x + 1))"

fun Long_val :: "value \<Rightarrow> int result" where
  "Long_val (Imm w) = Inr (w div 2)"
| "Long_val v = Inl Ill_typed"

abbreviation Val_int :: "platform \<Rightarrow> int \<Rightarrow> value" where
  "Val_int P x \<equiv> Val_long P x"

definition Int_val :: "platform \<Rightarrow> value \<Rightarrow> int result" where
  "Int_val P v = map_sum id (swrap (sizeof_int P)) (Long_val v)"

definition Val_unit :: "value" where
  "Val_unit = Imm 1"

definition Val_bool :: "platform \<Rightarrow> int \<Rightarrow> value" where
  "Val_bool P x = Val_int P (if x \<noteq> 0 then 1 else 0)"

abbreviation Bool_val :: "platform \<Rightarrow> value \<Rightarrow> int result" where
  "Bool_val P v \<equiv> Int_val P v"

text \<open>The integers an OCaml \<open>int\<close> can hold.\<close>

definition oint_ok :: "platform \<Rightarrow> int \<Rightarrow> bool" where
  "oint_ok P x \<longleftrightarrow> in_srange (sizeof_ptr P) (2 * x + 1)"

lemma Long_val_Val_long:
  "0 < sizeof_ptr P \<Longrightarrow> oint_ok P x \<Longrightarrow> Long_val (Val_long P x) = Inr x"
  by (simp add: Val_long_def oint_ok_def swrap_id)

lemma oint_ok_small:
  assumes "n < sizeof_ptr P" "in_srange n x \<or> in_urange n x"
  shows "oint_ok P x"
proof -
  define h where "h = (256 ^ n :: int)"
  have "(256 :: int) ^ Suc n \<le> 256 ^ sizeof_ptr P"
    using assms(1) by (intro power_increasing) auto
  then have "256 * h \<le> 256 ^ sizeof_ptr P" by (simp add: h_def)
  moreover have "1 \<le> h" by (simp add: h_def)
  ultimately have "2 * h + 1 \<le> 256 ^ sizeof_ptr P div 2" by linarith
  moreover have "-h \<le> x \<and> x < h"
    using assms(2) \<open>1 \<le> h\<close> unfolding in_srange_def in_urange_def h_def [symmetric] by linarith
  ultimately show ?thesis unfolding oint_ok_def in_srange_def by linarith
qed

lemma Int_val_Val_int:
  assumes "0 < sizeof_ptr P" "0 < sizeof_int P" "oint_ok P x" "in_srange (sizeof_int P) x"
  shows "Int_val P (Val_int P x) = Inr x"
  using assms by (simp add: Int_val_def Long_val_Val_long swrap_id)

lemma oint_ok_bit: "0 < sizeof_ptr P \<Longrightarrow> oint_ok P 0 \<and> oint_ok P 1"
proof -
  assume "0 < sizeof_ptr P"
  then have "(256::int) ^ 1 \<le> 256 ^ sizeof_ptr P" by (intro power_increasing) auto
  then have "(256::int) \<le> 256 ^ sizeof_ptr P" by simp
  then show ?thesis unfolding oint_ok_def in_srange_def by linarith
qed

lemma Int_val_Val_bool:
  assumes "0 < sizeof_ptr P" "0 < sizeof_int P"
  shows "Int_val P (Val_bool P x) = Inr (if x \<noteq> 0 then 1 else 0)"
proof -
  have "(256::int) ^ 1 \<le> 256 ^ sizeof_int P" using assms(2) by (intro power_increasing) auto
  then have "(256::int) \<le> 256 ^ sizeof_int P" by simp
  then have "in_srange (sizeof_int P) 0" "in_srange (sizeof_int P) 1"
    unfolding in_srange_def by linarith+
  then show ?thesis
    using assms oint_ok_bit [OF assms(1)] by (simp add: Val_bool_def Int_val_Val_int)
qed

lemma Val_unit_eq: "0 < sizeof_ptr P \<Longrightarrow> Val_unit = Val_int P 0"
  using oint_ok_bit [of P] by (simp add: Val_unit_def Val_long_def oint_ok_def swrap_id)

section \<open>Blocks\<close>

fun Field :: "value \<Rightarrow> nat \<Rightarrow> value result" where
  "Field (Block t vs) i = (if i < length vs then Inr (vs ! i) else Inl Memory_fault)"
| "Field v i = Inl Ill_typed"

fun Wosize_val :: "value \<Rightarrow> nat result" where
  "Wosize_val (Block t vs) = Inr (length vs)"
| "Wosize_val v = Inl Ill_typed"

fun Is_block :: "value \<Rightarrow> bool" where
  "Is_block (Imm w) = False"
| "Is_block v = True"

definition String_tag :: nat where "String_tag = 252"
definition Double_tag :: nat where "Double_tag = 253"
definition Double_array_tag :: nat where "Double_array_tag = 254"
definition Custom_tag :: nat where "Custom_tag = 255"

fun Tag_val :: "value \<Rightarrow> nat result" where
  "Tag_val (Imm w) = Inl Ill_typed"
| "Tag_val (Block t vs) = Inr t"
| "Tag_val (String_block s) = Inr String_tag"
| "Tag_val (Double_block d) = Inr Double_tag"
| "Tag_val (Double_array_block ds) = Inr Double_array_tag"
| "Tag_val v = Inr Custom_tag"

definition caml_copy_int32 :: "int \<Rightarrow> value" where
  "caml_copy_int32 x = Int32_block (swrap 4 x)"

definition caml_copy_int64 :: "int \<Rightarrow> value" where
  "caml_copy_int64 x = Int64_block (swrap 8 x)"

definition caml_copy_nativeint :: "platform \<Rightarrow> int \<Rightarrow> value" where
  "caml_copy_nativeint P x = Nativeint_block (swrap (sizeof_ptr P) x)"

fun Int32_val :: "value \<Rightarrow> int result" where
  "Int32_val (Int32_block x) = Inr x"
| "Int32_val v = Inl Ill_typed"

fun Int64_val :: "value \<Rightarrow> int result" where
  "Int64_val (Int64_block x) = Inr x"
| "Int64_val v = Inl Ill_typed"

fun Nativeint_val :: "value \<Rightarrow> int result" where
  "Nativeint_val (Nativeint_block x) = Inr x"
| "Nativeint_val v = Inl Ill_typed"

fun Double_val :: "value \<Rightarrow> (64 word) result" where
  "Double_val (Double_block d) = Inr d"
| "Double_val v = Inl Ill_typed"

fun Double_field :: "value \<Rightarrow> nat \<Rightarrow> (64 word) result" where
  "Double_field (Double_array_block ds) i = (if i < length ds then Inr (ds ! i) else Inl Memory_fault)"
| "Double_field v i = Inl Ill_typed"

fun String_val :: "value \<Rightarrow> byte list result" where
  "String_val (String_block s) = Inr s"
| "String_val v = Inl Ill_typed"

fun Custom_bytes :: "string \<Rightarrow> value \<Rightarrow> byte list result" where
  "Custom_bytes nm (Custom_block n bs) = (if n = nm then Inr bs else Inl Ill_typed)"
| "Custom_bytes nm v = Inl Ill_typed"

fun Custom_addr :: "string \<Rightarrow> value \<Rightarrow> nat result" where
  "Custom_addr nm (Custom_ptr n a) = (if n = nm then Inr a else Inl Ill_typed)"
| "Custom_addr nm v = Inl Ill_typed"

section \<open>Pointers as values\<close>

definition CTYPES_FROM_PTR :: "platform \<Rightarrow> nat \<Rightarrow> value" where
  "CTYPES_FROM_PTR P a = caml_copy_nativeint P (int a)"

definition CTYPES_TO_PTR :: "platform \<Rightarrow> value \<Rightarrow> nat result" where
  "CTYPES_TO_PTR P v = map_sum id (\<lambda>x. nat (uwrap (sizeof_ptr P) x)) (Nativeint_val v)"

definition CTYPES_ADDR_OF_FATPTR :: "platform \<Rightarrow> value \<Rightarrow> nat result" where
  "CTYPES_ADDR_OF_FATPTR P p = bindR (Field p 1) (CTYPES_TO_PTR P)"

lemma to_from_ptr [simp]:
  "a < addr_limit P \<Longrightarrow> CTYPES_TO_PTR P (CTYPES_FROM_PTR P a) = Inr a"
proof -
  assume "a < addr_limit P"
  then have "int a < 256 ^ sizeof_ptr P" by (metis of_nat_less_iff of_nat_numeral of_nat_power)
  then have "in_urange (sizeof_ptr P) (int a)" by (simp add: in_urange_def)
  then show ?thesis
    by (simp add: CTYPES_FROM_PTR_def CTYPES_TO_PTR_def caml_copy_nativeint_def uwrap_id)
qed

text \<open>
  A fat pointer is the OCaml record \<open>{ reftyp; raw; managed }\<close> of \<open>ctypes_ptr.ml\<close>; the stubs
  read its second field.
\<close>

definition fatptr :: "platform \<Rightarrow> nat \<Rightarrow> value" where
  "fatptr P a = Block 0 [Val_unit, CTYPES_FROM_PTR P a, Val_unit]"

lemma fatptr_addr [simp]:
  "a < addr_limit P \<Longrightarrow> CTYPES_ADDR_OF_FATPTR P (fatptr P a) = Inr a"
  by (simp add: CTYPES_ADDR_OF_FATPTR_def fatptr_def)

section \<open>The \<open>integers\<close> package\<close>

record integers_lib =
  Integers_val_uint8 :: "int \<Rightarrow> value"
  Uint8_val :: "value \<Rightarrow> int result"
  Integers_val_uint16 :: "int \<Rightarrow> value"
  Uint16_val :: "value \<Rightarrow> int result"
  integers_copy_uint32 :: "int \<Rightarrow> value"
  Uint32_val :: "value \<Rightarrow> int result"
  integers_copy_uint64 :: "int \<Rightarrow> value"
  Uint64_val :: "value \<Rightarrow> int result"

definition integers_ok :: "integers_lib \<Rightarrow> bool" where
  "integers_ok L \<longleftrightarrow>
     (\<forall>x. in_urange 1 x \<longrightarrow> Uint8_val L (Integers_val_uint8 L x) = Inr x) \<and>
     (\<forall>x. in_urange 2 x \<longrightarrow> Uint16_val L (Integers_val_uint16 L x) = Inr x) \<and>
     (\<forall>x. in_urange 4 x \<longrightarrow> Uint32_val L (integers_copy_uint32 L x) = Inr x) \<and>
     (\<forall>x. in_urange 8 x \<longrightarrow> Uint64_val L (integers_copy_uint64 L x) = Inr x)"

locale integers_interface =
  fixes L :: integers_lib
  assumes ok: "integers_ok L"
begin

lemma uint8 [c_int]: "in_urange 1 x \<Longrightarrow> Uint8_val L (Integers_val_uint8 L x) = Inr x"
  and uint16 [c_int]: "in_urange 2 x \<Longrightarrow> Uint16_val L (Integers_val_uint16 L x) = Inr x"
  and uint32 [c_int]: "in_urange 4 x \<Longrightarrow> Uint32_val L (integers_copy_uint32 L x) = Inr x"
  and uint64 [c_int]: "in_urange 8 x \<Longrightarrow> Uint64_val L (integers_copy_uint64 L x) = Inr x"
  using ok by (auto simp: integers_ok_def)

end

text \<open>The representation of the package on a target: small ones immediate, large ones boxed.\<close>

definition boxed_integers :: "platform \<Rightarrow> integers_lib" where
  "boxed_integers P =
     \<lparr>Integers_val_uint8 = (\<lambda>x. Val_int P (uwrap 1 x)),
      Uint8_val = (\<lambda>v. map_sum id (uwrap 1) (Int_val P v)),
      Integers_val_uint16 = (\<lambda>x. Val_int P (uwrap 2 x)),
      Uint16_val = (\<lambda>v. map_sum id (uwrap 2) (Int_val P v)),
      integers_copy_uint32 = (\<lambda>x. Custom_block ''integers:uint32'' (enc P 4 x)),
      Uint32_val = (\<lambda>v. map_sum id (dec P) (Custom_bytes ''integers:uint32'' v)),
      integers_copy_uint64 = (\<lambda>x. Custom_block ''integers:uint64'' (enc P 8 x)),
      Uint64_val = (\<lambda>v. map_sum id (dec P) (Custom_bytes ''integers:uint64'' v))\<rparr>"

lemma boxed_small:
  assumes "4 \<le> sizeof_int P" "4 \<le> sizeof_ptr P" "in_urange n x" "n \<le> 2"
  shows "map_sum id (uwrap n) (Int_val P (Val_int P (uwrap n x))) = Inr x"
proof -
  have "in_srange (sizeof_int P) x" "oint_ok P x"
    using assms by (auto intro: in_srange_of_urange [of n] oint_ok_small [of n])
  then show ?thesis using assms by (simp add: uwrap_id Int_val_Val_int)
qed

lemma boxed_integers_ok:
  assumes "4 \<le> sizeof_int P" "4 \<le> sizeof_ptr P"
  shows "integers_ok (boxed_integers P)"
  using boxed_small [OF assms]
  by (auto simp: integers_ok_def boxed_integers_def codec uwrap_id)

interpretation boxed_lp64: integers_interface "boxed_integers lp64"
  by unfold_locales (simp add: boxed_integers_ok)

end
