(* ===== verification/Managed_Buffer.thy ===== *)
theory Managed_Buffer
  imports Ocaml_Value
begin

text \<open>
  \<open>managed_buffer_stubs.c\<close>, \<open>raw_pointer_stubs.c\<close> and \<open>ctypes_roots.c\<close>: C memory owned by an
  OCaml custom block, copies between C memory and OCaml strings, and C cells that are
  registered as roots of the OCaml collector.  The state is the C heap of \<open>C_Memory\<close>; the
  OCaml heap is not modelled (its allocations succeed).
\<close>

section \<open>Managed buffers\<close>

definition managed_buffer_ops :: string where
  "managed_buffer_ops = ''ocaml-ctypes:managed_buffer''"

abbreviation managed_buffer :: "nat \<Rightarrow> value" where
  "managed_buffer a \<equiv> Custom_ptr managed_buffer_ops a"

definition finalize_free :: "value \<Rightarrow> cheap \<Rightarrow> cheap result" where
  "finalize_free v h = bindR (Custom_addr managed_buffer_ops v) (\<lambda>p. c_free p h)"

definition compare_pointers :: "platform \<Rightarrow> value \<Rightarrow> value \<Rightarrow> int result" where
  "compare_pointers P lv rv =
     bindR (Custom_addr managed_buffer_ops lv) (\<lambda>pl.
     bindR (Custom_addr managed_buffer_ops rv) (\<lambda>pr.
       let l = swrap (sizeof_ptr P) (int pl); r = swrap (sizeof_ptr P) (int pr)
       in Inr ((if l > r then 1 else 0) - (if l < r then 1 else 0))))"

definition hash_address :: "platform \<Rightarrow> value \<Rightarrow> int result" where
  "hash_address P l =
     bindR (Custom_addr managed_buffer_ops l) (\<lambda>p. Inr (swrap (sizeof_ptr P) (int p)))"

definition ctypes_copy_bytes :: "allocator \<Rightarrow> nat \<Rightarrow> nat \<Rightarrow> cheap \<Rightarrow> (cheap \<times> value) result" where
  "ctypes_copy_bytes A src sz h =
     (case c_malloc A sz h of (h1, dst) \<Rightarrow>
        if dst = 0 \<and> sz \<noteq> 0 then Inl Out_of_memory
        else bindR (memcpy (mem h1) dst src sz) (\<lambda>m. Inr (h1\<lparr>mem := m\<rparr>, managed_buffer dst)))"

definition as_size_t :: "platform \<Rightarrow> int \<Rightarrow> nat" where
  "as_size_t P x = nat (uwrap (sizeof_size_t P) x)"

definition ctypes_allocate ::
    "platform \<Rightarrow> allocator \<Rightarrow> value \<Rightarrow> value \<Rightarrow> cheap \<Rightarrow> (cheap \<times> value) result" where
  "ctypes_allocate P A vcount vsize h =
     bindR (Long_val vsize) (\<lambda>sz.
     bindR (Long_val vcount) (\<lambda>count.
       case c_calloc P A (as_size_t P count) (as_size_t P sz) h of (h1, p) \<Rightarrow>
         if p = 0 \<and> count \<noteq> 0 \<and> sz \<noteq> 0 then Inl Out_of_memory
         else Inr (h1, managed_buffer p)))"

definition ctypes_block_address :: "platform \<Rightarrow> value \<Rightarrow> value result" where
  "ctypes_block_address P v =
     bindR (Custom_addr managed_buffer_ops v) (\<lambda>p. Inr (CTYPES_FROM_PTR P p))"

section \<open>Raw pointers\<close>

definition ctypes_memcpy :: "platform \<Rightarrow> value \<Rightarrow> value \<Rightarrow> value \<Rightarrow> cheap \<Rightarrow> (cheap \<times> value) result" where
  "ctypes_memcpy P dst src sz h =
     bindR (CTYPES_ADDR_OF_FATPTR P dst) (\<lambda>d.
     bindR (CTYPES_ADDR_OF_FATPTR P src) (\<lambda>s.
     bindR (Long_val sz) (\<lambda>n.
     bindR (memcpy (mem h) d s (as_size_t P n)) (\<lambda>m. Inr (h\<lparr>mem := m\<rparr>, Val_unit)))))"

definition ctypes_string_of_cstring :: "platform \<Rightarrow> value \<Rightarrow> cheap \<Rightarrow> value result" where
  "ctypes_string_of_cstring P p h =
     bindR (CTYPES_ADDR_OF_FATPTR P p) (\<lambda>a.
     bindR (read_cstring (mem h) a (top h - a)) (\<lambda>s. Inr (String_block s)))"

definition ctypes_string_of_array :: "platform \<Rightarrow> value \<Rightarrow> value \<Rightarrow> cheap \<Rightarrow> value result" where
  "ctypes_string_of_array P p vlen h =
     bindR (Long_val vlen) (\<lambda>len.
       if len < 0 then Inl (Invalid_argument ''ctypes_string_of_array'')
       else bindR (CTYPES_ADDR_OF_FATPTR P p) (\<lambda>a.
            bindR (need Memory_fault (load_bytes (mem h) a (nat len))) (\<lambda>s. Inr (String_block s))))"

definition ctypes_cstring_of_string ::
    "platform \<Rightarrow> allocator \<Rightarrow> value \<Rightarrow> cheap \<Rightarrow> (cheap \<times> value) result" where
  "ctypes_cstring_of_string P A s h =
     bindR (String_val s) (\<lambda>ss.
       let len = length ss in
       bindR (ctypes_allocate P A (Val_int P 1) (Val_long P (int len + 1)) h) (\<lambda>(h1, buffer).
       bindR (ctypes_block_address P buffer) (\<lambda>addr.
       bindR (CTYPES_TO_PTR P addr) (\<lambda>dst.
       bindR (need Memory_fault (store_bytes (mem h1) dst ss)) (\<lambda>m.
       bindR (need Memory_fault (store_bytes m (dst + len) [0])) (\<lambda>m'.
         Inr (h1\<lparr>mem := m'\<rparr>, buffer)))))))"

section \<open>Roots\<close>

text \<open>
  A root is a C cell that holds an OCaml value; \<open>cells\<close> is the content of such cells and
  \<open>registered\<close> the collector's set of generational global roots.
\<close>

record roots =
  rheap :: cheap
  cells :: "nat \<Rightarrow> value option"
  registered :: "nat \<Rightarrow> bool"

definition ctypes_caml_roots_create ::
    "platform \<Rightarrow> allocator \<Rightarrow> value \<Rightarrow> roots \<Rightarrow> (roots \<times> value) result" where
  "ctypes_caml_roots_create P A v s =
     (case c_malloc A (sizeof_ptr P) (rheap s) of (h1, p) \<Rightarrow>
        if p = 0 then Inl Out_of_memory
        else Inr (s\<lparr>rheap := h1, cells := (cells s)(p \<mapsto> v), registered := (registered s)(p := True)\<rparr>,
                  CTYPES_FROM_PTR P p))"

definition ctypes_caml_roots_set :: "platform \<Rightarrow> value \<Rightarrow> value \<Rightarrow> roots \<Rightarrow> (roots \<times> value) result" where
  "ctypes_caml_roots_set P pv v s =
     bindR (CTYPES_TO_PTR P pv) (\<lambda>p.
       if registered s p then Inr (s\<lparr>cells := (cells s)(p \<mapsto> v)\<rparr>, Val_unit) else Inl Memory_fault)"

definition ctypes_caml_roots_get :: "platform \<Rightarrow> value \<Rightarrow> roots \<Rightarrow> value result" where
  "ctypes_caml_roots_get P pv s =
     bindR (CTYPES_TO_PTR P pv) (\<lambda>p. need Memory_fault (cells s p))"

definition ctypes_caml_roots_release :: "platform \<Rightarrow> value \<Rightarrow> roots \<Rightarrow> (roots \<times> value) result" where
  "ctypes_caml_roots_release P pv s =
     bindR (CTYPES_TO_PTR P pv) (\<lambda>p.
     bindR (c_free p (rheap s)) (\<lambda>h1.
       Inr (s\<lparr>rheap := h1, cells := (cells s)(p := None), registered := (registered s)(p := False)\<rparr>,
            Val_unit)))"

definition ctypes_use :: "value \<Rightarrow> value" where
  "ctypes_use v = Val_unit"

section \<open>Lemmas\<close>

lemma as_size_t_nat:
  "n < 256 ^ sizeof_size_t P \<Longrightarrow> as_size_t P (int n) = n"
proof -
  assume "n < 256 ^ sizeof_size_t P"
  then have "int n < 256 ^ sizeof_size_t P" by (metis of_nat_less_iff of_nat_numeral of_nat_power)
  then show ?thesis by (simp add: as_size_t_def uwrap_id in_urange_def)
qed

lemma block_address_managed [simp]:
  "ctypes_block_address P (managed_buffer a) = Inr (CTYPES_FROM_PTR P a)"
  by (simp add: ctypes_block_address_def)

lemma finalize_managed [simp]: "finalize_free (managed_buffer a) h = c_free a h"
  by (simp add: finalize_free_def)

text \<open>The allocation stub on arguments that are OCaml integers the C side reads back.\<close>

lemma allocate_eq:
  assumes "0 < sizeof_ptr P" "oint_ok P (int count)" "oint_ok P (int sz)"
    and "count < 256 ^ sizeof_size_t P" "sz < 256 ^ sizeof_size_t P"
  shows "ctypes_allocate P A (Val_long P (int count)) (Val_long P (int sz)) h =
    (case c_calloc P A count sz h of (h1, p) \<Rightarrow>
       if p = 0 \<and> count \<noteq> 0 \<and> sz \<noteq> 0 then Inl Out_of_memory else Inr (h1, managed_buffer p))"
  using assms by (simp add: ctypes_allocate_def Long_val_Val_long as_size_t_nat)

lemma calloc_eq:
  "count * sz < 256 ^ sizeof_size_t P \<Longrightarrow> place A h (count * sz) = Some a \<Longrightarrow>
     c_calloc P A count sz h = (install a (replicate (count * sz) 0) h, a)"
  by (simp add: c_calloc_def)

text \<open>Freeing a block that was just installed in fresh memory gives back the heap.\<close>

lemma free_install:
  assumes "heap_ok P h" "fresh P h a n" "length bs = n"
  shows "\<exists>h2. c_free a (install a bs h) = Inr h2 \<and> heap_ok P h2 \<and> mem h2 = mem h \<and> blocks h2 = blocks h"
proof -
  define h2 where "h2 = (install a bs h)\<lparr>
      mem := (\<lambda>x. if a \<le> x \<and> x < a + n then None else mem (install a bs h) x),
      blocks := (blocks (install a bs h))(a := None)\<rparr>"
  have f: "c_free a (install a bs h) = Inr h2"
    using fresh_limit [OF assms(2)] assms(3) by (simp add: c_free_def h2_def cong: if_cong)
  moreover have "heap_ok P (install a bs h)" using assms by (intro install_heap_ok) simp_all
  then have "heap_ok P h2" using f by (rule c_free_heap_ok)
  moreover have "blocks h2 = blocks h" using fresh_blocks [OF assms(2)] by (auto simp: h2_def)
  moreover have "mem h2 = mem h"
    using assms(2,3) by (auto simp: h2_def fun_eq_iff fresh_def install_def)
  ultimately show ?thesis by blast
qed

text \<open>
  The loop of \<open>strlen\<close> as C has it, with no bound: \<open>None\<close> would be a scan that never ends.
\<close>

partial_function (option) cstring_scan :: "memory \<Rightarrow> nat \<Rightarrow> byte list result option" where
  "cstring_scan m a =
     (case m a of None \<Rightarrow> Some (Inl Memory_fault)
      | Some b \<Rightarrow>
          if b = 0 then Some (Inr [])
          else Option.bind (cstring_scan m (Suc a)) (\<lambda>r. Some (map_sum id ((#) b) r)))"

lemma cstring_scan_eq:
  assumes "\<forall>x. m x \<noteq> None \<longrightarrow> x < n"
  shows "cstring_scan m a = Some (read_cstring m a (n - a))"
proof (induction "n - a" arbitrary: a)
  case 0
  then have "m a = None" using assms by fastforce
  with 0 show ?case by (simp add: cstring_scan.simps)
next
  case (Suc k)
  from Suc.hyps(2) have "k = n - Suc a" by simp
  then have "cstring_scan m (Suc a) = Some (read_cstring m (Suc a) k)" using Suc.hyps(1) by blast
  with Suc.hyps(2) [symmetric] show ?case
    by (subst cstring_scan.simps) (simp split: option.split)
qed

text \<open>Memory holds a string and its NUL.\<close>

definition cstring_at :: "memory \<Rightarrow> nat \<Rightarrow> byte list \<Rightarrow> bool" where
  "cstring_at m a s \<longleftrightarrow> 0 \<notin> set s \<and> load_bytes m a (Suc (length s)) = Some (s @ [0])"

lemma cstring_at_simps:
  "cstring_at m a [] \<longleftrightarrow> m a = Some 0"
  "cstring_at m a (b # s) \<longleftrightarrow> b \<noteq> 0 \<and> m a = Some b \<and> cstring_at m (Suc a) s"
  by (auto simp: cstring_at_def split: option.splits)

lemma read_cstring_iff:
  "read_cstring m a k = Inr s \<longleftrightarrow> length s < k \<and> cstring_at m a s"
proof (induction k arbitrary: a s)
  case (Suc k)
  have "map_sum id ((#) b) r = Inr s \<longleftrightarrow> (\<exists>t. r = Inr t \<and> s = b # t)" for b and r :: "byte list result"
    by (cases r) auto
  then show ?case by (cases "m a"; cases s) (auto simp: cstring_at_simps Suc.IH)
qed simp

lemma read_cstring_fault: "read_cstring m a k = Inl e \<Longrightarrow> e = Memory_fault"
proof (induction k arbitrary: a)
  case (Suc k)
  then show ?case
    by (cases "read_cstring m (Suc a) k") (auto simp: bindR_eq_Inl split: if_splits)
qed simp

lemma load_string:
  assumes "mapped (mem h) a n" "heap_ok P h" "store_bytes (mem h) a (bs @ [0]) = Some m"
    "0 \<notin> set bs" "a + length bs < top h"
  shows "read_cstring m a (top h - a) = Inr bs"
  using assms load_store_same [OF assms(3), of "Suc (length bs)"]
  by (intro read_cstring_stored) auto

lemma store_bytes_append:
  "store_bytes m a (xs @ ys) =
     (case store_bytes m a xs of None \<Rightarrow> None | Some m' \<Rightarrow> store_bytes m' (a + length xs) ys)"
  by (induction xs arbitrary: m a) (auto split: option.splits)


section \<open>Properties of allocation\<close>

text \<open>
  C18: \<open>ctypes_allocate\<close> returns a block of \<open>count * size\<close> zero bytes in memory that was not in
  use, changes no byte that was mapped and keeps the heap well formed; it raises
  \<open>Out_of_memory\<close> only for a non-empty request whose size overflows \<open>size_t\<close> or that the C
  library refuses.
\<close>

theorem allocate_zero_filled:
  assumes "c_allocator P A" "heap_ok P h" "0 < sizeof_ptr P" "oint_ok P (int count)" "oint_ok P (int sz)"
    and "count < 256 ^ sizeof_size_t P" "sz < 256 ^ sizeof_size_t P"
  shows "case ctypes_allocate P A (Val_long P (int count)) (Val_long P (int sz)) h of
      Inl e \<Rightarrow> e = Out_of_memory \<and> 0 < count * sz \<and>
        (256 ^ sizeof_size_t P \<le> count * sz \<or> place A h (count * sz) = None)
    | Inr (h', v) \<Rightarrow> heap_ok P h' \<and> (\<forall>x. mem h x \<noteq> None \<longrightarrow> mem h' x = mem h x) \<and>
        (\<exists>a. v = managed_buffer a \<and>
           (if a = 0 then h' = h \<and> count * sz = 0
            else fresh P h a (count * sz) \<and> blocks h' = (blocks h)(a \<mapsto> count * sz) \<and>
              load_bytes (mem h') a (count * sz) = Some (replicate (count * sz) 0)))"
proof -
  obtain h1 p where c: "c_calloc P A count sz h = (h1, p)" by fastforce
  have ok: "heap_ok P h1" using c_allocator.calloc_ok [OF assms(1,2), of count sz] c by simp
  have fr: "\<forall>x. mem h x \<noteq> None \<longrightarrow> mem h1 x = mem h x"
    using c_allocator.calloc_frame [OF assms(1,2) c] by blast
  show ?thesis
  proof (cases "p = 0")
    case True
    then have "h1 = h \<and> (256 ^ sizeof_size_t P \<le> count * sz \<or> place A h (count * sz) = None)"
      using c c_allocator.place_fresh [OF assms(1,2), of "count * sz"]
      by (auto simp: c_calloc_def dest: fresh_limit split: if_splits option.splits)
    then show ?thesis using True c assms(2-7) by (auto simp: allocate_eq)
  next
    case False
    then show ?thesis
      using c ok fr c_allocator.calloc_new [OF assms(1,2) c False] assms(3-7)
      by (simp add: allocate_eq)
  qed
qed

lemma bump_4096: "place (bump lp64 4096) empty_heap n = (if 16 + max n 1 \<le> 4096 then Some 16 else None)"
  by (simp add: bump_def empty_heap_def)

theorem allocate_zero_filled_witness:
  "case ctypes_allocate lp64 (bump lp64 4096) (Val_long lp64 (int 3)) (Val_long lp64 (int 4)) empty_heap of
      Inl e \<Rightarrow> False
    | Inr (h', v) \<Rightarrow> \<exists>a. v = managed_buffer a \<and> load_bytes (mem h') a 12 = Some (replicate 12 0) \<and> a \<noteq> 0"
proof -
  have o: "oint_ok lp64 (int 3)" "oint_ok lp64 (int 4)" by (simp_all add: oint_ok_def in_srange_def)
  have "place (bump lp64 4096) empty_heap (3 * 4) = Some 16" by (simp add: bump_4096)
  then show ?thesis
    using allocate_zero_filled [OF bump.c_allocator_axioms [of lp64 4096] empty_heap_ok _ o]
    by (auto split: sum.splits if_splits simp: allocate_eq o calloc_eq load_install)
qed

text \<open>
  C19: the finaliser returns exactly what the allocation took: after \<open>ctypes_allocate\<close> and
  \<open>finalize_free\<close> on the buffer it returned, every byte and every block is as before.
\<close>

theorem allocate_finalize:
  assumes "c_allocator P A" "heap_ok P h" "0 < sizeof_ptr P" "oint_ok P (int count)" "oint_ok P (int sz)"
    and "count < 256 ^ sizeof_size_t P" "sz < 256 ^ sizeof_size_t P"
    and "ctypes_allocate P A (Val_long P (int count)) (Val_long P (int sz)) h = Inr (h1, v)"
  shows "\<exists>h2. finalize_free v h1 = Inr h2 \<and> heap_ok P h2 \<and> mem h2 = mem h \<and> blocks h2 = blocks h"
proof (cases "c_calloc P A count sz h")
  case (Pair h' p)
  with assms(3-8) have v: "v = managed_buffer p" "h1 = h'" "c_calloc P A count sz h = (h1, p)"
    by (auto simp: allocate_eq split: if_splits)
  show ?thesis
  proof (cases "place A h (count * sz)")
    case None
    then show ?thesis using v assms(2) by (auto simp: c_calloc_def c_free_def split: if_splits)
  next
    case (Some a)
    then show ?thesis
      using v assms(2) free_install [OF assms(2) c_allocator.place_fresh [OF assms(1,2) Some],
          of "replicate (count * sz) 0"]
      by (auto simp: c_calloc_def c_free_def split: if_splits)
  qed
qed

theorem allocate_finalize_witness:
  "\<exists>h1 v h2. ctypes_allocate lp64 (bump lp64 4096) (Val_long lp64 (int 3)) (Val_long lp64 (int 4)) empty_heap
      = Inr (h1, v) \<and> blocks h1 16 = Some 12 \<and> finalize_free v h1 = Inr h2 \<and> blocks h2 16 = None"
proof -
  have o: "oint_ok lp64 (int 3)" "oint_ok lp64 (int 4)" by (simp_all add: oint_ok_def in_srange_def)
  have "place (bump lp64 4096) empty_heap (3 * 4) = Some 16" by (simp add: bump_4096)
  then have "ctypes_allocate lp64 (bump lp64 4096) (Val_long lp64 (int 3)) (Val_long lp64 (int 4)) empty_heap
      = Inr (install 16 (replicate (3 * 4) 0) empty_heap, managed_buffer 16)"
    using o by (subst allocate_eq) (simp_all add: calloc_eq)
  with allocate_finalize [OF bump.c_allocator_axioms [of lp64 4096] empty_heap_ok _ o]
  show ?thesis by (fastforce simp: empty_heap_def)
qed

text \<open>
  C20: an OCaml string that is copied to C memory by \<open>cstring_of_string\<close> comes back whole through
  \<open>string_of_array\<close> with its length, and up to its first NUL byte through
  \<open>string_of_cstring\<close>, whatever the bytes; only fresh memory is written.
\<close>

theorem cstring_roundtrip:
  assumes "c_allocator P A" "heap_ok P h" "0 < sizeof_ptr P" "oint_ok P 1" "oint_ok P (int (length s) + 1)"
    and "length s + 1 < 256 ^ sizeof_size_t P" "place A h (length s + 1) = Some a"
  shows "\<exists>h'. ctypes_cstring_of_string P A (String_block s) h = Inr (h', managed_buffer a) \<and>
     ctypes_string_of_array P (fatptr P a) (Val_long P (int (length s))) h' = Inr (String_block s) \<and>
     ctypes_string_of_cstring P (fatptr P a) h' = Inr (String_block (takeWhile (\<lambda>b. b \<noteq> 0) s)) \<and>
     heap_ok P h' \<and> (\<forall>x. mem h x \<noteq> None \<longrightarrow> mem h' x = mem h x)"
proof -
  let ?n = "length s + 1"
  define h1 where "h1 = install a (replicate ?n 0) h"
  have fr: "fresh P h a ?n" using c_allocator.place_fresh [OF assms(1,2,7)] .
  have a: "a \<noteq> 0" "a < addr_limit P" using fresh_limit [OF fr] by auto
  have ok: "heap_ok P h1" unfolding h1_def using assms(2) fr by (intro install_heap_ok) simp_all
  have t: "a + ?n \<le> top h1" by (simp add: h1_def)
  have o: "oint_ok P (int (length s))"
    using assms(5) by (auto simp: oint_ok_def in_srange_def)
  have al: "ctypes_allocate P A (Val_int P 1) (Val_long P (int (length s) + 1)) h = Inr (h1, managed_buffer a)"
    using allocate_eq [of P 1 ?n A h] assms(3-7) a calloc_eq [of 1 ?n P A h a]
    by (simp add: h1_def add.commute)
  have "mapped (mem h1) a (length (s @ [0]))" unfolding h1_def by (rule mapped_install_new) simp
  then obtain m where m: "store_bytes (mem h1) a (s @ [0]) = Some m"
    using store_bytes_Some_iff by blast
  then obtain m0 where m0: "store_bytes (mem h1) a s = Some m0" "store_bytes m0 (a + length s) [0] = Some m"
    by (auto simp: store_bytes_append split: option.splits)
  have c: "ctypes_cstring_of_string P A (String_block s) h = Inr (h1\<lparr>mem := m\<rparr>, managed_buffer a)"
    unfolding ctypes_cstring_of_string_def String_val.simps bindR_simps Let_def al
    using a m0 by simp
  have ld: "load_bytes m a (Suc (length s)) = Some (s @ [0])" using m by (rule load_store_same) simp
  have ls: "load_bytes m a (length s) = Some s"
    using load_bytes_nth [OF ld] by (intro load_bytesI) (auto simp: nth_append)
  have "read_cstring m a k = Inr (takeWhile (\<lambda>b. b \<noteq> 0) s)" if "length s < k" for k
    using ld that
  proof (induction s arbitrary: a k)
    case (Cons b s)
    then obtain j where "k = Suc j" by (cases k) auto
    with Cons show ?case by (auto split: option.splits)
  qed (auto simp: gr0_conv_Suc split: option.splits)
  then have rc: "read_cstring m a (top h1 - a) = Inr (takeWhile (\<lambda>b. b \<noteq> 0) s)" using t by simp
  have "heap_ok P (h1\<lparr>mem := m\<rparr>)"
    using ok store_bytes_dom [OF m] store_bytes_mapped [OF m] by (simp add: heap_ok_def)
  moreover have "m x = mem h x" if "mem h x \<noteq> None" for x
    using fresh_mem [OF fr that] store_bytes_outside [OF m, of x]
      mem_install_outside [of x a "replicate ?n 0" h] by (auto simp: h1_def)
  ultimately show ?thesis
    using c a ls rc o assms(3)
    by (simp add: ctypes_string_of_array_def ctypes_string_of_cstring_def Long_val_Val_long)
qed

theorem cstring_roundtrip_witness:
  "\<exists>h'. ctypes_cstring_of_string lp64 (bump lp64 4096) (String_block [65, 0, 66]) empty_heap
      = Inr (h', managed_buffer 16) \<and>
    ctypes_string_of_cstring lp64 (fatptr lp64 16) h' = Inr (String_block [65])"
  using cstring_roundtrip [OF bump.c_allocator_axioms [of lp64 4096] empty_heap_ok, of "[65, 0, 66]" 16]
  by (auto simp: oint_ok_def in_srange_def bump_4096)

text \<open>
  C21: \<open>string_of_cstring\<close> returns.  The scan for the NUL, which has no bound in C, ends on every heap and from
  every address: either the memory from there on holds a string with its NUL, which is the
  result, or the scan runs into memory that is not mapped.  The bound that the model gives it
  is never what stops it.
\<close>

theorem string_of_cstring_terminates:
  assumes "heap_ok P h" "a < addr_limit P"
  shows "\<exists>r. cstring_scan (mem h) a = Some r \<and>
      ctypes_string_of_cstring P (fatptr P a) h = map_sum id String_block r \<and>
      (\<forall>s. r = Inr s \<longleftrightarrow> cstring_at (mem h) a s) \<and>
      (\<forall>e. r = Inl e \<longleftrightarrow> e = Memory_fault \<and> (\<nexists>s. cstring_at (mem h) a s))"
proof (intro exI conjI allI)
  let ?r = "read_cstring (mem h) a (top h - a)"
  show "cstring_scan (mem h) a = Some ?r"
    using heap_okD(5) [OF assms(1)] by (blast intro: cstring_scan_eq)
  show "ctypes_string_of_cstring P (fatptr P a) h = map_sum id String_block ?r"
    using assms(2) by (cases ?r) (simp_all add: ctypes_string_of_cstring_def)
  have "length s < top h - a" if "cstring_at (mem h) a s" for s
  proof -
    from that have "load_bytes (mem h) a (Suc (length s)) = Some (s @ [0])" by (simp add: cstring_at_def)
    from load_bytes_nth [OF this, of "length s"] have "mem h (a + length s) = Some 0" by simp
    then show ?thesis using heap_okD(5) [OF assms(1), of "a + length s"] by simp
  qed
  then show ok: "?r = Inr s \<longleftrightarrow> cstring_at (mem h) a s" for s by (auto simp: read_cstring_iff)
  show "?r = Inl e \<longleftrightarrow> e = Memory_fault \<and> (\<nexists>s. cstring_at (mem h) a s)" for e
    using ok read_cstring_fault [of "mem h" a "top h - a"] by (cases ?r) force+
qed

theorem string_of_cstring_terminates_witness:
  "cstring_scan (mem (install 16 [72, 105, 0] empty_heap)) 16 = Some (Inr [72, 105]) \<and>
   ctypes_string_of_cstring lp64 (fatptr lp64 16) (install 16 [72, 105, 0] empty_heap) = Inr (String_block [72, 105])"
proof -
  let ?h = "install 16 [72, 105, 0] empty_heap"
  have "fresh lp64 empty_heap 16 (length [72, 105, 0 :: byte])"
    by (auto simp: fresh_def empty_heap_def)
  then have "heap_ok lp64 ?h" by (intro install_heap_ok empty_heap_ok)
  then obtain r where r: "cstring_scan (mem ?h) 16 = Some r"
      "ctypes_string_of_cstring lp64 (fatptr lp64 16) ?h = map_sum id String_block r"
      "r = Inr [72, 105] \<longleftrightarrow> cstring_at (mem ?h) 16 [72, 105]"
    using string_of_cstring_terminates [of lp64 ?h 16] by auto
  have "cstring_at (mem ?h) 16 [72, 105]"
    using load_install [of "[72, 105, 0]" "Suc (Suc (Suc 0))" 16 empty_heap]
    by (simp add: cstring_at_def del: load_bytes.simps)
  with r(3) have "r = Inr [72, 105]" by blast
  with r(1,2) show ?thesis by simp
qed


text \<open>
  \<open>ctypes_copy_bytes\<close> makes an independent copy: the new block holds the source's bytes,
  lies outside everything that was mapped, and the source is unchanged.
\<close>

theorem copy_bytes_independent:
  assumes "c_allocator P A" "heap_ok P h" "load_bytes (mem h) src n = Some bs" "place A h n = Some a"
  shows "\<exists>h'. ctypes_copy_bytes A src n h = Inr (h', managed_buffer a) \<and> heap_ok P h' \<and>
     load_bytes (mem h') a n = Some bs \<and> load_bytes (mem h') src n = Some bs \<and>
     (\<forall>x. mem h x \<noteq> None \<longrightarrow> mem h' x = mem h x \<and> (x < a \<or> a + n \<le> x))"
proof -
  define h1 where "h1 = install a (map (junk A) [a..<a + n]) h"
  have mal: "c_malloc A n h = (h1, a)" using assms(4) by (simp only: c_malloc_def h1_def option.case)
  have fr: "fresh P h a n" using c_allocator.place_fresh [OF assms(1,2,4)] .
  have a0: "a \<noteq> 0" using fresh_limit [OF fr] by simp
  have ok: "heap_ok P h1" using c_allocator.malloc_ok [OF assms(1,2), of n] mal by simp
  have old: "mem h1 x = mem h x" if "mem h x \<noteq> None" for x
    using c_allocator.malloc_frame [OF assms(1,2) mal that] .
  have msrc: "mapped (mem h) src n" using assms(3) load_bytes_Some_iff by blast
  have ld: "load_bytes (mem h1) src n = Some bs"
    using assms(3) msrc load_bytes_cong [of src n "mem h1" "mem h"] old by (simp add: mapped_iff)
  have bl: "length bs = n" using assms(3) by (rule load_bytes_length)
  have "mapped (mem h1) a (length bs)" unfolding h1_def by (rule mapped_install_new) (simp add: bl)
  then obtain m where m: "store_bytes (mem h1) a bs = Some m" using store_bytes_Some_iff by blast
  have dis: "n = 0 \<or> a + n \<le> src \<or> src + n \<le> a"
  proof (rule ccontr)
    assume "\<not> ?thesis"
    then have "\<exists>x. a \<le> x \<and> x < a + n \<and> src \<le> x \<and> x < src + n"
      by (intro exI [of _ "max a src"]) auto
    with msrc fr show False by (auto simp: mapped_iff fresh_def)
  qed
  then have "memcpy (mem h1) a src n = Inr m" using ld m by (auto simp: memcpy_def)
  then have "ctypes_copy_bytes A src n h = Inr (h1\<lparr>mem := m\<rparr>, managed_buffer a)"
    using mal a0 by (simp add: ctypes_copy_bytes_def)
  moreover have "heap_ok P (h1\<lparr>mem := m\<rparr>)"
    using ok store_bytes_dom [OF m] store_bytes_mapped [OF m] by (simp add: heap_ok_def)
  moreover have fin: "m x = mem h x \<and> (x < a \<or> a + n \<le> x)" if "mem h x \<noteq> None" for x
    using fresh_mem [OF fr that] store_bytes_outside [OF m, of x] old [OF that] bl by auto
  moreover have "load_bytes m src n = Some bs"
    using assms(3) msrc load_bytes_cong [of src n m "mem h"] fin by (simp add: mapped_iff)
  ultimately show ?thesis using load_store_same [OF m bl] by auto
qed

theorem copy_bytes_independent_witness:
  "\<exists>h'. ctypes_copy_bytes (bump lp64 4096) 16 2 (install 16 [7, 8] empty_heap) = Inr (h', managed_buffer 32) \<and>
     load_bytes (mem h') 32 2 = Some [7, 8]"
proof -
  have "heap_ok lp64 (install 16 [7, 8] empty_heap)"
    by (rule install_heap_ok [OF empty_heap_ok]) (simp add: fresh_def empty_heap_def)
  then show ?thesis
    using copy_bytes_independent [OF bump.c_allocator_axioms [of lp64 4096], of "install 16 [7, 8] empty_heap"
        16 2 "[7, 8]" 32]
    by (auto simp: load_install bump_def empty_heap_def)
qed

text \<open>
  Managed buffers are ordered and hashed by address: the comparison is a sign, is zero
  exactly for the same address and reverses when its arguments are swapped, and the hash
  tells two addresses apart.
\<close>

lemma swrap_address_inj:
  assumes "a < addr_limit P" "b < addr_limit P"
  shows "swrap (sizeof_ptr P) (int a) = swrap (sizeof_ptr P) (int b) \<longleftrightarrow> a = b"
proof
  assume "swrap (sizeof_ptr P) (int a) = swrap (sizeof_ptr P) (int b)"
  then have "uwrap (sizeof_ptr P) (int a) = uwrap (sizeof_ptr P) (int b)"
    by (metis uwrap_narrow_swrap order_refl)
  moreover have "int a < 256 ^ sizeof_ptr P" "int b < 256 ^ sizeof_ptr P"
    using assms by (metis of_nat_less_iff of_nat_numeral of_nat_power)+
  ultimately show "a = b" by (simp add: uwrap_id in_urange_def)
qed simp

theorem compare_pointers_by_address:
  assumes "a < addr_limit P" "b < addr_limit P"
  shows "\<exists>c. compare_pointers P (managed_buffer a) (managed_buffer b) = Inr c \<and>
      compare_pointers P (managed_buffer b) (managed_buffer a) = Inr (- c) \<and> c \<in> {-1, 0, 1} \<and>
      (c = 0 \<longleftrightarrow> a = b) \<and>
      (hash_address P (managed_buffer a) = hash_address P (managed_buffer b) \<longleftrightarrow> a = b)"
  using swrap_address_inj [OF assms]
  by (auto simp: compare_pointers_def hash_address_def Let_def)

theorem compare_pointers_by_address_witness:
  "\<exists>c. compare_pointers lp64 (managed_buffer 16) (managed_buffer 32) = Inr c \<and> c \<noteq> 0"
  using compare_pointers_by_address [of 16 lp64 32] by auto

section \<open>Properties of roots\<close>

definition roots_ok :: "platform \<Rightarrow> roots \<Rightarrow> bool" where
  "roots_ok P s \<longleftrightarrow> heap_ok P (rheap s) \<and>
     (\<forall>p. registered s p \<longleftrightarrow> cells s p \<noteq> None) \<and>
     (\<forall>p. registered s p \<longrightarrow> blocks (rheap s) p = Some (sizeof_ptr P))"

lemma roots_ok_lt:
  assumes "roots_ok P s" "registered s p"
  shows "0 < p" "p < addr_limit P"
proof -
  have ok: "heap_ok P (rheap s)" and b: "blocks (rheap s) p = Some (sizeof_ptr P)"
    using assms by (auto simp: roots_ok_def)
  show "0 < p" using heap_okD(4) [OF ok] b by (cases p) auto
  show "p < addr_limit P" using heap_okD(2) [OF ok] heap_okD(7) [OF ok b] by linarith
qed

lemma roots_create_ok:
  assumes "c_allocator P A" "roots_ok P s" "ctypes_caml_roots_create P A v s = Inr (s', r)"
  shows "\<exists>p. r = CTYPES_FROM_PTR P p \<and> p < addr_limit P \<and> cells s p = None \<and> roots_ok P s' \<and>
     cells s' = (cells s)(p \<mapsto> v)"
proof -
  obtain h1 p where mal: "c_malloc A (sizeof_ptr P) (rheap s) = (h1, p)" by fastforce
  have p: "p \<noteq> 0" "r = CTYPES_FROM_PTR P p"
    and s': "s' = s\<lparr>rheap := h1, cells := (cells s)(p \<mapsto> v), registered := (registered s)(p := True)\<rparr>"
    using assms(3) mal by (auto simp: ctypes_caml_roots_create_def split: if_splits)
  have ok: "heap_ok P (rheap s)" using assms(2) by (simp add: roots_ok_def)
  note N = c_allocator.malloc_new [OF assms(1) ok mal p(1)]
  have "heap_ok P h1" using c_allocator.malloc_ok [OF assms(1) ok, of "sizeof_ptr P"] mal by simp
  then have "roots_ok P s'" using assms(2) N(2) by (auto simp: roots_ok_def s')
  moreover have "cells s p = None" using assms(2) N(1) unfolding roots_ok_def by force
  ultimately show ?thesis using p N(3) by (intro exI [of _ p]) (simp add: s')
qed

lemma roots_release_ok:
  assumes "roots_ok P s" "p < addr_limit P" "cells s p \<noteq> None"
  shows "\<exists>s'. ctypes_caml_roots_release P (CTYPES_FROM_PTR P p) s = Inr (s', Val_unit) \<and> roots_ok P s' \<and>
     cells s' = (cells s)(p := None)"
proof -
  have b: "blocks (rheap s) p = Some (sizeof_ptr P)" "p \<noteq> 0"
    using assms roots_ok_lt [OF assms(1), of p] by (auto simp: roots_ok_def)
  then obtain h1 where f: "c_free p (rheap s) = Inr h1" by (simp add: c_free_def)
  then have "heap_ok P h1" using assms(1) by (auto simp: roots_ok_def intro: c_free_heap_ok)
  moreover have "blocks h1 = (blocks (rheap s))(p := None)"
    using f b by (auto simp: c_free_def)
  ultimately show ?thesis
    using f assms by (auto simp: ctypes_caml_roots_release_def roots_ok_def)
qed

text \<open>
  C22: roots behave as a map from pointers to OCaml values: \<open>create\<close> adds a pointer that was
  not in use, \<open>get\<close> looks up, \<open>set\<close> overwrites that entry only, \<open>release\<close> removes that entry
  only; using a pointer after its release is a fault; and every operation keeps the
  registered cells allocated and filled.
\<close>

theorem roots_refine_map:
  assumes "c_allocator P A" "roots_ok P s"
  shows "(case ctypes_caml_roots_create P A v s of
        Inl e \<Rightarrow> e = Out_of_memory
      | Inr (s', r) \<Rightarrow> \<exists>p. r = CTYPES_FROM_PTR P p \<and> p < addr_limit P \<and> cells s p = None \<and>
          roots_ok P s' \<and> cells s' = (cells s)(p \<mapsto> v)) \<and>
    (\<forall>p < addr_limit P. let r = CTYPES_FROM_PTR P p in
       (case cells s p of
          None \<Rightarrow> ctypes_caml_roots_get P r s = Inl Memory_fault \<and> ctypes_caml_roots_set P r v s = Inl Memory_fault
        | Some w \<Rightarrow> ctypes_caml_roots_get P r s = Inr w \<and>
            (\<exists>s'. ctypes_caml_roots_set P r v s = Inr (s', Val_unit) \<and> roots_ok P s' \<and>
               cells s' = (cells s)(p \<mapsto> v)) \<and>
            (\<exists>s'. ctypes_caml_roots_release P r s = Inr (s', Val_unit) \<and> roots_ok P s' \<and>
               cells s' = (cells s)(p := None))))"
proof (intro conjI allI impI)
  show "case ctypes_caml_roots_create P A v s of
        Inl e \<Rightarrow> e = Out_of_memory
      | Inr (s', r) \<Rightarrow> \<exists>p. r = CTYPES_FROM_PTR P p \<and> p < addr_limit P \<and> cells s p = None \<and>
          roots_ok P s' \<and> cells s' = (cells s)(p \<mapsto> v)"
    using roots_create_ok [OF assms, of v]
    by (cases "ctypes_caml_roots_create P A v s")
      (auto simp: ctypes_caml_roots_create_def split: prod.splits if_splits)
next
  fix p assume "p < addr_limit P"
  then show "let r = CTYPES_FROM_PTR P p in
       (case cells s p of
          None \<Rightarrow> ctypes_caml_roots_get P r s = Inl Memory_fault \<and> ctypes_caml_roots_set P r v s = Inl Memory_fault
        | Some w \<Rightarrow> ctypes_caml_roots_get P r s = Inr w \<and>
            (\<exists>s'. ctypes_caml_roots_set P r v s = Inr (s', Val_unit) \<and> roots_ok P s' \<and>
               cells s' = (cells s)(p \<mapsto> v)) \<and>
            (\<exists>s'. ctypes_caml_roots_release P r s = Inr (s', Val_unit) \<and> roots_ok P s' \<and>
               cells s' = (cells s)(p := None)))"
    using roots_release_ok [OF assms(2), of p] assms(2)
    by (auto simp: Let_def ctypes_caml_roots_get_def ctypes_caml_roots_set_def roots_ok_def
        split: option.splits)
qed

theorem roots_refine_map_witness:
  "\<exists>s r. ctypes_caml_roots_create lp64 (bump lp64 4096) Val_unit
       \<lparr>rheap = empty_heap, cells = (\<lambda>_. None), registered = (\<lambda>_. False)\<rparr> = Inr (s, r) \<and>
     ctypes_caml_roots_get lp64 r s = Inr Val_unit"
proof -
  let ?s = "\<lparr>rheap = empty_heap, cells = (\<lambda>_. None), registered = (\<lambda>_. False)\<rparr>"
  let ?A = "bump lp64 4096"
  have 0: "roots_ok lp64 ?s" by (simp add: roots_ok_def empty_heap_ok)
  obtain s r where c: "ctypes_caml_roots_create lp64 ?A Val_unit ?s = Inr (s, r)"
    by (simp add: ctypes_caml_roots_create_def c_malloc_def bump_4096)
  with roots_refine_map [OF bump.c_allocator_axioms [of lp64 4096] 0, of Val_unit]
  obtain p where p: "r = CTYPES_FROM_PTR lp64 p" "p < addr_limit lp64" "roots_ok lp64 s" "cells s p = Some Val_unit"
    by auto
  with roots_refine_map [OF bump.c_allocator_axioms [of lp64 4096] p(3), of Val_unit] c
  show ?thesis by (auto simp: Let_def)
qed

end
