(* ===== verification/Primitives.thy ===== *)
theory Primitives
  imports Ocaml_Value
begin

unbundle bit_operations_syntax

text \<open>
  \<open>src/ctypes/ctypes_primitives.h\<close>: the primitive types, the preprocessor ladders that pick
  an OCaml representation for each C type whose width the platform chooses, and the
  classification of an arithmetic type at compile time from \<open>(T)0.5\<close>, \<open>(T)-1\<close> and
  \<open>sizeof(T)\<close>.
\<close>

datatype ctypes_primitive =
    Ctypes_Char | Ctypes_Schar | Ctypes_Uchar | Ctypes_Bool | Ctypes_Short | Ctypes_Int
  | Ctypes_Long | Ctypes_Llong | Ctypes_Ushort | Ctypes_Sint | Ctypes_Uint | Ctypes_Ulong
  | Ctypes_Ullong | Ctypes_Size_t | Ctypes_Int8_t | Ctypes_Int16_t | Ctypes_Int32_t
  | Ctypes_Int64_t | Ctypes_Uint8_t | Ctypes_Uint16_t | Ctypes_Uint32_t | Ctypes_Uint64_t
  | Ctypes_Camlint | Ctypes_Nativeint | Ctypes_Float | Ctypes_Double | Ctypes_LDouble
  | Ctypes_Complex32 | Ctypes_Complex64 | Ctypes_Complexld

text \<open>The enumerators in order; an enumerator's value is its position.\<close>

definition all_prims :: "ctypes_primitive list" where
  "all_prims =
     [Ctypes_Char, Ctypes_Schar, Ctypes_Uchar, Ctypes_Bool, Ctypes_Short, Ctypes_Int,
      Ctypes_Long, Ctypes_Llong, Ctypes_Ushort, Ctypes_Sint, Ctypes_Uint, Ctypes_Ulong,
      Ctypes_Ullong, Ctypes_Size_t, Ctypes_Int8_t, Ctypes_Int16_t, Ctypes_Int32_t,
      Ctypes_Int64_t, Ctypes_Uint8_t, Ctypes_Uint16_t, Ctypes_Uint32_t, Ctypes_Uint64_t,
      Ctypes_Camlint, Ctypes_Nativeint, Ctypes_Float, Ctypes_Double, Ctypes_LDouble,
      Ctypes_Complex32, Ctypes_Complex64, Ctypes_Complexld]"

text \<open>\<open>switch (Int_val(prim_))\<close>: no enumerator is the \<open>default\<close> branch.\<close>

definition prim_of :: "platform \<Rightarrow> value \<Rightarrow> ctypes_primitive result" where
  "prim_of P v =
     bindR (Int_val P v)
       (\<lambda>i. if 0 \<le> i \<and> i < int (length all_prims) then Inr (all_prims ! nat i)
            else Inl Assert_failure)"

fun prim_index :: "ctypes_primitive \<Rightarrow> nat" where
  "prim_index Ctypes_Char = 0" | "prim_index Ctypes_Schar = 1" | "prim_index Ctypes_Uchar = 2"
| "prim_index Ctypes_Bool = 3" | "prim_index Ctypes_Short = 4" | "prim_index Ctypes_Int = 5"
| "prim_index Ctypes_Long = 6" | "prim_index Ctypes_Llong = 7" | "prim_index Ctypes_Ushort = 8"
| "prim_index Ctypes_Sint = 9" | "prim_index Ctypes_Uint = 10" | "prim_index Ctypes_Ulong = 11"
| "prim_index Ctypes_Ullong = 12" | "prim_index Ctypes_Size_t = 13"
| "prim_index Ctypes_Int8_t = 14" | "prim_index Ctypes_Int16_t = 15"
| "prim_index Ctypes_Int32_t = 16" | "prim_index Ctypes_Int64_t = 17"
| "prim_index Ctypes_Uint8_t = 18" | "prim_index Ctypes_Uint16_t = 19"
| "prim_index Ctypes_Uint32_t = 20" | "prim_index Ctypes_Uint64_t = 21"
| "prim_index Ctypes_Camlint = 22" | "prim_index Ctypes_Nativeint = 23"
| "prim_index Ctypes_Float = 24" | "prim_index Ctypes_Double = 25"
| "prim_index Ctypes_LDouble = 26" | "prim_index Ctypes_Complex32 = 27"
| "prim_index Ctypes_Complex64 = 28" | "prim_index Ctypes_Complexld = 29"

lemma prim_index_nth: "prim_index p < length all_prims \<and> all_prims ! prim_index p = p"
  by (cases p) (simp_all add: all_prims_def)

lemma prim_index_inject [simp]: "prim_index p = prim_index q \<longleftrightarrow> p = q"
  by (metis prim_index_nth)

instantiation ctypes_primitive :: linorder
begin

definition less_eq_ctypes_primitive :: "ctypes_primitive \<Rightarrow> ctypes_primitive \<Rightarrow> bool" where
  "less_eq_ctypes_primitive p q \<longleftrightarrow> prim_index p \<le> prim_index q"

definition less_ctypes_primitive :: "ctypes_primitive \<Rightarrow> ctypes_primitive \<Rightarrow> bool" where
  "less_ctypes_primitive p q \<longleftrightarrow> prim_index p < prim_index q"

instance
  by standard (auto simp: less_eq_ctypes_primitive_def less_ctypes_primitive_def)

end

lemma all_prims_strict_sorted: "sorted_wrt (<) all_prims"
  by (simp add: all_prims_def less_ctypes_primitive_def)

definition prim_value :: "platform \<Rightarrow> ctypes_primitive \<Rightarrow> value" where
  "prim_value P p = Val_int P (int (prim_index p))"

lemma Int_val_prim_value:
  assumes "2 \<le> sizeof_int P" "2 \<le> sizeof_ptr P"
  shows "Int_val P (prim_value P p) = Inr (int (prim_index p))"
proof -
  have i: "prim_index p < 30" using prim_index_nth [of p] by (simp add: all_prims_def)
  then have "in_urange 1 (int (prim_index p))" by (simp add: in_urange_def)
  then have "oint_ok P (int (prim_index p))" "in_srange (sizeof_int P) (int (prim_index p))"
    using assms by (auto intro: oint_ok_small [of 1] in_srange_of_urange [of 1])
  then show ?thesis using assms by (simp add: prim_value_def Int_val_Val_int)
qed

lemma prim_of_value [simp]:
  assumes "2 \<le> sizeof_int P" "2 \<le> sizeof_ptr P"
  shows "prim_of P (prim_value P p) = Inr p"
  using Int_val_prim_value [OF assms] prim_index_nth [of p] by (simp add: prim_of_def)

section \<open>The representation ladders\<close>

datatype int_rep = Rep_uint16 | Rep_uint32 | Rep_uint64 | Rep_int32 | Rep_int64

definition MAXU :: "nat \<Rightarrow> int" where
  "MAXU n = 256 ^ n - 1"

definition UINT16_MAX :: int where "UINT16_MAX = 0xFFFF"
definition UINT32_MAX :: int where "UINT32_MAX = 0xFFFFFFFF"
definition UINT64_MAX :: int where "UINT64_MAX = 0xFFFFFFFFFFFFFFFF"

text \<open>\<open>None\<close> is the branch that stops compilation with \<open>#error\<close>.\<close>

definition ushort_rep :: "platform \<Rightarrow> int_rep option" where
  "ushort_rep P =
     (if MAXU (sizeof_short P) = UINT16_MAX then Some Rep_uint16
      else if MAXU (sizeof_short P) = UINT32_MAX then Some Rep_uint32
      else if MAXU (sizeof_short P) = UINT64_MAX then Some Rep_uint64
      else None)"

definition sint_rep :: "platform \<Rightarrow> int_rep option" where
  "sint_rep P =
     (if MAXU (sizeof_int P) = UINT16_MAX then None
      else if MAXU (sizeof_int P) = UINT32_MAX then Some Rep_int32
      else if MAXU (sizeof_int P) = UINT64_MAX then Some Rep_int64
      else None)"

definition uint_rep :: "platform \<Rightarrow> int_rep option" where
  "uint_rep P =
     (if MAXU (sizeof_int P) = UINT16_MAX then None
      else if MAXU (sizeof_int P) = UINT32_MAX then Some Rep_uint32
      else if MAXU (sizeof_int P) = UINT64_MAX then Some Rep_uint64
      else None)"

definition long_rep :: "platform \<Rightarrow> int_rep option" where
  "long_rep P =
     (if MAXU (sizeof_long P) = UINT32_MAX then Some Rep_int32
      else if MAXU (sizeof_long P) = UINT64_MAX then Some Rep_int64
      else None)"

definition ulong_rep :: "platform \<Rightarrow> int_rep option" where
  "ulong_rep P =
     (if MAXU (sizeof_long P) = UINT32_MAX then Some Rep_uint32
      else if MAXU (sizeof_long P) = UINT64_MAX then Some Rep_uint64
      else None)"

definition llong_rep :: "platform \<Rightarrow> int_rep option" where
  "llong_rep P = (if MAXU (sizeof_llong P) = UINT64_MAX then Some Rep_int64 else None)"

definition ullong_rep :: "platform \<Rightarrow> int_rep option" where
  "ullong_rep P = (if MAXU (sizeof_llong P) = UINT64_MAX then Some Rep_uint64 else None)"

definition size_t_rep :: "platform \<Rightarrow> int_rep option" where
  "size_t_rep P =
     (if MAXU (sizeof_size_t P) = UINT16_MAX then Some Rep_uint16
      else if MAXU (sizeof_size_t P) = UINT32_MAX then Some Rep_uint32
      else if MAXU (sizeof_size_t P) = UINT64_MAX then Some Rep_uint64
      else None)"

text \<open>The \<open>copy\<close> and \<open>val\<close> function that a ladder defines its two macros to be.\<close>

fun rep_copy :: "integers_lib \<Rightarrow> int_rep \<Rightarrow> int \<Rightarrow> value" where
  "rep_copy L Rep_uint16 x = Integers_val_uint16 L (uwrap 2 x)"
| "rep_copy L Rep_uint32 x = integers_copy_uint32 L (uwrap 4 x)"
| "rep_copy L Rep_uint64 x = integers_copy_uint64 L (uwrap 8 x)"
| "rep_copy L Rep_int32 x = caml_copy_int32 x"
| "rep_copy L Rep_int64 x = caml_copy_int64 x"

fun rep_val :: "integers_lib \<Rightarrow> int_rep \<Rightarrow> value \<Rightarrow> int result" where
  "rep_val L Rep_uint16 v = Uint16_val L v"
| "rep_val L Rep_uint32 v = Uint32_val L v"
| "rep_val L Rep_uint64 v = Uint64_val L v"
| "rep_val L Rep_int32 v = Int32_val v"
| "rep_val L Rep_int64 v = Int64_val v"

definition copy_by :: "integers_lib \<Rightarrow> int_rep option \<Rightarrow> int \<Rightarrow> value result" where
  "copy_by L r x = map_sum id (\<lambda>r. rep_copy L r x) (need Not_compiled r)"

definition val_by :: "integers_lib \<Rightarrow> int_rep option \<Rightarrow> value \<Rightarrow> int result" where
  "val_by L r v = bindR (need Not_compiled r) (\<lambda>r. rep_val L r v)"

lemma copy_by_simps [simp]:
  "copy_by L (Some r) x = Inr (rep_copy L r x)"
  "copy_by L None x = Inl Not_compiled"
  by (simp_all add: copy_by_def)

lemma val_by_simps [simp]:
  "val_by L (Some r) v = rep_val L r v"
  "val_by L None v = Inl Not_compiled"
  by (simp_all add: val_by_def)

fun rep_bytes :: "int_rep \<Rightarrow> nat" where
  "rep_bytes Rep_uint16 = 2" | "rep_bytes Rep_uint32 = 4" | "rep_bytes Rep_uint64 = 8"
| "rep_bytes Rep_int32 = 4" | "rep_bytes Rep_int64 = 8"

fun rep_signed :: "int_rep \<Rightarrow> bool" where
  "rep_signed Rep_int32 = True" | "rep_signed Rep_int64 = True" | "rep_signed _ = False"

text \<open>A platform that the headers accept, with the data model of every hosted C.\<close>

definition platform_ok :: "platform \<Rightarrow> bool" where
  "platform_ok P \<longleftrightarrow>
     sizeof_short P \<in> {2, 4, 8} \<and> sizeof_int P \<in> {4, 8} \<and> sizeof_long P \<in> {4, 8} \<and>
     sizeof_llong P = 8 \<and> sizeof_size_t P \<in> {2, 4, 8} \<and> sizeof_ptr P \<in> {4, 8} \<and>
     0 < sizeof_bool P \<and> sizeof_short P \<le> sizeof_int P \<and>
     nan_ok F32 (float_nan P) \<and> nan_ok F64 (double_nan P)"

lemma platform_ok_lp64: "platform_ok lp64"
  by (simp add: platform_ok_def nan_ok_def decode_def F32_def F64_def inf_mag_def
      sign_bit_def pattern_limit_def)

lemma platform_ok_s390x: "platform_ok s390x"
  using platform_ok_lp64 by (simp add: platform_ok_def s390x_def)

lemma platform_okD:
  assumes "platform_ok P"
  shows "2 \<le> sizeof_int P" "2 \<le> sizeof_ptr P" "0 < sizeof_int P" "0 < sizeof_ptr P"
    "0 < sizeof_short P" "0 < sizeof_bool P" "4 \<le> sizeof_int P" "4 \<le> sizeof_ptr P"
    "0 < sizeof_long P" "0 < sizeof_llong P" "0 < sizeof_size_t P"
    "sizeof_short P \<le> sizeof_int P"
  using assms by (auto simp: platform_ok_def)

lemmas ladder_defs = ushort_rep_def sint_rep_def uint_rep_def long_rep_def ulong_rep_def
  llong_rep_def ullong_rep_def size_t_rep_def MAXU_def UINT16_MAX_def UINT32_MAX_def
  UINT64_MAX_def

lemma rep_exists:
  assumes ok: "platform_ok P"
  shows "\<exists>r. ushort_rep P = Some r \<and> rep_bytes r = sizeof_short P \<and> \<not> rep_signed r"
    "\<exists>r. sint_rep P = Some r \<and> rep_bytes r = sizeof_int P \<and> rep_signed r"
    "\<exists>r. uint_rep P = Some r \<and> rep_bytes r = sizeof_int P \<and> \<not> rep_signed r"
    "\<exists>r. long_rep P = Some r \<and> rep_bytes r = sizeof_long P \<and> rep_signed r"
    "\<exists>r. ulong_rep P = Some r \<and> rep_bytes r = sizeof_long P \<and> \<not> rep_signed r"
    "\<exists>r. llong_rep P = Some r \<and> rep_bytes r = sizeof_llong P \<and> rep_signed r"
    "\<exists>r. ullong_rep P = Some r \<and> rep_bytes r = sizeof_llong P \<and> \<not> rep_signed r"
    "\<exists>r. size_t_rep P = Some r \<and> rep_bytes r = sizeof_size_t P \<and> \<not> rep_signed r"
proof -
  have S: "sizeof_short P \<in> {2, 4, 8}" and I: "sizeof_int P \<in> {4, 8}"
    and Lo: "sizeof_long P \<in> {4, 8}" and LL: "sizeof_llong P = 8"
    and Sz: "sizeof_size_t P \<in> {2, 4, 8}"
    using ok unfolding platform_ok_def by blast+
  show "\<exists>r. ushort_rep P = Some r \<and> rep_bytes r = sizeof_short P \<and> \<not> rep_signed r"
    using S by (auto simp: ladder_defs)
  show "\<exists>r. sint_rep P = Some r \<and> rep_bytes r = sizeof_int P \<and> rep_signed r"
    "\<exists>r. uint_rep P = Some r \<and> rep_bytes r = sizeof_int P \<and> \<not> rep_signed r"
    using I by (auto simp: ladder_defs)
  show "\<exists>r. long_rep P = Some r \<and> rep_bytes r = sizeof_long P \<and> rep_signed r"
    "\<exists>r. ulong_rep P = Some r \<and> rep_bytes r = sizeof_long P \<and> \<not> rep_signed r"
    using Lo by (auto simp: ladder_defs)
  show "\<exists>r. llong_rep P = Some r \<and> rep_bytes r = sizeof_llong P \<and> rep_signed r"
    "\<exists>r. ullong_rep P = Some r \<and> rep_bytes r = sizeof_llong P \<and> \<not> rep_signed r"
    using LL by (simp_all add: ladder_defs)
  show "\<exists>r. size_t_rep P = Some r \<and> rep_bytes r = sizeof_size_t P \<and> \<not> rep_signed r"
    using Sz by (auto simp: ladder_defs)
qed

context integers_interface
begin

lemma rep_roundtrip_unsigned:
  "\<not> rep_signed r \<Longrightarrow> rep_val L r (rep_copy L r x) = Inr (uwrap (rep_bytes r) x)"
  by (cases r) (simp_all add: c_int)

lemma rep_roundtrip_signed:
  "rep_signed r \<Longrightarrow> rep_val L r (rep_copy L r x) = Inr (swrap (rep_bytes r) x)"
  by (cases r) (simp_all add: caml_copy_int32_def caml_copy_int64_def)

end

section \<open>Classification of arithmetic types\<close>

datatype ctypes_arithmetic_type =
    Ctypes_arith_Int8 | Ctypes_arith_Int16 | Ctypes_arith_Int32 | Ctypes_arith_Int64
  | Ctypes_arith_Uint8 | Ctypes_arith_Uint16 | Ctypes_arith_Uint32 | Ctypes_arith_Uint64
  | Ctypes_arith_Float | Ctypes_arith_Double

text \<open>The C arithmetic types the macros may be applied to, with their size in bytes.\<close>

datatype c_arith = C_signed nat | C_unsigned nat | C_floating nat

fun c_sizeof :: "c_arith \<Rightarrow> nat" where
  "c_sizeof (C_signed n) = n"
| "c_sizeof (C_unsigned n) = n"
| "c_sizeof (C_floating n) = n"

text \<open>Twice \<open>(T)0.5\<close>, and \<open>(T)-1\<close>.\<close>

fun cast_half :: "c_arith \<Rightarrow> int" where
  "cast_half (C_floating n) = 1"
| "cast_half _ = 2 * 0"

fun cast_minus1 :: "c_arith \<Rightarrow> int" where
  "cast_minus1 (C_signed n) = swrap n (-1)"
| "cast_minus1 (C_unsigned n) = uwrap n (-1)"
| "cast_minus1 (C_floating n) = -1"

definition CTYPES_FLOATING_FLAG_BIT :: nat where "CTYPES_FLOATING_FLAG_BIT = 15"
definition CTYPES_UNSIGNED_FLAG_BIT :: nat where "CTYPES_UNSIGNED_FLAG_BIT = 14"

definition CTYPES_FLOATING :: nat where
  "CTYPES_FLOATING = push_bit CTYPES_FLOATING_FLAG_BIT 1"

definition CTYPES_UNSIGNED :: nat where
  "CTYPES_UNSIGNED = push_bit CTYPES_UNSIGNED_FLAG_BIT 1"

definition CTYPES_CHECK_FLOATING :: "c_arith \<Rightarrow> nat" where
  "CTYPES_CHECK_FLOATING t = push_bit CTYPES_FLOATING_FLAG_BIT (of_bool (cast_half t \<noteq> 0))"

definition CTYPES_CHECK_UNSIGNED :: "c_arith \<Rightarrow> nat" where
  "CTYPES_CHECK_UNSIGNED t = push_bit CTYPES_UNSIGNED_FLAG_BIT (of_bool (0 < cast_minus1 t))"

definition CTYPES_CLASSIFY :: "c_arith \<Rightarrow> nat" where
  "CTYPES_CLASSIFY t = CTYPES_CHECK_FLOATING t OR CTYPES_CHECK_UNSIGNED t"

definition CTYPES_ARITHMETIC_TYPEINFO :: "c_arith \<Rightarrow> nat" where
  "CTYPES_ARITHMETIC_TYPEINFO t = CTYPES_CLASSIFY t OR c_sizeof t"

definition ctypes_classify_arithmetic_type :: "nat \<Rightarrow> ctypes_arithmetic_type result" where
  "ctypes_classify_arithmetic_type typeinfo =
     (if typeinfo = CTYPES_FLOATING OR 4 then Inr Ctypes_arith_Float
      else if typeinfo = CTYPES_FLOATING OR 8 then Inr Ctypes_arith_Double
      else if typeinfo = CTYPES_UNSIGNED OR 1 then Inr Ctypes_arith_Uint8
      else if typeinfo = CTYPES_UNSIGNED OR 2 then Inr Ctypes_arith_Uint16
      else if typeinfo = CTYPES_UNSIGNED OR 4 then Inr Ctypes_arith_Uint32
      else if typeinfo = CTYPES_UNSIGNED OR 8 then Inr Ctypes_arith_Uint64
      else if typeinfo = 1 then Inr Ctypes_arith_Int8
      else if typeinfo = 2 then Inr Ctypes_arith_Int16
      else if typeinfo = 4 then Inr Ctypes_arith_Int32
      else if typeinfo = 8 then Inr Ctypes_arith_Int64
      else Inl Assert_failure)"

definition CTYPES_CLASSIFY_ARITHMETIC_TYPE :: "c_arith \<Rightarrow> ctypes_arithmetic_type result" where
  "CTYPES_CLASSIFY_ARITHMETIC_TYPE t =
     ctypes_classify_arithmetic_type (CTYPES_ARITHMETIC_TYPEINFO t)"

fun ctypes_arithmetic_type_name :: "ctypes_arithmetic_type \<Rightarrow> string" where
  "ctypes_arithmetic_type_name Ctypes_arith_Int8 = ''Int8''"
| "ctypes_arithmetic_type_name Ctypes_arith_Int16 = ''Int16''"
| "ctypes_arithmetic_type_name Ctypes_arith_Int32 = ''Int32''"
| "ctypes_arithmetic_type_name Ctypes_arith_Int64 = ''Int64''"
| "ctypes_arithmetic_type_name Ctypes_arith_Uint8 = ''Uint8''"
| "ctypes_arithmetic_type_name Ctypes_arith_Uint16 = ''Uint16''"
| "ctypes_arithmetic_type_name Ctypes_arith_Uint32 = ''Uint32''"
| "ctypes_arithmetic_type_name Ctypes_arith_Uint64 = ''Uint64''"
| "ctypes_arithmetic_type_name Ctypes_arith_Float = ''Float''"
| "ctypes_arithmetic_type_name Ctypes_arith_Double = ''Double''"

text \<open>What the classification is meant to say of a type.\<close>

fun arith_type_of :: "ctypes_arithmetic_type \<Rightarrow> c_arith" where
  "arith_type_of Ctypes_arith_Int8 = C_signed 1"
| "arith_type_of Ctypes_arith_Int16 = C_signed 2"
| "arith_type_of Ctypes_arith_Int32 = C_signed 4"
| "arith_type_of Ctypes_arith_Int64 = C_signed 8"
| "arith_type_of Ctypes_arith_Uint8 = C_unsigned 1"
| "arith_type_of Ctypes_arith_Uint16 = C_unsigned 2"
| "arith_type_of Ctypes_arith_Uint32 = C_unsigned 4"
| "arith_type_of Ctypes_arith_Uint64 = C_unsigned 8"
| "arith_type_of Ctypes_arith_Float = C_floating 4"
| "arith_type_of Ctypes_arith_Double = C_floating 8"

text \<open>
  The sizes a C arithmetic type can have here: powers of two up to 16 bytes, and the 10 and
  12 byte storage of extended precision.
\<close>

definition c_arith_ok :: "c_arith \<Rightarrow> bool" where
  "c_arith_ok t \<longleftrightarrow> c_sizeof t \<in> {1, 2, 4, 8, 10, 12, 16}"

lemma classify_cases:
  assumes "n \<in> {1, 2, 4, 8, 10, 12, 16 :: nat}"
  shows "CTYPES_ARITHMETIC_TYPEINFO (C_signed n) = n"
    "CTYPES_ARITHMETIC_TYPEINFO (C_unsigned n) = 16384 + n"
    "CTYPES_ARITHMETIC_TYPEINFO (C_floating n) = 32768 + n"
  using assms
  by (auto simp: CTYPES_ARITHMETIC_TYPEINFO_def CTYPES_CLASSIFY_def CTYPES_CHECK_FLOATING_def
      CTYPES_CHECK_UNSIGNED_def CTYPES_FLOATING_FLAG_BIT_def CTYPES_UNSIGNED_FLAG_BIT_def
      push_bit_eq_mult swrap_def uwrap_def)

lemma classify_values:
  assumes "n \<in> {1, 2, 4, 8, 10, 12, 16 :: nat}"
  shows "CTYPES_CLASSIFY_ARITHMETIC_TYPE (C_signed n) =
      (if n = 1 then Inr Ctypes_arith_Int8 else if n = 2 then Inr Ctypes_arith_Int16
       else if n = 4 then Inr Ctypes_arith_Int32 else if n = 8 then Inr Ctypes_arith_Int64
       else Inl Assert_failure)"
    "CTYPES_CLASSIFY_ARITHMETIC_TYPE (C_unsigned n) =
      (if n = 1 then Inr Ctypes_arith_Uint8 else if n = 2 then Inr Ctypes_arith_Uint16
       else if n = 4 then Inr Ctypes_arith_Uint32 else if n = 8 then Inr Ctypes_arith_Uint64
       else Inl Assert_failure)"
    "CTYPES_CLASSIFY_ARITHMETIC_TYPE (C_floating n) =
      (if n = 4 then Inr Ctypes_arith_Float else if n = 8 then Inr Ctypes_arith_Double
       else Inl Assert_failure)"
  unfolding CTYPES_CLASSIFY_ARITHMETIC_TYPE_def classify_cases [OF assms]
  using assms
  by (auto simp: ctypes_classify_arithmetic_type_def CTYPES_FLOATING_def CTYPES_UNSIGNED_def
      CTYPES_FLOATING_FLAG_BIT_def CTYPES_UNSIGNED_FLAG_BIT_def push_bit_eq_mult)

text \<open>
  C35: the compile-time classification is exact.  A type is classified as \<open>k\<close> if and only if
  it is the type that \<open>k\<close> names; every other arithmetic type (a 16-byte \<open>long double\<close>, an
  \<open>__int128\<close>) hits the assertion.
\<close>

theorem classify_arithmetic_exact:
  assumes "c_arith_ok t"
  shows "(\<forall>k. CTYPES_CLASSIFY_ARITHMETIC_TYPE t = Inr k \<longleftrightarrow> t = arith_type_of k) \<and>
    (CTYPES_CLASSIFY_ARITHMETIC_TYPE t = Inl Assert_failure \<longleftrightarrow> (\<forall>k. t \<noteq> arith_type_of k))"
proof (cases t)
  case (C_signed n)
  then have n: "n \<in> {1, 2, 4, 8, 10, 12, 16}" using assms by (simp add: c_arith_ok_def)
  have "t = arith_type_of k \<longleftrightarrow> CTYPES_CLASSIFY_ARITHMETIC_TYPE t = Inr k" for k
    unfolding C_signed classify_values [OF n] by (cases k) auto
  then show ?thesis unfolding C_signed classify_values [OF n] by (auto split: if_splits)
next
  case (C_unsigned n)
  then have n: "n \<in> {1, 2, 4, 8, 10, 12, 16}" using assms by (simp add: c_arith_ok_def)
  have "t = arith_type_of k \<longleftrightarrow> CTYPES_CLASSIFY_ARITHMETIC_TYPE t = Inr k" for k
    unfolding C_unsigned classify_values [OF n] by (cases k) auto
  then show ?thesis unfolding C_unsigned classify_values [OF n] by (auto split: if_splits)
next
  case (C_floating n)
  then have n: "n \<in> {1, 2, 4, 8, 10, 12, 16}" using assms by (simp add: c_arith_ok_def)
  have "t = arith_type_of k \<longleftrightarrow> CTYPES_CLASSIFY_ARITHMETIC_TYPE t = Inr k" for k
    unfolding C_floating classify_values [OF n] by (cases k) auto
  then show ?thesis unfolding C_floating classify_values [OF n] by (auto split: if_splits)
qed

theorem classify_arithmetic_exact_witness:
  "CTYPES_CLASSIFY_ARITHMETIC_TYPE (C_unsigned 4) = Inr Ctypes_arith_Uint32"
  using classify_arithmetic_exact [of "C_unsigned 4"] by (simp add: c_arith_ok_def)

end
