(* ===== verification/LDouble.thy ===== *)
theory LDouble
  imports Primitives
begin

text \<open>
  \<open>src/ctypes/ldouble_stubs.c\<close>, the \<open>long double\<close> half: storage, comparison, hashing,
  serialization, conversions and arithmetic of the custom block \<open>ctypes:ldouble\<close>.  A
  \<open>long double\<close> is the bit pattern of its value bytes; the padding of its storage is the
  platform's.  The OCaml runtime's hash and marshalling functions and the C library's
  mathematical and formatting functions are parameters.
\<close>

type_synonym ldouble = nat

section \<open>Storage\<close>

text \<open>The ladder on \<open>LDBL_MANT_DIG\<close>.\<close>

definition LDOUBLE_VALUE_BYTES :: "platform \<Rightarrow> nat" where
  "LDOUBLE_VALUE_BYTES P =
     (if LDBL_MANT_DIG P = 53 then 8
      else if LDBL_MANT_DIG P = 64 then 10
      else if LDBL_MANT_DIG P = 106 then 16
      else if LDBL_MANT_DIG P = 113 then 16
      else sizeof_ldouble P)"

definition ld_storage :: "platform \<Rightarrow> ldouble \<Rightarrow> byte list" where
  "ld_storage P x =
     enc P (LDOUBLE_VALUE_BYTES P) (int x) @
     replicate (sizeof_ldouble P - LDOUBLE_VALUE_BYTES P) (ld_pad P)"

definition ld_of_storage :: "platform \<Rightarrow> byte list \<Rightarrow> ldouble" where
  "ld_of_storage P bs = nat (dec P (take (LDOUBLE_VALUE_BYTES P) bs))"

definition ld_decode :: "platform \<Rightarrow> ldouble \<Rightarrow> fpv" where
  "ld_decode P x =
     (if LDBL_MANT_DIG P = 53 then decode F64 x
      else if LDBL_MANT_DIG P = 64 then decode_x87 x
      else if LDBL_MANT_DIG P = 113 then decode F128 x
      else other_ld_decode P x)"

definition ld_encode :: "platform \<Rightarrow> fpv \<Rightarrow> ldouble" where
  "ld_encode P v =
     (if LDBL_MANT_DIG P = 53 then encode F64 (ldouble_nan P) v
      else if LDBL_MANT_DIG P = 64 then encode_x87 (ldouble_nan P) v
      else if LDBL_MANT_DIG P = 113 then encode F128 (ldouble_nan P) v
      else other_ld_encode P v)"

definition ld_class :: "platform \<Rightarrow> ldouble \<Rightarrow> fpclass" where
  "ld_class P x =
     (if LDBL_MANT_DIG P = 53 then fpclassify F64 (decode F64 x)
      else if LDBL_MANT_DIG P = 64 then fpclassify X87 (decode_x87 x)
      else if LDBL_MANT_DIG P = 113 then fpclassify F128 (decode F128 x)
      else other_ld_class P x)"

text \<open>The format that arithmetic on \<open>long double\<close> rounds to.\<close>

definition ld_format :: "platform \<Rightarrow> fformat" where
  "ld_format P = (if LDBL_MANT_DIG P = 53 then F64 else if LDBL_MANT_DIG P = 113 then F128 else X87)"

text \<open>The formats the theorems below are about, and the patterns a \<open>long double\<close> object has.\<close>

definition ld_ieee :: "platform \<Rightarrow> bool" where
  "ld_ieee P \<longleftrightarrow> LDBL_MANT_DIG P \<in> {53, 64, 113} \<and> LDOUBLE_VALUE_BYTES P \<le> sizeof_ldouble P \<and>
     ld_decode P (ldouble_nan P) = NaN"

definition ld_valid :: "platform \<Rightarrow> ldouble \<Rightarrow> bool" where
  "ld_valid P x \<longleftrightarrow> in_urange (LDOUBLE_VALUE_BYTES P) (int x) \<and>
     (LDBL_MANT_DIG P = 64 \<longrightarrow> canonical_x87 x)"

definition ctypes_copy_ldouble :: "platform \<Rightarrow> ldouble \<Rightarrow> value" where
  "ctypes_copy_ldouble P u = Custom_block ''ctypes:ldouble'' (ld_storage P u)"

definition ldouble_custom_val :: "platform \<Rightarrow> value \<Rightarrow> ldouble result" where
  "ldouble_custom_val P v = map_sum id (ld_of_storage P) (Custom_bytes ''ctypes:ldouble'' v)"

definition ctypes_ldouble_val :: "platform \<Rightarrow> value \<Rightarrow> ldouble result" where
  "ctypes_ldouble_val P v = ldouble_custom_val P v"

lemma ld_storage_roundtrip [simp]:
  "in_urange (LDOUBLE_VALUE_BYTES P) (int x) \<Longrightarrow> ld_of_storage P (ld_storage P x @ r) = x"
  by (simp add: ld_of_storage_def ld_storage_def codec uwrap_id)

lemma ld_storage_roundtrip' [simp]:
  "in_urange (LDOUBLE_VALUE_BYTES P) (int x) \<Longrightarrow> ld_of_storage P (ld_storage P x) = x"
  using ld_storage_roundtrip [of P x "[]"] by simp

lemma ldouble_val_copy [simp]:
  "ld_valid P x \<Longrightarrow> ldouble_custom_val P (ctypes_copy_ldouble P x) = Inr x"
  by (simp add: ldouble_custom_val_def ctypes_copy_ldouble_def ld_valid_def)

lemma length_ld_storage:
  "LDOUBLE_VALUE_BYTES P \<le> sizeof_ldouble P \<Longrightarrow> length (ld_storage P x) = sizeof_ldouble P"
  by (simp add: ld_storage_def)

text \<open>A valid pattern is determined by its number, unless it is a zero or a NaN.\<close>

lemma pattern_limits:
  "pattern_limit F64 = 256 ^ 8" "pattern_limit F128 = 256 ^ 16" "pattern_limit F32 = 256 ^ 4"
  by (simp_all add: pattern_limit_def sign_bit_def F64_def F128_def F32_def)

theorem ld_encode_decode:
  assumes "ld_ieee P" "ld_valid P x" "same_val v (ld_decode P x)" "ld_decode P x \<noteq> NaN"
  shows "ld_encode P v = x"
proof -
  have r: "x < 256 ^ LDOUBLE_VALUE_BYTES P"
    using assms(2) by (auto simp: ld_valid_def in_urange_def simp flip: of_nat_less_iff)
  consider "LDBL_MANT_DIG P = 53" | "LDBL_MANT_DIG P = 64" | "LDBL_MANT_DIG P = 113"
    using assms(1) by (auto simp: ld_ieee_def)
  then show ?thesis
  proof cases
    case 1
    then show ?thesis
      using assms r encode_decode [of v F64 x]
      by (simp add: ld_encode_def ld_decode_def LDOUBLE_VALUE_BYTES_def pattern_limits)
  next
    case 2
    then show ?thesis
      using assms encode_decode_x87 [of v x] by (simp add: ld_encode_def ld_decode_def ld_valid_def)
  next
    case 3
    then show ?thesis
      using assms r encode_decode [of v F128 x]
      by (simp add: ld_encode_def ld_decode_def LDOUBLE_VALUE_BYTES_def pattern_limits)
  qed
qed

lemma ld_pattern_unique:
  assumes "ld_ieee P" "ld_valid P x" "ld_valid P y" "same_val (ld_decode P x) (ld_decode P y)"
    "ld_decode P x \<noteq> NaN"
  shows "x = y"
proof -
  have "ld_decode P y \<noteq> NaN" using assms(4,5) by (cases "ld_decode P x") auto
  then have "ld_encode P (ld_decode P x) = y" using assms by (intro ld_encode_decode)
  moreover have "ld_encode P (ld_decode P x) = x" using assms by (intro ld_encode_decode) auto
  ultimately show ?thesis by simp
qed

section \<open>Normalisation and comparison\<close>

text \<open>\<open>nanv\<close> is the static variable \<open>nan_\<close> that \<open>ldouble_init\<close> sets.\<close>

definition ld_norm :: "platform \<Rightarrow> ldouble \<Rightarrow> ldouble \<Rightarrow> ldouble" where
  "ld_norm P nanv x =
     (case ld_class P x of
        FP_ZERO \<Rightarrow> ld_encode P (Fin False 0 0)
      | FP_NAN \<Rightarrow> nanv
      | _ \<Rightarrow> x)"

text \<open>The result of the comparison and whether it sets \<open>caml_compare_unordered\<close>.\<close>

definition ldouble_cmp :: "platform \<Rightarrow> ldouble \<Rightarrow> ldouble \<Rightarrow> int \<times> bool" where
  "ldouble_cmp P u1 u2 =
     (let a = ld_decode P u1; b = ld_decode P u2
      in if fp_lt a b then (-1, False)
         else if fp_lt b a then (1, False)
         else if \<not> fp_eq a b then
           (if fp_eq a a then (1, True)
            else if fp_eq b b then (-1, True)
            else (0, True))
         else (0, False))"

definition ldouble_cmp_val :: "platform \<Rightarrow> value \<Rightarrow> value \<Rightarrow> (int \<times> bool) result" where
  "ldouble_cmp_val P v1 v2 =
     bindR (ldouble_custom_val P v1) (\<lambda>u1.
     bindR (ldouble_custom_val P v2) (\<lambda>u2. Inr (ldouble_cmp P u1 u2)))"

text \<open>The order the comparison realises: NaN least, then by value.\<close>

definition ld_le :: "platform \<Rightarrow> ldouble \<Rightarrow> ldouble \<Rightarrow> bool" where
  "ld_le P x y \<longleftrightarrow>
     (let a = ld_decode P x; b = ld_decode P y
      in fp_rank a < fp_rank b \<or> fp_rank a = fp_rank b \<and> fp_real a \<le> fp_real b)"

lemma fp_rank_NaN: "fp_rank v = -2 \<longleftrightarrow> v = NaN" "-2 < fp_rank v \<longleftrightarrow> v \<noteq> NaN" "fp_rank v < -2 \<longleftrightarrow> False"
  by (cases v; simp)+

lemma fp_eq_refl: "fp_eq v v \<longleftrightarrow> v \<noteq> NaN"
  by (auto simp: fp_eq_iff)

lemma ldouble_cmp_le:
  "fst (ldouble_cmp P x y) \<le> 0 \<longleftrightarrow> ld_le P x y"
  "0 \<le> fst (ldouble_cmp P x y) \<longleftrightarrow> ld_le P y x"
  by (cases "ld_decode P x = NaN"; cases "ld_decode P y = NaN";
      auto simp: ldouble_cmp_def ld_le_def Let_def fp_eq_refl fp_lt_iff fp_eq_iff fp_rank_NaN)+

lemma ld_le_total: "ld_le P x y \<or> ld_le P y x"
  by (auto simp: ld_le_def Let_def)

lemma ld_le_trans: "ld_le P x y \<Longrightarrow> ld_le P y z \<Longrightarrow> ld_le P x z"
  by (auto simp: ld_le_def Let_def)

lemma ldouble_cmp_range: "fst (ldouble_cmp P x y) \<in> {-1, 0, 1}"
  by (simp add: ldouble_cmp_def Let_def)

lemma ldouble_cmp_antisym: "fst (ldouble_cmp P y x) = - fst (ldouble_cmp P x y)"
  using ldouble_cmp_range [of P x y] ldouble_cmp_range [of P y x]
    ldouble_cmp_le [of P x y] ldouble_cmp_le [of P y x] by auto

lemma ldouble_cmp_unordered:
  "snd (ldouble_cmp P x y) \<longleftrightarrow> ld_decode P x = NaN \<or> ld_decode P y = NaN"
  by (auto simp: ldouble_cmp_def Let_def fp_lt_iff fp_eq_iff fp_eq_refl)

lemma ldouble_cmp_eq0:
  "fst (ldouble_cmp P x y) = 0 \<longleftrightarrow>
     ld_decode P x = NaN \<and> ld_decode P y = NaN \<or> fp_eq (ld_decode P x) (ld_decode P y)"
proof -
  have "fst (ldouble_cmp P x y) = 0 \<longleftrightarrow> ld_le P x y \<and> ld_le P y x"
    using ldouble_cmp_le [of P x y] by linarith
  then show ?thesis
    using fp_eq_iff [of "ld_decode P x" "ld_decode P y"]
      fp_rank_NaN [of "ld_decode P x"] fp_rank_NaN [of "ld_decode P y"]
    unfolding ld_le_def Let_def by (metis less_asym order.antisym order.refl order.strict_iff_order)
qed

text \<open>
  C26: \<open>ldouble_cmp\<close> is a total preorder compatible with its own symmetry, as a custom block's
  comparison must be: the sign flips with the arguments, it is transitive, and the unordered
  flag is set exactly when a NaN is compared.
\<close>

theorem ldouble_cmp_total_preorder:
  "fst (ldouble_cmp P y x) = - fst (ldouble_cmp P x y) \<and>
   (fst (ldouble_cmp P x y) \<le> 0 \<and> fst (ldouble_cmp P y z) \<le> 0 \<longrightarrow> fst (ldouble_cmp P x z) \<le> 0) \<and>
   snd (ldouble_cmp P x y) = (ld_decode P x = NaN \<or> ld_decode P y = NaN)"
  by (auto simp: ldouble_cmp_antisym [of P y x] ldouble_cmp_unordered ldouble_cmp_le
      intro: ld_le_trans)

theorem ldouble_cmp_total_preorder_witness:
  "fst (ldouble_cmp lp64 0x3FFF8000000000000000 0x7FFFC000000000000000) = 1 \<and>
   fst (ldouble_cmp lp64 0x3FFF8000000000000000 0x40008000000000000000) \<le> 0"
proof -
  have v: "ldouble_cmp lp64 0x7FFFC000000000000000 0x3FFF8000000000000000 = (-1, True)"
    "fst (ldouble_cmp lp64 0x3FFF8000000000000000 0x3FFFC000000000000000) \<le> 0"
    "fst (ldouble_cmp lp64 0x3FFFC000000000000000 0x40008000000000000000) \<le> 0"
    by (simp_all add: ldouble_cmp_def ld_decode_def decode_x87_def Let_def align_def
        signed_mant_def emin_def X87_def)
  show ?thesis
    using ldouble_cmp_total_preorder [of lp64 "0x3FFF8000000000000000" "0x7FFFC000000000000000"]
      ldouble_cmp_total_preorder [of lp64 "0x3FFFC000000000000000" "0x3FFF8000000000000000"
        "0x40008000000000000000"] v
    by simp
qed

section \<open>Hashing\<close>

text \<open>The mixing functions of the OCaml runtime (\<open>caml/hash.h\<close>).\<close>

record hash_lib =
  caml_hash_mix_uint32 :: "32 word \<Rightarrow> 32 word \<Rightarrow> 32 word"
  caml_hash_mix_double :: "32 word \<Rightarrow> 64 word \<Rightarrow> 32 word"

text \<open>The runtime normalises NaNs and zeros before it mixes a double.\<close>

definition hash_lib_ok :: "hash_lib \<Rightarrow> bool" where
  "hash_lib_ok H \<longleftrightarrow>
     (\<forall>h d d'. (decode F64 (unat d) = NaN \<and> decode F64 (unat d') = NaN) \<or>
       (fpclassify F64 (decode F64 (unat d)) = FP_ZERO \<and> fpclassify F64 (decode F64 (unat d')) = FP_ZERO) \<longrightarrow>
       caml_hash_mix_double H h d = caml_hash_mix_double H h d')"

lemma hash_lib_okD:
  assumes "hash_lib_ok H"
    and "decode F64 (unat d) = NaN \<and> decode F64 (unat d') = NaN \<or>
      fpclassify F64 (decode F64 (unat d)) = FP_ZERO \<and> fpclassify F64 (decode F64 (unat d')) = FP_ZERO"
  shows "caml_hash_mix_double H h d = caml_hash_mix_double H h d'"
  using assms unfolding hash_lib_ok_def by blast

definition ld_to_double :: "platform \<Rightarrow> ldouble \<Rightarrow> 64 word" where
  "ld_to_double P x = of_nat (encode F64 (double_nan P) (ld_decode P x))"

definition double_to_ld :: "platform \<Rightarrow> 64 word \<Rightarrow> ldouble" where
  "double_to_ld P d = ld_encode P (decode F64 (unat d))"

text \<open>The \<open>i\<close>-th element of the array member of the union.\<close>

definition ld_word :: "platform \<Rightarrow> ldouble \<Rightarrow> nat \<Rightarrow> 32 word" where
  "ld_word P x i = word_of_int (dec P (take 4 (drop (4 * i) (ld_storage P x))))"

definition ldouble_mix_hash ::
    "platform \<Rightarrow> hash_lib \<Rightarrow> ldouble \<Rightarrow> 32 word \<Rightarrow> ldouble \<Rightarrow> 32 word" where
  "ldouble_mix_hash P H nanv hash d =
     (let a = ld_word P (ld_norm P nanv d); mix = caml_hash_mix_uint32 H
      in if LDOUBLE_VALUE_BYTES P = 16 then
           (if big_endian P
            then mix (mix (mix (mix hash (a 0)) (a 1)) (a 2)) (a 3)
            else mix (mix (mix (mix hash (a 1)) (a 0)) (a 3)) (a 2))
         else if LDOUBLE_VALUE_BYTES P = 10 then
           mix (mix (mix hash (a 0)) (a 1)) (a 2 AND 0xFFFF)
         else caml_hash_mix_double H hash (ld_to_double P d))"

definition ldouble_hash :: "platform \<Rightarrow> hash_lib \<Rightarrow> ldouble \<Rightarrow> value \<Rightarrow> int result" where
  "ldouble_hash P H nanv v =
     map_sum id (\<lambda>u. uint (ldouble_mix_hash P H nanv 0 u)) (ldouble_custom_val P v)"

lemma ld_class_NaN: "ld_ieee P \<Longrightarrow> ld_class P x = FP_NAN \<longleftrightarrow> ld_decode P x = NaN"
  by (auto simp: ld_ieee_def ld_class_def ld_decode_def)

lemma ld_class_ZERO: "ld_ieee P \<Longrightarrow> ld_class P x = FP_ZERO \<longleftrightarrow> (\<exists>s e. ld_decode P x = Fin s 0 e)"
  by (auto simp: ld_ieee_def ld_class_def ld_decode_def)

lemma ld_norm_cong:
  assumes "ld_ieee P" "ld_valid P x" "ld_valid P y" "fst (ldouble_cmp P x y) = 0"
  shows "ld_norm P nanv x = ld_norm P nanv y"
proof (cases "ld_decode P x = NaN \<or> ld_decode P y = NaN")
  case True
  with assms(4) have "ld_decode P x = NaN \<and> ld_decode P y = NaN"
    by (auto simp: ldouble_cmp_eq0 fp_eq_iff)
  then show ?thesis using assms(1) by (simp add: ld_norm_def ld_class_NaN [THEN iffD2])
next
  case False
  with assms(4) have "fp_eq (ld_decode P x) (ld_decode P y)" by (simp add: ldouble_cmp_eq0)
  then show ?thesis
  proof (rule fp_eq_same_val [THEN disjE])
    assume "same_val (ld_decode P x) (ld_decode P y)"
    with assms(1-3) False have "x = y" by (intro ld_pattern_unique) auto
    then show ?thesis by simp
  next
    assume "\<exists>s e t d. ld_decode P x = Fin s 0 e \<and> ld_decode P y = Fin t 0 d"
    then show ?thesis
      using ld_class_ZERO [OF assms(1), of x] ld_class_ZERO [OF assms(1), of y]
      by (auto simp: ld_norm_def)
  qed
qed

text \<open>The conversion to \<open>double\<close> that the last branch hashes keeps zeros and NaNs.\<close>

lemma ld_to_double_53:
  assumes "LDBL_MANT_DIG P = 53" "nan_ok F64 (double_nan P)" "in_urange 8 (int x)"
  shows "decode F64 x \<noteq> NaN \<Longrightarrow> ld_to_double P x = of_nat x"
    "decode F64 x = NaN \<Longrightarrow> decode F64 (unat (ld_to_double P x)) = NaN"
proof -
  have lim: "double_nan P < 2 ^ 64" "decode F64 (double_nan P) = NaN"
    using assms(2) by (simp_all add: nan_ok_def pattern_limits)
  have "x < 2 ^ 64" using assms(3) by (auto simp: in_urange_def simp flip: of_nat_less_iff)
  then show "decode F64 x \<noteq> NaN \<Longrightarrow> ld_to_double P x = of_nat x"
    using encode_decode [of "decode F64 x" F64 x]
    by (simp add: ld_to_double_def ld_decode_def assms(1) pattern_limits)
  show "decode F64 x = NaN \<Longrightarrow> decode F64 (unat (ld_to_double P x)) = NaN"
    using lim by (simp add: ld_to_double_def ld_decode_def assms(1) encode_def of_nat_inverse)
qed

lemma ldouble_mix_hash_cong:
  assumes "ld_ieee P" "hash_lib_ok H" "nan_ok F64 (double_nan P)"
    and "ld_valid P x" "ld_valid P y" "fst (ldouble_cmp P x y) = 0"
  shows "ldouble_mix_hash P H nanv h x = ldouble_mix_hash P H nanv h y"
proof (cases "LDBL_MANT_DIG P = 53")
  case False
  then have "LDOUBLE_VALUE_BYTES P = 16 \<or> LDOUBLE_VALUE_BYTES P = 10"
    using assms(1) by (auto simp: LDOUBLE_VALUE_BYTES_def ld_ieee_def)
  then show ?thesis
    using ld_norm_cong [OF assms(1,4,5,6)] by (auto simp: ldouble_mix_hash_def)
next
  case True
  then have V: "LDOUBLE_VALUE_BYTES P = 8" by (simp add: LDOUBLE_VALUE_BYTES_def)
  have r: "in_urange 8 (int x)" "in_urange 8 (int y)"
    using assms(4,5) by (simp_all add: ld_valid_def V)
  note dx = ld_to_double_53 [OF True assms(3) r(1)] and dy = ld_to_double_53 [OF True assms(3) r(2)]
  have lt: "x < 2 ^ 64" "y < 2 ^ 64"
    using r by (auto simp: in_urange_def simp flip: of_nat_less_iff)
  have D: "ld_decode P = decode F64" using True by (simp add: ld_decode_def fun_eq_iff)
  have c: "decode F64 x = NaN \<and> decode F64 y = NaN \<or> fp_eq (decode F64 x) (decode F64 y)"
    using assms(6) unfolding ldouble_cmp_eq0 D .
  have "caml_hash_mix_double H h (ld_to_double P x) = caml_hash_mix_double H h (ld_to_double P y)"
  proof (cases "decode F64 x = NaN \<and> decode F64 y = NaN")
    case True
    then show ?thesis using dx(2) dy(2) by (intro hash_lib_okD [OF assms(2)]) simp
  next
    case False
    with c have 3: "fp_eq (decode F64 x) (decode F64 y)" by simp
    then have 2: "decode F64 x \<noteq> NaN" "decode F64 y \<noteq> NaN" by (simp_all add: fp_eq_iff)
    note e = dx(1) [OF 2(1)] dy(1) [OF 2(2)]
    show ?thesis
    proof (rule fp_eq_same_val [OF 3, THEN disjE])
      assume "same_val (decode F64 x) (decode F64 y)"
      then have "x = y" using assms(1,4,5) 2(1) D by (intro ld_pattern_unique) auto
      then show ?thesis by simp
    next
      assume "\<exists>s e t d. decode F64 x = Fin s 0 e \<and> decode F64 y = Fin t 0 d"
      then show ?thesis
        using lt unfolding e by (intro hash_lib_okD [OF assms(2)]) (auto simp: of_nat_inverse)
    qed
  qed
  then show ?thesis by (simp add: ldouble_mix_hash_def V)
qed

text \<open>The words that are hashed do not see the padding.\<close>

lemma ld_pad_irrelevant [simp]:
  "LDOUBLE_VALUE_BYTES (P\<lparr>ld_pad := p\<rparr>) = LDOUBLE_VALUE_BYTES P"
  "ld_decode (P\<lparr>ld_pad := p\<rparr>) = ld_decode P"
  "ld_encode (P\<lparr>ld_pad := p\<rparr>) = ld_encode P"
  "ld_class (P\<lparr>ld_pad := p\<rparr>) = ld_class P"
  "enc (P\<lparr>ld_pad := p\<rparr>) = enc P"
  "dec (P\<lparr>ld_pad := p\<rparr>) = dec P"
  by (simp_all add: LDOUBLE_VALUE_BYTES_def ld_decode_def ld_encode_def ld_class_def
      enc_def dec_def fun_eq_iff)

lemma ld_norm_pad [simp]: "ld_norm (P\<lparr>ld_pad := p\<rparr>) nanv x = ld_norm P nanv x"
  by (simp add: ld_norm_def split: fpclass.split)

lemma ld_to_double_pad [simp]: "ld_to_double (P\<lparr>ld_pad := p\<rparr>) x = ld_to_double P x"
  by (simp add: ld_to_double_def)

lemma ld_word_pad:
  assumes "4 * i + 4 \<le> LDOUBLE_VALUE_BYTES P"
  shows "ld_word (P\<lparr>ld_pad := p\<rparr>) x i = ld_word P x i"
  using assms by (simp add: ld_word_def ld_storage_def)

lemma low_half:
  "(word_of_int (of_le (b # c # bs)) :: 32 word) AND 0xFFFF = word_of_int (of_le [b, c])"
proof -
  have m: "(0xFFFF :: 32 word) = mask 16" by (simp add: mask_eq_exp_minus_1)
  have "take_bit 16 (uint b + 256 * (uint c + 256 * of_le bs)) = uint b + 256 * uint c"
  proof -
    have "0 \<le> uint b" "uint b < 256" "0 \<le> uint c" "uint c < 256"
      using uint_lt2p [of b] uint_lt2p [of c] by simp_all
    then have "0 \<le> uint b + 256 * uint c \<and> uint b + 256 * uint c < 65536" by linarith
    moreover have "uint b + 256 * (uint c + 256 * of_le bs)
        = (uint b + 256 * uint c) + of_le bs * 65536" by simp
    ultimately show ?thesis
      by (simp only: take_bit_eq_mod) simp
  qed
  moreover have "take_bit 16 (word_of_int x :: 32 word) = word_of_int (take_bit 16 x)" for x
    by (rule bit_word_eqI) (auto simp: bit_take_bit_iff bit_word_of_int_iff)
  ultimately show ?thesis
    by (simp only: m take_bit_eq_mask [symmetric] of_le.simps mult_zero_right add_0_right)
qed

lemma ld_word_pad_10:
  assumes "\<not> big_endian P" "LDOUBLE_VALUE_BYTES P = 10"
  shows "ld_word (P\<lparr>ld_pad := p\<rparr>) x 2 AND 0xFFFF = ld_word P x 2 AND 0xFFFF"
proof -
  obtain b c where t: "drop 8 (le_bytes 10 (int x)) = [b, c]"
  proof -
    have "length (drop 8 (le_bytes 10 (int x))) = 2" by simp
    then have "length (drop 8 (le_bytes 10 (int x))) = Suc (Suc 0)" by (simp only: numeral_2_eq_2)
    then show thesis using that unfolding length_Suc_conv by blast
  qed
  have "ld_word (P\<lparr>ld_pad := q\<rparr>) x 2 AND 0xFFFF = word_of_int (of_le [b, c])" for q
    using assms by (simp add: ld_word_def ld_storage_def enc_def dec_def t low_half
        del: of_le.simps)
  from this [of p] this [of "ld_pad P"] show ?thesis by simp
qed

lemma ldouble_mix_hash_pad:
  assumes "ld_ieee P" "LDBL_MANT_DIG P = 64 \<longrightarrow> \<not> big_endian P"
  shows "ldouble_mix_hash (P\<lparr>ld_pad := p\<rparr>) H nanv h x = ldouble_mix_hash P H nanv h x"
proof -
  consider "LDBL_MANT_DIG P = 53" | "LDBL_MANT_DIG P = 64" | "LDBL_MANT_DIG P = 113"
    using assms(1) by (auto simp: ld_ieee_def)
  then show ?thesis
    using assms(2)
    by cases (simp_all add: ldouble_mix_hash_def LDOUBLE_VALUE_BYTES_def ld_word_pad ld_word_pad_10 Let_def)
qed

text \<open>
  C27: the hash respects the comparison, as a custom block's hash must: two \<open>long double\<close>s that
  compare equal (the two zeros, any two NaNs) have the same hash, even when the padding
  bytes of their storage differ, in each of the three IEEE formats.  (The x87 format is
  hashed by its low words, which is right for the little-endian machines that have it.)
\<close>

theorem ldouble_hash_respects_cmp:
  assumes "ld_ieee P" "LDBL_MANT_DIG P = 64 \<longrightarrow> \<not> big_endian P"
    and "hash_lib_ok H" "nan_ok F64 (double_nan P)"
    and "ld_valid P x" "ld_valid P y" "fst (ldouble_cmp P x y) = 0"
  shows "ldouble_mix_hash (P\<lparr>ld_pad := p\<rparr>) H nanv h x =
    ldouble_mix_hash (P\<lparr>ld_pad := q\<rparr>) H nanv h y"
  unfolding ldouble_mix_hash_pad [OF assms(1,2)] using assms by (intro ldouble_mix_hash_cong)

text \<open>A hash library for the witness: the runtime's rotations and multiplications.\<close>

definition mix_example :: hash_lib where
  "mix_example =
     \<lparr>caml_hash_mix_uint32 = (\<lambda>h d. (word_rotl 13 (h XOR word_rotl 15 (d * 0xcc9e2d51) * 0x1b873593)) * 5 + 0xe6546b64),
      caml_hash_mix_double = (\<lambda>h d. case fpclassify F64 (decode F64 (unat d)) of
          FP_NAN \<Rightarrow> h XOR 1 | FP_ZERO \<Rightarrow> h XOR 2 | _ \<Rightarrow> h XOR ucast d)\<rparr>"

lemma mix_example_ok: "hash_lib_ok mix_example"
  unfolding hash_lib_ok_def mix_example_def by (auto split: fpclass.split)

theorem ldouble_hash_respects_cmp_witness:
  "ldouble_mix_hash (lp64\<lparr>ld_pad := 0\<rparr>) mix_example 7 0 0 =
   ldouble_mix_hash (lp64\<lparr>ld_pad := 0xFF\<rparr>) mix_example 7 0 (2 ^ 79)"
proof (rule ldouble_hash_respects_cmp [of lp64 mix_example 0 "2 ^ 79" 0 7 0 "0xFF"])
  show "ld_ieee lp64"
    by (simp add: ld_ieee_def LDOUBLE_VALUE_BYTES_def ld_decode_def decode_x87_def)
  show "nan_ok F64 (double_nan lp64)" using platform_ok_lp64 by (simp add: platform_ok_def)
  show "fst (ldouble_cmp lp64 0 (2 ^ 79)) = 0"
    by (simp add: ldouble_cmp_eq0 ld_decode_def decode_x87_def align_def signed_mant_def)
qed (simp_all add: mix_example_ok ld_valid_def LDOUBLE_VALUE_BYTES_def in_urange_def
    canonical_x87_def)

end
