(* ===== verification/LDouble_Ops.thy ===== *)
theory LDouble_Ops
  imports LDouble
begin

text \<open>
  \<open>src/ctypes/ldouble_stubs.c\<close>, continued: serialization, conversions, arithmetic, the
  mathematical functions, formatting and parsing of \<open>long double\<close>.
\<close>

section \<open>Serialization\<close>

text \<open>The marshalling functions of the OCaml runtime (\<open>caml/intext.h\<close>).\<close>

record marshal_lib =
  caml_serialize_int_1 :: "int \<Rightarrow> byte list"
  caml_serialize_block_8 :: "byte list \<Rightarrow> byte list"
  caml_serialize_block_2 :: "byte list \<Rightarrow> byte list"
  caml_serialize_float_8 :: "64 word \<Rightarrow> byte list"
  caml_deserialize_uint_1 :: "byte list \<Rightarrow> (int \<times> byte list) option"
  caml_deserialize_block_8 :: "nat \<Rightarrow> byte list \<Rightarrow> (byte list \<times> byte list) option"
  caml_deserialize_block_2 :: "nat \<Rightarrow> byte list \<Rightarrow> (byte list \<times> byte list) option"
  caml_deserialize_float_8 :: "byte list \<Rightarrow> (64 word \<times> byte list) option"

text \<open>Each reader undoes its writer and leaves the rest of the input.\<close>

definition marshal_ok :: "marshal_lib \<Rightarrow> bool" where
  "marshal_ok M \<longleftrightarrow>
     (\<forall>x r. in_urange 1 x \<longrightarrow> caml_deserialize_uint_1 M (caml_serialize_int_1 M x @ r) = Some (x, r)) \<and>
     (\<forall>n bs r. length bs = 8 * n \<longrightarrow>
        caml_deserialize_block_8 M n (caml_serialize_block_8 M bs @ r) = Some (bs, r)) \<and>
     (\<forall>n bs r. length bs = 2 * n \<longrightarrow>
        caml_deserialize_block_2 M n (caml_serialize_block_2 M bs @ r) = Some (bs, r)) \<and>
     (\<forall>d r. caml_deserialize_float_8 M (caml_serialize_float_8 M d @ r) = Some (d, r))"

definition ldouble_serialize_data :: "platform \<Rightarrow> marshal_lib \<Rightarrow> ldouble \<Rightarrow> byte list" where
  "ldouble_serialize_data P M q =
     (let p = ld_storage P q
      in if LDOUBLE_VALUE_BYTES P = 16 then caml_serialize_block_8 M (take 16 p)
         else if LDOUBLE_VALUE_BYTES P = 10 then
           caml_serialize_block_8 M (take 8 p) @ caml_serialize_block_2 M (take 2 (drop 8 p))
         else caml_serialize_float_8 M (ld_to_double P q))"

text \<open>The bytes written and the sizes reported for 32 and 64-bit hosts.\<close>

definition ldouble_serialize ::
    "platform \<Rightarrow> marshal_lib \<Rightarrow> ldouble \<Rightarrow> value \<Rightarrow> (byte list \<times> nat \<times> nat) result" where
  "ldouble_serialize P M nanv v =
     bindR (ldouble_custom_val P v) (\<lambda>u.
       let p = ld_norm P nanv u
       in Inr (caml_serialize_int_1 M (int (LDBL_MANT_DIG P)) @ ldouble_serialize_data P M p,
               sizeof_ldouble P, sizeof_ldouble P))"

text \<open>\<open>q\<close> is the content of the destination before the call.\<close>

definition ldouble_deserialize_data ::
    "platform \<Rightarrow> marshal_lib \<Rightarrow> byte list \<Rightarrow> byte list \<Rightarrow> (byte list \<times> byte list) result" where
  "ldouble_deserialize_data P M q input =
     (if LDOUBLE_VALUE_BYTES P = 16 then
        bindR (need Memory_fault (caml_deserialize_block_8 M 2 input))
          (\<lambda>(bs, r). Inr (bs @ drop 16 q, r))
      else if LDOUBLE_VALUE_BYTES P = 10 then
        bindR (need Memory_fault (caml_deserialize_block_8 M 1 input)) (\<lambda>(bs, r).
        bindR (need Memory_fault (caml_deserialize_block_2 M 1 r)) (\<lambda>(cs, r').
          Inr (bs @ cs @ drop 10 q, r')))
      else
        bindR (need Memory_fault (caml_deserialize_float_8 M input))
          (\<lambda>(d, r). Inr (ld_storage P (double_to_ld P d), r)))"

definition ldouble_deserialize ::
    "platform \<Rightarrow> marshal_lib \<Rightarrow> byte list \<Rightarrow> byte list \<Rightarrow> (byte list \<times> nat \<times> byte list) result" where
  "ldouble_deserialize P M q input =
     bindR (need Memory_fault (caml_deserialize_uint_1 M input)) (\<lambda>(k, r).
       if k \<noteq> int (LDBL_MANT_DIG P) then Inl (Failure ''invalid long double size'')
       else bindR (ldouble_deserialize_data P M q r)
              (\<lambda>(bs, r'). Inr (bs, sizeof_ldouble P, r')))"

text \<open>
  The runtime's format: blocks of integers in network byte order, so that a little-endian
  host reverses each of them.
\<close>

primrec swap_blocks :: "bool \<Rightarrow> nat \<Rightarrow> nat \<Rightarrow> byte list \<Rightarrow> byte list" where
  "swap_blocks be w 0 bs = []"
| "swap_blocks be w (Suc n) bs =
     (if be then take w bs else rev (take w bs)) @ swap_blocks be w n (drop w bs)"

definition read_blocks :: "bool \<Rightarrow> nat \<Rightarrow> nat \<Rightarrow> byte list \<Rightarrow> (byte list \<times> byte list) option" where
  "read_blocks be w n bs =
     (if length bs < w * n then None else Some (swap_blocks be w n bs, drop (w * n) bs))"

definition net_marshal :: "platform \<Rightarrow> marshal_lib" where
  "net_marshal P =
     \<lparr>caml_serialize_int_1 = (\<lambda>x. [word_of_int x]),
      caml_serialize_block_8 = (\<lambda>bs. swap_blocks (big_endian P) 8 (length bs div 8) bs),
      caml_serialize_block_2 = (\<lambda>bs. swap_blocks (big_endian P) 2 (length bs div 2) bs),
      caml_serialize_float_8 = (\<lambda>d. rev (le_bytes 8 (uint d))),
      caml_deserialize_uint_1 = (\<lambda>bs. case bs of [] \<Rightarrow> None | b # r \<Rightarrow> Some (uint b, r)),
      caml_deserialize_block_8 = read_blocks (big_endian P) 8,
      caml_deserialize_block_2 = read_blocks (big_endian P) 2,
      caml_deserialize_float_8 = (\<lambda>bs. if length bs < 8 then None
         else Some (word_of_int (of_le (rev (take 8 bs))), drop 8 bs))\<rparr>"

lemma length_swap_blocks: "w * n \<le> length bs \<Longrightarrow> length (swap_blocks be w n bs) = w * n"
  by (induction n arbitrary: bs) auto

lemma swap_blocks_twice:
  "length bs = w * n \<Longrightarrow> swap_blocks be w n (swap_blocks be w n bs @ r) = bs"
proof (induction n arbitrary: bs)
  case (Suc n)
  then have "swap_blocks be w n (swap_blocks be w n (drop w bs) @ r) = drop w bs"
    "w \<le> length bs" by auto
  then show ?case by (cases be) simp_all
qed simp

lemma read_swap_blocks:
  assumes "length bs = w * n" "0 < w"
  shows "read_blocks be w n (swap_blocks be w (length bs div w) bs @ r) = Some (bs, r)"
  using assms length_swap_blocks [of w n bs be] swap_blocks_twice [OF assms(1), of be r]
  by (simp add: read_blocks_def)

lemma net_marshal_ok: "marshal_ok (net_marshal P)"
proof -
  have d: "word_of_int (of_le (le_bytes 8 (uint d))) = d" for d :: "64 word"
    using uint_range_size [of d] by (simp add: codec uwrap_def word_size)
  have b: "uint (word_of_int x :: byte) = x" if "in_urange 1 x" for x
    using that by (simp add: in_urange_def uint_word_of_int)
  show ?thesis
    unfolding marshal_ok_def net_marshal_def
    using read_swap_blocks [of _ 8] read_swap_blocks [of _ 2] by (auto simp: d b)
qed

locale marshal_interface =
  fixes M :: marshal_lib
  assumes ok: "marshal_ok M"
begin

lemma int_1: "in_urange 1 x \<Longrightarrow> caml_deserialize_uint_1 M (caml_serialize_int_1 M x @ r) = Some (x, r)"
  and block_8: "length bs = 8 * n \<Longrightarrow>
    caml_deserialize_block_8 M n (caml_serialize_block_8 M bs @ r) = Some (bs, r)"
  and block_2: "length bs = 2 * n \<Longrightarrow>
    caml_deserialize_block_2 M n (caml_serialize_block_2 M bs @ r) = Some (bs, r)"
  and float_8: "caml_deserialize_float_8 M (caml_serialize_float_8 M d @ r) = Some (d, r)"
  using ok by (auto simp: marshal_ok_def)

text \<open>The value bytes survive for the formats that are written bytewise.\<close>

lemma data_roundtrip_bytes:
  assumes "LDOUBLE_VALUE_BYTES P \<in> {10, 16}" "in_urange (LDOUBLE_VALUE_BYTES P) (int x)"
  shows "\<exists>st. ldouble_deserialize_data P M q (ldouble_serialize_data P M x @ r) = Inr (st, r) \<and>
    ld_of_storage P (st @ r') = x"
proof (cases "LDOUBLE_VALUE_BYTES P = 16")
  case True
  then have t: "take 16 (ld_storage P x) = enc P 16 (int x)" by (simp add: ld_storage_def)
  then show ?thesis
    using True assms(2) block_8 [of "enc P 16 (int x)" 2 r]
    by (simp add: ldouble_deserialize_data_def ldouble_serialize_data_def ld_of_storage_def codec
        uwrap_id)
next
  case False
  then have V: "LDOUBLE_VALUE_BYTES P = 10" using assms(1) by simp
  let ?e = "enc P 10 (int x)"
  have t: "take 8 (ld_storage P x) = take 8 ?e" "take 2 (drop 8 (ld_storage P x)) = drop 8 ?e"
    by (simp_all add: ld_storage_def V)
  have "take 8 ?e @ drop 8 ?e @ s = ?e @ s" for s by (metis append_assoc append_take_drop_id)
  then show ?thesis
    using V assms(2) block_8 [of "take 8 ?e" 1] block_2 [of "drop 8 ?e" 1]
    by (simp add: ldouble_deserialize_data_def ldouble_serialize_data_def t ld_of_storage_def
        codec uwrap_id)
qed

lemma data_roundtrip_double:
  assumes "LDBL_MANT_DIG P = 53" "ld_ieee P" "ld_valid P x" "nan_ok F64 (double_nan P)"
    "nan_ok F64 (ldouble_nan P)"
  shows "\<exists>st. ldouble_deserialize_data P M q (ldouble_serialize_data P M x @ r) = Inr (st, r) \<and>
    (ld_decode P x \<noteq> NaN \<longrightarrow> ld_of_storage P st = x) \<and>
    (ld_decode P x = NaN \<longrightarrow> ld_decode P (ld_of_storage P st) = NaN)"
proof -
  have V: "LDOUBLE_VALUE_BYTES P = 8" using assms(1) by (simp add: LDOUBLE_VALUE_BYTES_def)
  have r: "in_urange 8 (int x)" using assms(3) by (simp add: ld_valid_def V)
  have lt: "x < 2 ^ 64" using r by (auto simp: in_urange_def simp flip: of_nat_less_iff)
  have D: "ld_decode P y = decode F64 y" for y using assms(1) by (simp add: ld_decode_def)
  let ?d = "ld_to_double P x"
  let ?y = "double_to_ld P ?d"
  note T = ld_to_double_53 [OF assms(1,4) r]
  have E: "ld_encode P = encode F64 (ldouble_nan P)" using assms(1) by (simp add: ld_encode_def fun_eq_iff)
  have y1: "?y = x" if "ld_decode P x \<noteq> NaN"
    using that T(1) lt encode_decode [of "decode F64 x" F64 x]
    by (simp add: double_to_ld_def E D of_nat_inverse pattern_limits)
  have y2: "?y = ldouble_nan P" if "ld_decode P x = NaN"
    using that T(2) by (simp add: double_to_ld_def E D encode_def)
  have "in_urange 8 (int ?y)"
  proof (cases "ld_decode P x = NaN")
    case True
    then show ?thesis using y2 assms(5)
      by (auto simp: nan_ok_def pattern_limits in_urange_def simp flip: of_nat_less_iff)
  qed (use y1 r in simp)
  then have st: "ld_of_storage P (ld_storage P ?y) = ?y" by (simp add: V)
  have "ldouble_deserialize_data P M q (ldouble_serialize_data P M x @ r) = Inr (ld_storage P ?y, r)" for r
    by (simp add: ldouble_deserialize_data_def ldouble_serialize_data_def V float_8)
  then show ?thesis
    using st y1 y2 assms(5) by (auto simp: D nan_ok_def)
qed

text \<open>The two cases together: every IEEE format, up to which NaN comes back.\<close>

lemma data_roundtrip:
  assumes "ld_ieee P" "nan_ok F64 (double_nan P)" "ld_valid P x"
    and "LDBL_MANT_DIG P = 53 \<longrightarrow> nan_ok F64 (ldouble_nan P)"
  shows "\<exists>st. ldouble_deserialize_data P M q (ldouble_serialize_data P M x @ r) = Inr (st, r) \<and>
    (LDBL_MANT_DIG P \<noteq> 53 \<or> ld_decode P x \<noteq> NaN \<longrightarrow> ld_of_storage P st = x) \<and>
    (ld_decode P x = NaN \<longrightarrow> ld_decode P (ld_of_storage P st) = NaN)"
proof (cases "LDBL_MANT_DIG P = 53")
  case True
  then show ?thesis using data_roundtrip_double [OF True assms(1,3,2), of q r] assms(4) by auto
next
  case False
  then have "LDOUBLE_VALUE_BYTES P \<in> {10, 16}"
    using assms(1) by (auto simp: ld_ieee_def LDOUBLE_VALUE_BYTES_def)
  then show ?thesis
    using data_roundtrip_bytes [of P x q r "[]"] assms(3) by (auto simp: ld_valid_def)
qed

end

interpretation net: marshal_interface "net_marshal P" for P
  by unfold_locales (rule net_marshal_ok)

lemma ld_norm_valid:
  assumes "ld_ieee P" "ld_valid P x" "ld_valid P nanv"
  shows "ld_valid P (ld_norm P nanv x)"
proof -
  have z: "ld_encode P (Fin False 0 0) = 0"
    using assms(1) by (auto simp: ld_ieee_def ld_encode_def encode_def encode_x87_def round_mag_def x87_of_mag_def)
  have "ld_valid P 0"
    by (auto simp: ld_valid_def in_urange_def canonical_x87_def)
  then show ?thesis using assms(2,3) z by (simp add: ld_norm_def split: fpclass.split)
qed

lemma ld_norm_NaN:
  assumes "ld_ieee P" "ld_decode P nanv = NaN"
  shows "ld_decode P (ld_norm P nanv x) = NaN \<longleftrightarrow> ld_decode P x = NaN"
proof -
  have z: "ld_decode P (ld_encode P (Fin False 0 0)) \<noteq> NaN"
    using assms(1)
    by (auto simp: ld_ieee_def ld_encode_def ld_decode_def encode_def encode_x87_def round_mag_def
        x87_of_mag_def decode_x87_def decode_0 F64_def F128_def)
  show ?thesis
    using ld_class_NaN [OF assms(1), of x] z assms(2)
    by (auto simp: ld_norm_def split: fpclass.split)
qed

text \<open>
  C28: serialization round trip.  What \<open>ldouble_serialize\<close> writes, \<open>ldouble_deserialize\<close> reads
  back on the same platform, leaving the rest of the input: the value is the normalised one
  (positive zero, canonical NaN), bit for bit in the 10 and 16 byte formats; in the 8 byte
  format a NaN comes back as some NaN.
\<close>

theorem ldouble_serialize_roundtrip:
  assumes "marshal_ok M" "ld_ieee P" "nan_ok F64 (double_nan P)"
    and "LDBL_MANT_DIG P = 53 \<longrightarrow> nan_ok F64 (ldouble_nan P)"
    and "ld_valid P u" "ld_valid P nanv" "ld_decode P nanv = NaN"
  shows "\<exists>bs st. ldouble_serialize P M nanv (ctypes_copy_ldouble P u) =
      Inr (bs, sizeof_ldouble P, sizeof_ldouble P) \<and>
    ldouble_deserialize P M q (bs @ r) = Inr (st, sizeof_ldouble P, r) \<and>
    (LDBL_MANT_DIG P \<noteq> 53 \<or> ld_decode P u \<noteq> NaN \<longrightarrow> ld_of_storage P st = ld_norm P nanv u) \<and>
    (ld_decode P u = NaN \<longrightarrow> ld_decode P (ld_of_storage P st) = NaN)"
proof -
  have I: "marshal_interface M" by unfold_locales (rule assms(1))
  let ?p = "ld_norm P nanv u"
  have vp: "ld_valid P ?p" using ld_norm_valid [OF assms(2,5,6)] .
  have np: "ld_decode P ?p = NaN \<longleftrightarrow> ld_decode P u = NaN"
    using ld_norm_NaN [OF assms(2,7)] .
  let ?d = "ldouble_serialize_data P M ?p"
  have "\<exists>st. ldouble_deserialize_data P M q (?d @ r) = Inr (st, r) \<and>
    (LDBL_MANT_DIG P \<noteq> 53 \<or> ld_decode P ?p \<noteq> NaN \<longrightarrow> ld_of_storage P st = ?p) \<and>
    (ld_decode P ?p = NaN \<longrightarrow> ld_decode P (ld_of_storage P st) = NaN)"
    by (rule marshal_interface.data_roundtrip [OF I assms(2,3) vp assms(4)])
  then obtain st where st: "ldouble_deserialize_data P M q (?d @ r) = Inr (st, r)"
    "LDBL_MANT_DIG P \<noteq> 53 \<or> ld_decode P u \<noteq> NaN \<longrightarrow> ld_of_storage P st = ?p"
    "ld_decode P u = NaN \<longrightarrow> ld_decode P (ld_of_storage P st) = NaN"
    unfolding np by blast
  have "in_urange 1 (int (LDBL_MANT_DIG P))"
    using assms(2) by (auto simp: ld_ieee_def in_urange_def)
  then have "caml_deserialize_uint_1 M (caml_serialize_int_1 M (int (LDBL_MANT_DIG P)) @ ?d @ r) =
      Some (int (LDBL_MANT_DIG P), ?d @ r)"
    by (rule marshal_interface.int_1 [OF I])
  then show ?thesis
    using st assms(5) by (auto simp: ldouble_serialize_def ldouble_deserialize_def Let_def)
qed

theorem ldouble_serialize_roundtrip_witness:
  "\<exists>bs st. ldouble_serialize lp64 (net_marshal lp64) 0x7FFFC000000000000000
       (ctypes_copy_ldouble lp64 (2 ^ 79)) = Inr (bs, 16, 16) \<and>
     ldouble_deserialize lp64 (net_marshal lp64) (replicate 16 0) (bs @ [7]) = Inr (st, 16, [7]) \<and>
     ld_of_storage lp64 st = 0"
proof -
  have c: "ld_norm lp64 0x7FFFC000000000000000 (2 ^ 79) = 0"
    by (simp add: ld_norm_def ld_class_def ld_encode_def decode_x87_def encode_x87_def
        round_mag_def x87_of_mag_def)
  have i: "ld_ieee lp64" "ld_decode lp64 0x7FFFC000000000000000 = NaN" "LDBL_MANT_DIG lp64 = 64"
    "sizeof_ldouble lp64 = 16"
    by (simp_all add: ld_ieee_def LDOUBLE_VALUE_BYTES_def ld_decode_def decode_x87_def)
  have v: "ld_valid lp64 (2 ^ 79)" "ld_valid lp64 0x7FFFC000000000000000"
    by (simp_all add: ld_valid_def LDOUBLE_VALUE_BYTES_def in_urange_def canonical_x87_def)
  have n: "nan_ok F64 (double_nan lp64)" using platform_ok_lp64 by (simp add: platform_ok_def)
  show ?thesis
    using ldouble_serialize_roundtrip [OF net_marshal_ok i(1) n _ v i(2), of lp64 "replicate 16 0" "[7]"]
    unfolding c i(3,4) by auto
qed

text \<open>
  Data written on a platform whose \<open>long double\<close> has another mantissa is refused: the
  reader fails with its exception instead of misreading the bytes.
\<close>

theorem ldouble_deserialize_mismatch:
  assumes "marshal_ok M" "LDBL_MANT_DIG P \<noteq> LDBL_MANT_DIG Q" "LDBL_MANT_DIG P < 256"
    and "ldouble_serialize P M nanv v = Inr (bs, w32, w64)"
  shows "ldouble_deserialize Q M q (bs @ r) = Inl (Failure ''invalid long double size'')"
proof -
  have I: "marshal_interface M" by unfold_locales (rule assms(1))
  obtain d where "bs = caml_serialize_int_1 M (int (LDBL_MANT_DIG P)) @ d"
    using assms(4) by (auto simp: ldouble_serialize_def Let_def)
  moreover have "in_urange 1 (int (LDBL_MANT_DIG P))" using assms(3) by (simp add: in_urange_def)
  ultimately show ?thesis
    using marshal_interface.int_1 [OF I, of "int (LDBL_MANT_DIG P)" "d @ r"] assms(2)
    by (simp add: ldouble_deserialize_def)
qed

theorem ldouble_deserialize_mismatch_witness:
  "\<exists>bs. ldouble_serialize s390x (net_marshal lp64) 0 (ctypes_copy_ldouble s390x 1) = Inr (bs, 16, 16) \<and>
     ldouble_deserialize lp64 (net_marshal lp64) [] (bs @ []) = Inl (Failure ''invalid long double size'')"
proof -
  obtain bs where bs: "ldouble_serialize s390x (net_marshal lp64) 0 (ctypes_copy_ldouble s390x 1) = Inr (bs, 16, 16)"
    by (simp add: ldouble_serialize_def ldouble_custom_val_def ctypes_copy_ldouble_def Let_def)
  then show ?thesis
    using ldouble_deserialize_mismatch [OF net_marshal_ok _ _ bs, of lp64 "[]" "[]"] by auto
qed

end
