(* ===== verification/LDouble_Arith.thy ===== *)
theory LDouble_Arith
  imports LDouble_Ops
begin

text \<open>
  \<open>src/ctypes/ldouble_stubs.c\<close>, continued: conversions from and to OCaml numbers, the four
  operations, negation, the C library's functions, decomposition, classification,
  formatting, parsing and the constants.
\<close>

section \<open>Conversions\<close>

definition ctypes_ldouble_of_float :: "platform \<Rightarrow> value \<Rightarrow> value result" where
  "ctypes_ldouble_of_float P a =
     bindR (Double_val a) (\<lambda>d. Inr (ctypes_copy_ldouble P (double_to_ld P d)))"

definition ctypes_ldouble_to_float :: "platform \<Rightarrow> value \<Rightarrow> value result" where
  "ctypes_ldouble_to_float P a =
     bindR (ldouble_custom_val P a) (\<lambda>u. Inr (Double_block (ld_to_double P u)))"

definition ctypes_ldouble_of_int :: "platform \<Rightarrow> value \<Rightarrow> value result" where
  "ctypes_ldouble_of_int P a =
     bindR (Long_val a) (\<lambda>x. Inr (ctypes_copy_ldouble P (ld_encode P (fp_of_int x))))"

text \<open>A NaN, an infinity or a number outside \<open>intnat\<close> has no conversion in C.\<close>

definition ctypes_ldouble_to_int :: "platform \<Rightarrow> value \<Rightarrow> value result" where
  "ctypes_ldouble_to_int P a =
     bindR (ldouble_custom_val P a) (\<lambda>b.
     bindR (need Conversion_trap (fp_trunc (ld_decode P b))) (\<lambda>c.
       if in_srange (sizeof_ptr P) c then Inr (Val_long P c) else Inl Conversion_trap))"

text \<open>A number that fits the mantissa is stored exactly.\<close>

lemma ld_decode_encode_fits:
  assumes "ld_ieee P" "bitlen m \<le> LDBL_MANT_DIG P" "e \<in> {-120..0}"
  shows "same_val (ld_decode P (ld_encode P (Fin s m e))) (Fin s m e)"
proof -
  consider "LDBL_MANT_DIG P = 53" | "LDBL_MANT_DIG P = 64" | "LDBL_MANT_DIG P = 113"
    using assms(1) by (auto simp: ld_ieee_def)
  then show ?thesis
  proof cases
    case 1
    then have "mval F64 (round_mag F64 m e) = sval m e \<and> round_mag F64 m e < inf_mag F64"
      using assms(2,3) by (intro round_mag_value) (simp_all add: F64_def emin_def)
    with 1 show ?thesis by (simp add: ld_decode_def ld_encode_def decode_encode_Fin)
  next
    case 2
    then have "mval X87 (round_mag X87 m e) = sval m e \<and> round_mag X87 m e < inf_mag X87"
      using assms(2,3) by (intro round_mag_value) (simp_all add: X87_def emin_def)
    then have "same_val (decode_x87 (encode_x87 (ldouble_nan P) (Fin s m e))) (Fin s m e)"
      by (intro decode_encode_x87) (auto simp: decode_encode_Fin)
    with 2 show ?thesis by (simp add: ld_decode_def ld_encode_def)
  next
    case 3
    then have "mval F128 (round_mag F128 m e) = sval m e \<and> round_mag F128 m e < inf_mag F128"
      using assms(2,3) by (intro round_mag_value) (simp_all add: F128_def emin_def)
    with 3 show ?thesis by (simp add: ld_decode_def ld_encode_def decode_encode_Fin)
  qed
qed

text \<open>Every number that is rounded has a pattern of the right width.\<close>

lemma x87_of_mag_canonical:
  assumes "b \<le> inf_mag X87"
  shows "canonical_x87 ((if s then 2 ^ 79 else 0) + x87_of_mag b)"
proof -
  have lt: "x87_of_mag b < 2 ^ 79" using assms by (rule x87_of_mag_less)
  then have m: "((if s then 2 ^ 79 else 0) + x87_of_mag b) mod 2 ^ 79 = x87_of_mag b" by simp
  have "(2 ^ 15 * 2 ^ 64 + x87_of_mag b) mod 2 ^ 64 = x87_of_mag b mod 2 ^ 64" by (rule mod_mult_self3)
  then have m': "((if s then 2 ^ 79 else 0) + x87_of_mag b) mod 2 ^ 64 = x87_of_mag b mod 2 ^ 64"
    by (cases s) simp_all
  have f: "b mod 2 ^ 63 < 2 ^ 63" by simp
  show ?thesis
    unfolding canonical_x87_def m m' x87_of_mag_parts using lt f by auto
qed

lemma ld_encode_valid:
  assumes "ld_ieee P" "v \<noteq> NaN \<or> ld_valid P (ldouble_nan P)"
  shows "ld_valid P (ld_encode P v)"
proof -
  consider "LDBL_MANT_DIG P = 53" | "LDBL_MANT_DIG P = 64" | "LDBL_MANT_DIG P = 113"
    using assms(1) by (auto simp: ld_ieee_def)
  then show ?thesis
  proof cases
    case 1
    have "v = NaN \<Longrightarrow> ldouble_nan P < pattern_limit F64"
      using assms(2) 1 by (auto simp: ld_valid_def LDOUBLE_VALUE_BYTES_def in_urange_def
          pattern_limits simp flip: of_nat_less_iff)
    from encode_less [OF this] 1 show ?thesis
      by (simp add: ld_encode_def ld_valid_def LDOUBLE_VALUE_BYTES_def in_urange_def
          pattern_limits flip: of_nat_less_iff)
  next
    case 2
    have "canonical_x87 (encode_x87 (ldouble_nan P) v)"
      using assms(2) x87_of_mag_canonical [of "inf_mag X87"] x87_of_mag_canonical [OF round_mag_le] 2
      by (cases v) (auto simp: encode_x87_def ld_valid_def)
    with 2 show ?thesis
      by (auto simp: ld_encode_def ld_valid_def LDOUBLE_VALUE_BYTES_def in_urange_def canonical_x87_def
          simp flip: of_nat_less_iff)
  next
    case 3
    have "v = NaN \<Longrightarrow> ldouble_nan P < pattern_limit F128"
      using assms(2) 3 by (auto simp: ld_valid_def LDOUBLE_VALUE_BYTES_def in_urange_def
          pattern_limits simp flip: of_nat_less_iff)
    from encode_less [OF this] 3 show ?thesis
      by (simp add: ld_encode_def ld_valid_def LDOUBLE_VALUE_BYTES_def in_urange_def
          pattern_limits flip: of_nat_less_iff)
  qed
qed

lemma fp_of_int_Fin: "\<exists>s. fp_of_int x = Fin s (nat \<bar>x\<bar>) 0"
  by (auto simp: fp_of_int_def of_signed_def)

lemma bitlen_int: "\<bar>x\<bar> < 2 ^ k \<Longrightarrow> bitlen (nat \<bar>x\<bar>) \<le> k"
  by (intro bitlen_le) (simp add: nat_less_iff)

text \<open>
  C29: an OCaml integer survives the conversion to \<open>long double\<close> and back whenever it fits the
  mantissa, so on x86 (64 bits) and with quad precision (113 bits) every OCaml integer does.
\<close>

theorem ldouble_int_roundtrip:
  assumes "ld_ieee P" "0 < sizeof_ptr P" "oint_ok P x" "\<bar>x\<bar> < 2 ^ LDBL_MANT_DIG P"
  shows "bindR (ctypes_ldouble_of_int P (Val_long P x)) (ctypes_ldouble_to_int P) = Inr (Val_long P x)"
proof -
  obtain s where s: "fp_of_int x = Fin s (nat \<bar>x\<bar>) 0" using fp_of_int_Fin by blast
  let ?u = "ld_encode P (fp_of_int x)"
  have "same_val (ld_decode P ?u) (fp_of_int x)"
    unfolding s using assms(4) by (intro ld_decode_encode_fits [OF assms(1)]) (auto intro: bitlen_int)
  then have t: "fp_trunc (ld_decode P ?u) = Some x" by (simp add: fp_trunc_same)
  have v: "ld_valid P ?u" using s by (intro ld_encode_valid [OF assms(1)]) simp
  have "in_srange (sizeof_ptr P) x" using assms(3) by (auto simp: oint_ok_def in_srange_def)
  then show ?thesis
    using assms(2,3) v t
    by (simp add: ctypes_ldouble_of_int_def ctypes_ldouble_to_int_def Long_val_Val_long)
qed

theorem ldouble_int_roundtrip_witness:
  "bindR (ctypes_ldouble_of_int lp64 (Val_long lp64 (- 4611686018427387904))) (ctypes_ldouble_to_int lp64) =
    Inr (Val_long lp64 (- 4611686018427387904))"
  by (rule ldouble_int_roundtrip)
    (simp_all add: ld_ieee_def LDOUBLE_VALUE_BYTES_def ld_decode_def decode_x87_def
      oint_ok_def in_srange_def)

section \<open>Arithmetic\<close>

datatype ld_op2 = Add | Sub | Mul | Div

definition ld_arith :: "platform \<Rightarrow> ld_op2 \<Rightarrow> ldouble \<Rightarrow> ldouble \<Rightarrow> ldouble" where
  "ld_arith P f x y =
     (let a = ld_decode P x; b = ld_decode P y
      in ld_encode P (case f of
           Add \<Rightarrow> fp_add a b
         | Sub \<Rightarrow> fp_add a (fp_neg b)
         | Mul \<Rightarrow> fp_mul a b
         | Div \<Rightarrow> fp_div (ld_format P) a b))"

definition ctypes_ldouble_op2 :: "platform \<Rightarrow> ld_op2 \<Rightarrow> value \<Rightarrow> value \<Rightarrow> value result" where
  "ctypes_ldouble_op2 P f a b =
     bindR (ldouble_custom_val P a) (\<lambda>x.
     bindR (ldouble_custom_val P b) (\<lambda>y. Inr (ctypes_copy_ldouble P (ld_arith P f x y))))"

text \<open>Unary minus flips the sign bit, of a NaN too.\<close>

definition ld_neg :: "platform \<Rightarrow> ldouble \<Rightarrow> ldouble" where
  "ld_neg P x =
     (if LDBL_MANT_DIG P \<in> {53, 64, 113}
      then flip_sign (2 ^ (8 * LDOUBLE_VALUE_BYTES P - 1)) x
      else other_ld_encode P (fp_neg (other_ld_decode P x)))"

definition ctypes_ldouble_neg :: "platform \<Rightarrow> value \<Rightarrow> value result" where
  "ctypes_ldouble_neg P a =
     bindR (ldouble_custom_val P a) (\<lambda>x. Inr (ctypes_copy_ldouble P (ld_neg P x)))"

section \<open>The C library's functions\<close>

datatype ld_fn1 =
    Sqrtl | Expl | Logl | Log10l | Expm1l | Log1pl | Cosl | Sinl | Tanl | Acosl | Asinl | Atanl
  | Coshl | Sinhl | Tanhl | Acoshl | Asinhl | Atanhl | Ceill | Floorl | Fabsl

datatype ld_fn2 = Powl | Atan2l | Hypotl | Remainderl | Copysignl

record libm =
  libm1 :: "ld_fn1 \<Rightarrow> ldouble \<Rightarrow> ldouble"
  libm2 :: "ld_fn2 \<Rightarrow> ldouble \<Rightarrow> ldouble \<Rightarrow> ldouble"
  frexp_unspecified :: "ldouble \<Rightarrow> int"

definition missing :: "string \<Rightarrow> fault" where
  "missing f = Failure (''ctypes: '' @ f @ '' does not exist on current platform'')"

text \<open>\<open>FN1FAIL\<close> and \<open>FN2FAIL\<close> replace three of the functions on NetBSD.\<close>

definition ctypes_ldouble_fn1 :: "platform \<Rightarrow> libm \<Rightarrow> ld_fn1 \<Rightarrow> value \<Rightarrow> value result" where
  "ctypes_ldouble_fn1 P M f a =
     (if os P = NetBSD \<and> f = Expm1l then Inl (missing ''expm1l'')
      else if os P = NetBSD \<and> f = Log1pl then Inl (missing ''log1pl'')
      else bindR (ldouble_custom_val P a) (\<lambda>x. Inr (ctypes_copy_ldouble P (libm1 M f x))))"

definition ctypes_ldouble_fn2 :: "platform \<Rightarrow> libm \<Rightarrow> ld_fn2 \<Rightarrow> value \<Rightarrow> value \<Rightarrow> value result" where
  "ctypes_ldouble_fn2 P M f a b =
     (if os P = NetBSD \<and> f = Remainderl then Inl (missing ''remainderl'')
      else bindR (ldouble_custom_val P a) (\<lambda>x.
           bindR (ldouble_custom_val P b) (\<lambda>y. Inr (ctypes_copy_ldouble P (libm2 M f x y)))))"

section \<open>Decomposition\<close>

text \<open>\<open>frexpl\<close>: the exponent it stores for a NaN or an infinity is unspecified.\<close>

definition frexpl :: "platform \<Rightarrow> libm \<Rightarrow> ldouble \<Rightarrow> ldouble \<times> int" where
  "frexpl P M x =
     (case ld_decode P x of
        Fin s m e \<Rightarrow> if m = 0 then (x, 0)
          else (ld_encode P (Fin s m (- int (bitlen m))), e + int (bitlen m))
      | _ \<Rightarrow> (x, frexp_unspecified M x))"

definition ldexpl :: "platform \<Rightarrow> ldouble \<Rightarrow> int \<Rightarrow> ldouble" where
  "ldexpl P x i =
     (case ld_decode P x of
        Fin s m e \<Rightarrow> if m = 0 then x else ld_encode P (Fin s m (e + i))
      | _ \<Rightarrow> x)"

text \<open>\<open>modfl\<close>: the fractional and the integral part, both with the sign of the argument.\<close>

definition modfl :: "platform \<Rightarrow> ldouble \<Rightarrow> ldouble \<times> ldouble" where
  "modfl P x =
     (case ld_decode P x of
        NaN \<Rightarrow> (x, x)
      | Inf s \<Rightarrow> (ld_encode P (Fin s 0 0), x)
      | Fin s m e \<Rightarrow>
          if 0 \<le> e then (ld_encode P (Fin s 0 0), x)
          else (ld_encode P (Fin s (m mod 2 ^ nat (- e)) e),
                ld_encode P (Fin s (m div 2 ^ nat (- e)) 0)))"

definition ctypes_ldouble_frexp :: "platform \<Rightarrow> libm \<Rightarrow> value \<Rightarrow> value result" where
  "ctypes_ldouble_frexp P M v =
     bindR (ldouble_custom_val P v) (\<lambda>f.
       case frexpl P M f of (rf, ri) \<Rightarrow>
         Inr (Block 0 [ctypes_copy_ldouble P rf, Val_int P (swrap (sizeof_int P) ri)]))"

definition ctypes_ldouble_ldexp :: "platform \<Rightarrow> value \<Rightarrow> value \<Rightarrow> value result" where
  "ctypes_ldouble_ldexp P vf vi =
     bindR (ldouble_custom_val P vf) (\<lambda>f.
     bindR (Int_val P vi) (\<lambda>i. Inr (ctypes_copy_ldouble P (ldexpl P f i))))"

definition ctypes_ldouble_modf :: "platform \<Rightarrow> value \<Rightarrow> value result" where
  "ctypes_ldouble_modf P v =
     bindR (ldouble_custom_val P v) (\<lambda>f.
       case modfl P f of (rf1, rf2) \<Rightarrow>
         Inr (Block 0 [ctypes_copy_ldouble P rf1, ctypes_copy_ldouble P rf2]))"

section \<open>Classification\<close>

fun ml_fpclass :: "fpclass \<Rightarrow> int" where
  "ml_fpclass FP_NORMAL = 0"
| "ml_fpclass FP_SUBNORMAL = 1"
| "ml_fpclass FP_ZERO = 2"
| "ml_fpclass FP_INFINITE = 3"
| "ml_fpclass FP_NAN = 4"

definition ctypes_ldouble_classify :: "platform \<Rightarrow> value \<Rightarrow> value result" where
  "ctypes_ldouble_classify P v =
     bindR (ldouble_custom_val P v) (\<lambda>f. Inr (Val_int P (ml_fpclass (ld_class P f))))"

section \<open>Formatting and parsing\<close>

text \<open>
  The C library's \<open>printf\<close> conversion \<open>%*.*Lf\<close>, and \<open>strtold\<close> on a C string: the value and the
  number of characters used.
\<close>

record libc_text =
  printf_Lf :: "int \<Rightarrow> int \<Rightarrow> ldouble \<Rightarrow> byte list"
  strtold :: "byte list \<Rightarrow> ldouble \<times> nat"

text \<open>The formatted text in a buffer of the C heap, which the caller frees.\<close>

definition format_ldouble ::
    "platform \<Rightarrow> allocator \<Rightarrow> libc_text \<Rightarrow> int \<Rightarrow> int \<Rightarrow> ldouble \<Rightarrow> cheap \<Rightarrow> (cheap \<times> nat) result" where
  "format_ldouble P A C width prec d h =
     (let text = printf_Lf C width prec d
      in if length text = 0 then Inl (Invalid_argument ''bad ldouble format'')
         else case c_malloc A (length text + 1) h of (h1, buf) \<Rightarrow>
           if buf = 0 then Inl Out_of_memory
           else bindR (need Memory_fault (store_bytes (mem h1) buf (text @ [0])))
                  (\<lambda>m. Inr (h1\<lparr>mem := m\<rparr>, buf)))"

definition ctypes_ldouble_format ::
    "platform \<Rightarrow> allocator \<Rightarrow> libc_text \<Rightarrow> value \<Rightarrow> value \<Rightarrow> value \<Rightarrow> cheap \<Rightarrow> (cheap \<times> value) result" where
  "ctypes_ldouble_format P A C width prec d h =
     bindR (Int_val P width) (\<lambda>w.
     bindR (Int_val P prec) (\<lambda>p.
     bindR (ldouble_custom_val P d) (\<lambda>u.
     bindR (format_ldouble P A C w p u h) (\<lambda>(h1, str).
     bindR (read_cstring (mem h1) str (top h1 - str)) (\<lambda>s.
     bindR (c_free str h1) (\<lambda>h2. Inr (h2, String_block s)))))))"

definition ctypes_ldouble_of_string :: "platform \<Rightarrow> libc_text \<Rightarrow> value \<Rightarrow> value result" where
  "ctypes_ldouble_of_string P C v =
     bindR (String_val v) (\<lambda>s.
       let str = c_string s; len = swrap (sizeof_int P) (int (length s))
       in if len = 0 then Inl (Invalid_argument ''LDouble.of_string'')
          else case strtold C str of (r, k) \<Rightarrow>
            if k < length str then Inl (Invalid_argument ''LDouble.of_string'')
            else Inr (ctypes_copy_ldouble P r))"

section \<open>Constants\<close>

definition LDBL_MAX :: "platform \<Rightarrow> ldouble" where
  "LDBL_MAX P = ld_encode P (Fin False (2 ^ LDBL_MANT_DIG P - 1)
     (emin (ld_format P) + 2 ^ ebits (ld_format P) - 3))"

definition LDBL_EPSILON :: "platform \<Rightarrow> ldouble" where
  "LDBL_EPSILON P = ld_encode P (Fin False 1 (1 - int (LDBL_MANT_DIG P)))"

definition ctypes_ldouble_min :: "platform \<Rightarrow> value" where
  "ctypes_ldouble_min P = ctypes_copy_ldouble P (ld_neg P (LDBL_MAX P))"

definition ctypes_ldouble_max :: "platform \<Rightarrow> value" where
  "ctypes_ldouble_max P = ctypes_copy_ldouble P (LDBL_MAX P)"

definition ctypes_ldouble_epsilon :: "platform \<Rightarrow> value" where
  "ctypes_ldouble_epsilon P = ctypes_copy_ldouble P (LDBL_EPSILON P)"

definition ctypes_ldouble_nan :: "platform \<Rightarrow> ldouble \<Rightarrow> value" where
  "ctypes_ldouble_nan P nanv = ctypes_copy_ldouble P nanv"

text \<open>\<open>log(0)\<close> is minus infinity in \<open>double\<close>, converted.\<close>

definition ctypes_ldouble_inf :: "platform \<Rightarrow> value" where
  "ctypes_ldouble_inf P = ctypes_copy_ldouble P (ld_encode P (fp_neg (Inf True)))"

definition ctypes_ldouble_ninf :: "platform \<Rightarrow> value" where
  "ctypes_ldouble_ninf P = ctypes_copy_ldouble P (ld_encode P (Inf True))"

definition ctypes_ldouble_size :: "platform \<Rightarrow> value" where
  "ctypes_ldouble_size P =
     Block 0 [Val_int P (int (sizeof_ldouble P)), Val_int P (int (LDOUBLE_VALUE_BYTES P))]"

definition ctypes_ldouble_mant_dig :: "platform \<Rightarrow> value" where
  "ctypes_ldouble_mant_dig P = Val_long P (int (LDBL_MANT_DIG P))"

text \<open>
  \<open>ldouble_init\<close> sets the canonical NaN to \<open>nanl("")\<close> and registers the two custom
  operations, whose identifiers the runtime keeps.
\<close>

definition ldouble_init :: "platform \<Rightarrow> string list \<Rightarrow> ldouble \<times> string list \<times> value" where
  "ldouble_init P registered =
     (ldouble_nan P, ''ctypes:ldouble_complex'' # ''ctypes:ldouble'' # registered, Val_unit)"

section \<open>Properties\<close>

lemma ld_valid_53: "LDBL_MANT_DIG P = 53 \<Longrightarrow> ld_valid P x \<longleftrightarrow> x < pattern_limit F64"
  and ld_valid_64: "LDBL_MANT_DIG P = 64 \<Longrightarrow> ld_valid P x \<longleftrightarrow> canonical_x87 x"
  and ld_valid_113: "LDBL_MANT_DIG P = 113 \<Longrightarrow> ld_valid P x \<longleftrightarrow> x < pattern_limit F128"
  by (auto simp: ld_valid_def LDOUBLE_VALUE_BYTES_def in_urange_def pattern_limits canonical_x87_def
      simp flip: of_nat_less_iff)

lemma sign_bits: "sign_bit F64 = 2 ^ 63" "sign_bit F128 = 2 ^ 127"
  by (simp_all add: sign_bit_def F64_def F128_def)

lemma ld_neg_props:
  assumes "ld_ieee P" "ld_valid P x"
  shows "ld_valid P (ld_neg P x) \<and> ld_neg P (ld_neg P x) = x \<and>
    ld_decode P (ld_neg P x) = fp_neg (ld_decode P x)"
proof -
  consider "LDBL_MANT_DIG P = 53" | "LDBL_MANT_DIG P = 64" | "LDBL_MANT_DIG P = 113"
    using assms(1) by (auto simp: ld_ieee_def)
  then show ?thesis
  proof cases
    case 1
    then have x: "x < pattern_limit F64" using assms(2) by (simp add: ld_valid_53)
    have n: "ld_neg P = flip_sign (sign_bit F64)"
      by (rule ext) (simp add: ld_neg_def 1 LDOUBLE_VALUE_BYTES_def sign_bits)
    show ?thesis
      using x flip_sign_less [of x "sign_bit F64"] flip_sign_flip [of x "sign_bit F64"]
      by (simp add: n ld_valid_53 1 ld_decode_def decode_flip_sign) (simp add: pattern_limit_def)
  next
    case 2
    then have x: "canonical_x87 x" using assms(2) by (simp add: ld_valid_64)
    then have lt: "x < 2 ^ 80" by (simp add: canonical_x87_def)
    have n: "ld_neg P = flip_sign (2 ^ 79)"
      by (rule ext) (simp add: ld_neg_def 2 LDOUBLE_VALUE_BYTES_def)
    show ?thesis
      using x lt canonical_x87_flip_sign [OF x] flip_sign_flip [of x "2 ^ 79"]
        decode_x87_flip_sign [OF lt]
      by (simp add: n ld_valid_64 2 ld_decode_def)
  next
    case 3
    then have x: "x < pattern_limit F128" using assms(2) by (simp add: ld_valid_113)
    have n: "ld_neg P = flip_sign (sign_bit F128)"
      by (rule ext) (simp add: ld_neg_def 3 LDOUBLE_VALUE_BYTES_def sign_bits)
    show ?thesis
      using x flip_sign_less [of x "sign_bit F128"] flip_sign_flip [of x "sign_bit F128"]
      by (simp add: n ld_valid_113 3 ld_decode_def decode_flip_sign) (simp add: pattern_limit_def)
  qed
qed

text \<open>
  Negation is an involution on the stored patterns and reverses the comparison of numbers
  (a NaN keeps its place as the least element, so it is excluded).
\<close>

theorem ldouble_neg_reverses:
  assumes "ld_ieee P" "ld_valid P x" "ld_valid P y" "ld_decode P x \<noteq> NaN" "ld_decode P y \<noteq> NaN"
  shows "bindR (ctypes_ldouble_neg P (ctypes_copy_ldouble P x)) (ctypes_ldouble_neg P) =
      Inr (ctypes_copy_ldouble P x) \<and>
    ldouble_cmp P (ld_neg P y) (ld_neg P x) = ldouble_cmp P x y"
proof -
  note X = ld_neg_props [OF assms(1,2)] and Y = ld_neg_props [OF assms(1,3)]
  have "ctypes_ldouble_neg P (ctypes_copy_ldouble P x) = Inr (ctypes_copy_ldouble P (ld_neg P x))"
    "ctypes_ldouble_neg P (ctypes_copy_ldouble P (ld_neg P x)) = Inr (ctypes_copy_ldouble P x)"
    using assms(2) X by (simp_all add: ctypes_ldouble_neg_def)
  moreover have "ldouble_cmp P (ld_neg P y) (ld_neg P x) = ldouble_cmp P x y"
    using X Y assms(4,5) unfolding ldouble_cmp_def Let_def
    by (simp add: fp_neg_order fp_eq_refl)
  ultimately show ?thesis by simp
qed

lemma lp64_ieee: "ld_ieee lp64"
  by (simp add: ld_ieee_def LDOUBLE_VALUE_BYTES_def ld_decode_def decode_x87_def)

theorem ldouble_neg_reverses_witness:
  "ldouble_cmp lp64 (ld_neg lp64 0x40008000000000000000) (ld_neg lp64 0x3FFF8000000000000000) =
   ldouble_cmp lp64 0x3FFF8000000000000000 0x40008000000000000000"
proof -
  have "ld_valid lp64 0x3FFF8000000000000000" "ld_valid lp64 0x40008000000000000000"
    "ld_decode lp64 0x3FFF8000000000000000 \<noteq> NaN" "ld_decode lp64 0x40008000000000000000 \<noteq> NaN"
    by (simp_all add: ld_valid_64 canonical_x87_def ld_decode_def decode_x87_def)
  then show ?thesis using ldouble_neg_reverses [OF lp64_ieee] by blast
qed

text \<open>Every \<open>double\<close> is a \<open>long double\<close>.\<close>

lemma double_to_ld_value:
  assumes "ld_ieee P" "decode F64 (unat d) \<noteq> NaN"
  shows "same_val (ld_decode P (double_to_ld P d)) (decode F64 (unat d))"
proof -
  have F: "2 \<le> ebits F64" by (simp add: F64_def)
  consider "LDBL_MANT_DIG P = 53" | "LDBL_MANT_DIG P = 64" | "LDBL_MANT_DIG P = 113"
    using assms(1) by (auto simp: ld_ieee_def)
  then show ?thesis
  proof cases
    case 1
    then show ?thesis
      using widen_value [of F64 F64 "unat d" "ldouble_nan P"] F assms(2)
      by (simp add: ld_decode_def ld_encode_def double_to_ld_def convert_def)
  next
    case 2
    have "same_val (decode_x87 (encode_x87 (ldouble_nan P) (decode F64 (unat d)))) (decode F64 (unat d))"
    proof (rule decode_encode_x87 [OF assms(2)])
      fix s m e assume "decode F64 (unat d) = Fin s m e"
      then show "same_val (decode X87 (encode X87 (ldouble_nan P) (decode F64 (unat d)))) (decode F64 (unat d))"
        using widen_value [of F64 X87 "unat d" "ldouble_nan P"] F assms(2) by (simp add: convert_def)
    qed
    with 2 show ?thesis by (simp add: ld_decode_def ld_encode_def double_to_ld_def)
  next
    case 3
    then show ?thesis
      using widen_value [of F64 F128 "unat d" "ldouble_nan P"] F assms(2)
      by (simp add: ld_decode_def ld_encode_def double_to_ld_def convert_def)
  qed
qed

text \<open>
  \<open>LDouble.to_float (LDouble.of_float d)\<close> is \<open>d\<close>, bit for bit, for every \<open>double\<close> that is not
  a NaN: signed zeros, subnormals and infinities included.
\<close>

theorem ldouble_float_roundtrip:
  assumes "ld_ieee P" "decode F64 (unat d) \<noteq> NaN"
  shows "bindR (ctypes_ldouble_of_float P (Double_block d)) (ctypes_ldouble_to_float P) =
    Inr (Double_block d)"
proof -
  have v: "ld_valid P (double_to_ld P d)"
    unfolding double_to_ld_def using assms by (intro ld_encode_valid) auto
  have "unat d < 2 ^ 64" using unsigned_less [of d] by simp
  then have "encode F64 (double_nan P) (ld_decode P (double_to_ld P d)) = unat d"
    using assms by (intro encode_decode double_to_ld_value) (simp_all add: pattern_limits)
  then show ?thesis
    using v by (simp add: ctypes_ldouble_of_float_def ctypes_ldouble_to_float_def ld_to_double_def)
qed

theorem ldouble_float_roundtrip_witness:
  "bindR (ctypes_ldouble_of_float lp64 (Double_block 1)) (ctypes_ldouble_to_float lp64) =
    Inr (Double_block 1)"
  by (rule ldouble_float_roundtrip [OF lp64_ieee])
    (simp add: decode_def decode_mag_def inf_mag_def sign_bit_def F64_def)

lemma bitlen_ld:
  assumes "ld_ieee P" "ld_valid P x" "ld_decode P x = Fin s m e"
  shows "bitlen m \<le> LDBL_MANT_DIG P"
proof -
  consider "LDBL_MANT_DIG P = 53" | "LDBL_MANT_DIG P = 64" | "LDBL_MANT_DIG P = 113"
    using assms(1) by (auto simp: ld_ieee_def)
  then show ?thesis
  proof cases
    case 1
    then have "decode F64 x = Fin s m e" using assms(3) by (simp add: ld_decode_def)
    then have "m < 2 * 2 ^ fbits F64" by (rule decode_Fin)
    then have "m < 2 ^ 53" by (simp add: F64_def)
    then show ?thesis using 1 by (simp only: bitlen_le)
  next
    case 2
    then have "decode_x87 x = Fin s m e" using assms(3) by (simp add: ld_decode_def)
    then have "m < 2 ^ 64" by (auto simp: decode_x87_def Let_def split: if_splits)
    then show ?thesis using 2 by (simp only: bitlen_le)
  next
    case 3
    then have "decode F128 x = Fin s m e" using assms(3) by (simp add: ld_decode_def)
    then have "m < 2 * 2 ^ fbits F128" by (rule decode_Fin)
    then have "m < 2 ^ 113" by (simp add: F128_def)
    then show ?thesis using 3 by (simp only: bitlen_le)
  qed
qed

lemma frexpl_ldexpl:
  assumes "ld_ieee P" "ld_valid P x" "ld_decode P x = Fin s m e" "frexpl P M x = (f, i)"
  shows "ldexpl P f i = x"
proof (cases "m = 0")
  case True
  with assms(3,4) show ?thesis by (auto simp: frexpl_def ldexpl_def)
next
  case False
  let ?f = "ld_encode P (Fin s m (- int (bitlen m)))"
  have fi: "f = ?f" "i = e + int (bitlen m)" using assms(3,4) False by (auto simp: frexpl_def)
  have bl: "bitlen m \<le> LDBL_MANT_DIG P" using bitlen_ld [OF assms(1,2,3)] .
  have "LDBL_MANT_DIG P \<le> 113" using assms(1) by (auto simp: ld_ieee_def)
  then have "same_val (ld_decode P ?f) (Fin s m (- int (bitlen m)))"
    using bl by (intro ld_decode_encode_fits [OF assms(1)]) auto
  then obtain n d where d: "ld_decode P ?f = Fin s n d" "sval n d = sval m (- int (bitlen m))"
    by (cases "ld_decode P ?f") auto
  then have n0: "n \<noteq> 0" using False by (metis sval_0_iff)
  have sc: "sval k (a + b) = sval k a * 2 powi b" for k a b
    by (simp add: sval_def power_int_add)
  have "sval n (d + i) = sval m (- int (bitlen m) + i)" unfolding sc using d(2) by simp
  then have "same_val (Fin s n (d + i)) (ld_decode P x)" using assms(3) fi(2) by simp
  then have "ld_encode P (Fin s n (d + i)) = x"
    using assms(1-3) by (intro ld_encode_decode) auto
  then show ?thesis using n0 d(1) by (simp add: ldexpl_def fi(1))
qed

lemma ld_exponent_range:
  assumes "ld_ieee P" "ld_valid P x" "ld_decode P x = Fin s m e"
  shows "-20000 \<le> e \<and> e \<le> 20000"
proof -
  consider "LDBL_MANT_DIG P = 53" | "LDBL_MANT_DIG P = 64" | "LDBL_MANT_DIG P = 113"
    using assms(1) by (auto simp: ld_ieee_def)
  then show ?thesis
  proof cases
    case 1
    then have "decode F64 x = Fin s m e" using assms(3) by (simp add: ld_decode_def)
    from decode_Fin(2,3) [OF this] show ?thesis by (auto simp: F64_def emin_def)
  next
    case 2
    define ex where "ex = (if 2 ^ 79 \<le> x then x - 2 ^ 79 else x) div 2 ^ 64"
    have "decode_x87 x = Fin s m e" using assms(3) 2 by (simp add: ld_decode_def)
    then have "e = emin X87 \<or> ex < 32767 \<and> e = emin X87 + int ex - 1"
      by (auto simp: decode_x87_def Let_def ex_def split: if_splits)
    then show ?thesis by (auto simp: emin_def X87_def)
  next
    case 3
    then have "decode F128 x = Fin s m e" using assms(3) by (simp add: ld_decode_def)
    from decode_Fin(2,3) [OF this] show ?thesis by (auto simp: F128_def emin_def)
  qed
qed

lemma int_val_small_exponent:
  assumes "platform_ok P" "-30000 \<le> i" "i \<le> 30000"
  shows "swrap (sizeof_int P) i = i" "Int_val P (Val_int P i) = Inr i"
proof -
  note D = platform_okD [OF assms(1)]
  have r: "in_srange 2 i" using assms(2,3) by (simp add: in_srange_def)
  then have s: "in_srange (sizeof_int P) i" using D(7) by (auto intro: in_srange_mono [of 2])
  moreover have "oint_ok P i" using r D(8) by (auto intro: oint_ok_small [of 2])
  ultimately show "swrap (sizeof_int P) i = i" "Int_val P (Val_int P i) = Inr i"
    using D(3,4) by (simp_all add: swrap_id Int_val_Val_int)
qed

text \<open>
  C30: \<open>frexp\<close> and \<open>ldexp\<close> are inverse: scaling the fraction by the exponent gives the argument
  back, for every number including subnormals.
\<close>

theorem ldouble_frexp_ldexp:
  assumes "ld_ieee P" "platform_ok P" "ld_valid P x" "ld_decode P x = Fin s m e"
  shows "\<exists>f i. ctypes_ldouble_frexp P M (ctypes_copy_ldouble P x) = Inr (Block 0 [f, i]) \<and>
    ctypes_ldouble_ldexp P f i = Inr (ctypes_copy_ldouble P x)"
proof -
  obtain f i where fi: "frexpl P M x = (f, i)" by fastforce
  have bl: "bitlen m \<le> 113" using bitlen_ld [OF assms(1,3,4)] assms(1) by (auto simp: ld_ieee_def)
  have i: "-30000 \<le> i" "i \<le> 30000"
    using ld_exponent_range [OF assms(1,3,4)] fi bl assms(4) by (auto simp: frexpl_def split: if_splits)
  have "ld_valid P f"
    using fi assms(3,4) by (auto simp: frexpl_def intro: ld_encode_valid [OF assms(1)] split: if_splits)
  then show ?thesis
    using fi assms(3) int_val_small_exponent [OF assms(2) i] frexpl_ldexpl [OF assms(1,3,4) fi]
    by (simp add: ctypes_ldouble_frexp_def ctypes_ldouble_ldexp_def)
qed

theorem ldouble_frexp_ldexp_witness:
  "\<exists>f i. ctypes_ldouble_frexp lp64 \<lparr>libm1 = (\<lambda>_ x. x), libm2 = (\<lambda>_ x _. x), frexp_unspecified = (\<lambda>_. 0)\<rparr>
      (ctypes_copy_ldouble lp64 5) = Inr (Block 0 [f, i]) \<and>
    ctypes_ldouble_ldexp lp64 f i = Inr (ctypes_copy_ldouble lp64 5)"
proof -
  have "ld_decode lp64 5 = Fin False 5 (emin X87)" "ld_valid lp64 5"
    by (simp_all add: ld_valid_64 canonical_x87_def ld_decode_def decode_x87_def)
  then show ?thesis using ldouble_frexp_ldexp [OF lp64_ieee platform_ok_lp64, of 5 False 5 "emin X87"] by blast
qed

text \<open>
  \<open>LDouble.of_string\<close> looks at its argument only up to the first NUL byte: a string is
  accepted exactly when it is not empty and \<open>strtold\<close> uses all of that prefix, so a non-empty
  string that starts with a NUL is accepted with the value \<open>strtold\<close> gives the empty text, and
  whatever follows a NUL is ignored.
\<close>

theorem ldouble_of_string_prefix:
  assumes "0 \<notin> set cs" "cs \<noteq> [] \<or> z \<noteq> []" "z = [] \<or> hd z = 0"
    and "int (length (cs @ z)) < 256 ^ sizeof_int P div 2" "0 < sizeof_int P"
  shows "ctypes_ldouble_of_string P C (String_block (cs @ z)) =
    (case strtold C cs of (r, k) \<Rightarrow>
       if k < length cs then Inl (Invalid_argument ''LDouble.of_string'')
       else Inr (ctypes_copy_ldouble P r))"
proof -
  have "c_string (cs @ z) = cs"
    using assms(1,3) by (cases z) (auto simp: c_string_def takeWhile_append)
  moreover have "swrap (sizeof_int P) (int (length (cs @ z))) = int (length (cs @ z))"
    using assms(4,5) by (intro swrap_id) (auto simp: in_srange_def)
  moreover have "length (cs @ z) \<noteq> 0" using assms(2) by auto
  then have "int (length (cs @ z)) \<noteq> 0" by (simp only: of_nat_eq_0_iff not_False_eq_True)
  ultimately show ?thesis
    by (simp only: ctypes_ldouble_of_string_def Let_def String_val.simps bindR_simps if_False)
qed

theorem ldouble_of_string_prefix_witness:
  "ctypes_ldouble_of_string lp64 \<lparr>printf_Lf = (\<lambda>_ _ _. []), strtold = (\<lambda>s. (0, length s))\<rparr>
     (String_block ([] @ [0, 65])) = Inr (ctypes_copy_ldouble lp64 0)"
  by (subst ldouble_of_string_prefix) simp_all

text \<open>
  \<open>LDouble.format\<close> returns the text of the C library and leaves the C heap as it was: the
  buffer it allocates is freed, every other byte keeps its value and the heap stays well
  formed.  When \<open>malloc\<close> fails it raises \<open>Out_of_memory\<close>.
\<close>

theorem ldouble_format_no_leak:
  assumes "c_allocator P A" "heap_ok P h"
    and "Int_val P w = Inr wi" "Int_val P p = Inr pr" "ldouble_custom_val P d = Inr u"
    and "printf_Lf C wi pr u = text" "text \<noteq> []" "0 \<notin> set text"
  shows "(place A h (length text + 1) = None \<longrightarrow> ctypes_ldouble_format P A C w p d h = Inl Out_of_memory) \<and>
    (\<forall>a. place A h (length text + 1) = Some a \<longrightarrow>
       (\<exists>h2. ctypes_ldouble_format P A C w p d h = Inr (h2, String_block text) \<and>
          heap_ok P h2 \<and> blocks h2 = blocks h \<and> mem h2 = mem h))"
proof (intro conjI allI impI)
  assume "place A h (length text + 1) = None"
  with assms(3-7) show "ctypes_ldouble_format P A C w p d h = Inl Out_of_memory"
    by (simp add: ctypes_ldouble_format_def format_ldouble_def c_malloc_def)
next
  fix a assume pl: "place A h (length text + 1) = Some a"
  let ?n = "length text + 1"
  define h1 where "h1 = install a (map (junk A) [a..<a + ?n]) h"
  have fr: "fresh P h a ?n" using c_allocator.place_fresh [OF assms(1,2) pl] .
  have ok1: "heap_ok P h1" unfolding h1_def using assms(2) fr by (intro install_heap_ok) simp_all
  have b1: "blocks h1 = (blocks h)(a \<mapsto> ?n)" and t1: "a + ?n \<le> top h1" by (simp_all add: h1_def)
  have "mapped (mem h1) a (length (text @ [0]))" unfolding h1_def by (rule mapped_install_new) simp
  then obtain m where m: "store_bytes (mem h1) a (text @ [0]) = Some m"
    using store_bytes_Some_iff by blast
  have "load_bytes m a (Suc (length text)) = Some (text @ [0])"
    using m by (rule load_store_same) simp
  then have rd: "read_cstring m a (top h1 - a) = Inr text"
    using assms(8) t1 by (intro read_cstring_stored) simp_all
  have a0: "a \<noteq> 0" using fresh_limit [OF fr] by simp
  define h2 where "h2 = h1\<lparr>mem := (\<lambda>x. if a \<le> x \<and> x < a + ?n then None else m x),
      blocks := (blocks h1)(a := None)\<rparr>"
  have f: "c_free a (h1\<lparr>mem := m\<rparr>) = Inr h2" using a0 by (simp add: c_free_def b1 h2_def cong: if_cong)
  have mal: "c_malloc A ?n h = (h1, a)" using pl by (simp only: c_malloc_def h1_def option.case)
  have "ctypes_ldouble_format P A C w p d h = Inr (h2, String_block text)"
    using assms(3-7) mal m rd f a0
    by (simp add: ctypes_ldouble_format_def format_ldouble_def)
  moreover have "heap_ok P (h1\<lparr>mem := m\<rparr>)"
    using ok1 store_bytes_dom [OF m] store_bytes_mapped [OF m] by (simp add: heap_ok_def)
  then have "heap_ok P h2" using f by (rule c_free_heap_ok)
  moreover have "blocks h2 = blocks h" using fresh_blocks [OF fr] by (auto simp: h2_def b1)
  moreover have "mem h2 = mem h"
  proof
    fix x
    show "mem h2 x = mem h x"
    proof (cases "a \<le> x \<and> x < a + ?n")
      case True
      then show ?thesis using fr by (auto simp: h2_def fresh_def)
    next
      case False
      then have "m x = mem h1 x" using store_bytes_outside [OF m, of x] by auto
      with False show ?thesis
        using mem_install_outside [of x a "map (junk A) [a..<a + ?n]" h] by (auto simp: h2_def h1_def)
    qed
  qed
  ultimately show "\<exists>h2. ctypes_ldouble_format P A C w p d h = Inr (h2, String_block text) \<and>
      heap_ok P h2 \<and> blocks h2 = blocks h \<and> mem h2 = mem h" by blast
qed

theorem ldouble_format_no_leak_witness:
  "\<exists>h2. ctypes_ldouble_format lp64 (bump lp64 4096)
       \<lparr>printf_Lf = (\<lambda>_ _ _. [49, 46, 48]), strtold = (\<lambda>s. (0, 0))\<rparr>
       (Val_int lp64 0) (Val_int lp64 1) (ctypes_copy_ldouble lp64 0) empty_heap =
     Inr (h2, String_block [49, 46, 48]) \<and> blocks h2 = blocks empty_heap"
proof -
  have i: "Int_val lp64 (Val_int lp64 0) = Inr 0" "Int_val lp64 (Val_int lp64 1) = Inr 1"
    by (simp_all add: Int_val_def Val_long_def swrap_def)
  have v: "ldouble_custom_val lp64 (ctypes_copy_ldouble lp64 0) = Inr 0"
    by (simp add: ld_valid_64 canonical_x87_def)
  let ?C = "\<lparr>printf_Lf = (\<lambda>_ _ _. [49, 46, 48]), strtold = (\<lambda>s. (0, 0))\<rparr>"
  have t: "printf_Lf ?C 0 1 0 = [49, 46, 48]" by simp
  have pl: "place (bump lp64 4096) empty_heap (length [49, 46, 48 :: byte] + 1) = Some 16"
    by (simp add: bump_def empty_heap_def)
  show ?thesis
    using ldouble_format_no_leak [OF bump.c_allocator_axioms [of lp64 4096] empty_heap_ok i v t] pl
    by auto
qed

end
