(* ===== verification/Complex_Numbers.thy ===== *)
theory Complex_Numbers
  imports LDouble_Arith
begin

text \<open>
  \<open>complex_stubs.c\<close>, \<open>ctypes_complex_compatibility.h\<close> and the complex half of
  \<open>ldouble_stubs.c\<close>.  A complex number is the pair of its parts, in the order in which the
  unions of the compatibility header lay them out.  Complex multiplication, division and the
  functions of \<open>complex.h\<close> are the compiler's and the C library's: parameters.
\<close>

type_synonym 'a c_complex = "'a \<times> 'a"

section \<open>Conversions between \<open>float\<close> and \<open>double\<close>\<close>

definition float_to_double :: "platform \<Rightarrow> 32 word \<Rightarrow> 64 word" where
  "float_to_double P f = of_nat (convert F32 F64 (double_nan P) (unat f))"

definition double_to_float :: "platform \<Rightarrow> 64 word \<Rightarrow> 32 word" where
  "double_to_float P d = of_nat (convert F64 F32 (float_nan P) (unat d))"

lemma convert_less: "nan < pattern_limit G \<Longrightarrow> convert F G nan b < pattern_limit G"
  by (simp add: convert_def encode_less)

lemma float_double_float:
  assumes "platform_ok P" "decode F32 (unat f) \<noteq> NaN"
  shows "double_to_float P (float_to_double P f) = f"
proof -
  have n: "double_nan P < 256 ^ 8" using assms(1) by (simp add: platform_ok_def nan_ok_def pattern_limits)
  have "unat f < 2 ^ 32" using unsigned_less [of f] by simp
  then have f: "unat f < pattern_limit F32" by (simp add: pattern_limits)
  have c: "convert F32 F64 (double_nan P) (unat f) < 2 ^ 64"
    using convert_less [of "double_nan P" F64 F32 "unat f"] n by (simp add: pattern_limits)
  have "convert F64 F32 (float_nan P) (convert F32 F64 (double_nan P) (unat f)) = unat f"
    using assms(2) f by (intro narrow_widen embeds_formats) (simp_all only: F32_def fformat.select_convs, simp)
  then show ?thesis
    using c by (simp add: double_to_float_def float_to_double_def of_nat_inverse)
qed

section \<open>The compatibility header\<close>

text \<open>
  \<open>u.z = z; u.parts[i]\<close> on Android, the functions of \<open>complex.h\<close> elsewhere: both read the
  parts.
\<close>

definition ctypes_compat_creal :: "'a c_complex \<Rightarrow> 'a" where "ctypes_compat_creal z = fst z"
definition ctypes_compat_cimag :: "'a c_complex \<Rightarrow> 'a" where "ctypes_compat_cimag z = snd z"

definition ctypes_compat_make_complex :: "'a \<Rightarrow> 'a \<Rightarrow> 'a c_complex" where
  "ctypes_compat_make_complex re im = (re, im)"

lemma compat_parts [simp]:
  "ctypes_compat_creal (ctypes_compat_make_complex re im) = re"
  "ctypes_compat_cimag (ctypes_compat_make_complex re im) = im"
  "ctypes_compat_make_complex (ctypes_compat_creal z) (ctypes_compat_cimag z) = z"
  by (simp_all add: ctypes_compat_creal_def ctypes_compat_cimag_def ctypes_compat_make_complex_def)

definition ctypes_compat_conjl :: "platform \<Rightarrow> ldouble c_complex \<Rightarrow> ldouble c_complex" where
  "ctypes_compat_conjl P z = (fst z, ld_neg P (snd z))"

record complex_lib =
  cmull :: "ldouble c_complex \<Rightarrow> ldouble c_complex \<Rightarrow> ldouble c_complex"
  cdivl :: "ldouble c_complex \<Rightarrow> ldouble c_complex \<Rightarrow> ldouble c_complex"
  csqrtl :: "ldouble c_complex \<Rightarrow> ldouble c_complex"
  cexpl :: "ldouble c_complex \<Rightarrow> ldouble c_complex"
  clogl :: "ldouble c_complex \<Rightarrow> ldouble c_complex"
  cpowl :: "ldouble c_complex \<Rightarrow> ldouble c_complex \<Rightarrow> ldouble c_complex"
  cargl :: "ldouble c_complex \<Rightarrow> ldouble"
  atan2_double :: "64 word \<Rightarrow> 64 word \<Rightarrow> 64 word"

definition ctypes_compat_csqrtl :: "platform \<Rightarrow> complex_lib \<Rightarrow> ldouble c_complex \<Rightarrow> ldouble c_complex result" where
  "ctypes_compat_csqrtl P C z = (if os P = Android then Inl (missing ''csqrtl'') else Inr (csqrtl C z))"

definition ctypes_compat_cexpl :: "platform \<Rightarrow> complex_lib \<Rightarrow> ldouble c_complex \<Rightarrow> ldouble c_complex result" where
  "ctypes_compat_cexpl P C z =
     (if os P = Android then Inl (missing ''cexpl'')
      else if os P = FreeBSD then Inl (missing ''cexpl'')
      else Inr (cexpl C z))"

definition ctypes_compat_clogl :: "platform \<Rightarrow> complex_lib \<Rightarrow> ldouble c_complex \<Rightarrow> ldouble c_complex result" where
  "ctypes_compat_clogl P C z = (if os P = Android then Inl (missing ''clogl'') else Inr (clogl C z))"

definition ctypes_compat_cpowl ::
    "platform \<Rightarrow> complex_lib \<Rightarrow> ldouble c_complex \<Rightarrow> ldouble c_complex \<Rightarrow> ldouble c_complex result" where
  "ctypes_compat_cpowl P C x z =
     (if os P = Android then Inl (missing ''cpowl'') else Inr (cpowl C x z))"

text \<open>On Android the argument is computed by the \<open>atan2\<close> of \<open>double\<close>.\<close>

definition ctypes_compat_cargl :: "platform \<Rightarrow> complex_lib \<Rightarrow> ldouble c_complex \<Rightarrow> ldouble" where
  "ctypes_compat_cargl P C z =
     (if os P = Android
      then double_to_ld P (atan2_double C (ld_to_double P (ctypes_compat_cimag z))
                                          (ld_to_double P (ctypes_compat_creal z)))
      else cargl C z)"

section \<open>\<open>Complex.t\<close> values\<close>

definition allocate_complex_value :: "64 word \<Rightarrow> 64 word \<Rightarrow> value" where
  "allocate_complex_value r i = Double_array_block [r, i]"

definition ctypes_copy_float_complex :: "platform \<Rightarrow> (32 word) c_complex \<Rightarrow> value" where
  "ctypes_copy_float_complex P c =
     allocate_complex_value (float_to_double P (ctypes_compat_creal c)) (float_to_double P (ctypes_compat_cimag c))"

definition ctypes_copy_double_complex :: "(64 word) c_complex \<Rightarrow> value" where
  "ctypes_copy_double_complex c =
     allocate_complex_value (ctypes_compat_creal c) (ctypes_compat_cimag c)"

definition ctypes_float_complex_val :: "platform \<Rightarrow> value \<Rightarrow> ((32 word) c_complex) result" where
  "ctypes_float_complex_val P v =
     bindR (Double_field v 0) (\<lambda>re.
     bindR (Double_field v 1) (\<lambda>im.
       Inr (ctypes_compat_make_complex (double_to_float P re) (double_to_float P im))))"

definition ctypes_double_complex_val :: "value \<Rightarrow> ((64 word) c_complex) result" where
  "ctypes_double_complex_val v =
     bindR (Double_field v 0) (\<lambda>re.
     bindR (Double_field v 1) (\<lambda>im. Inr (ctypes_compat_make_complex re im)))"

section \<open>\<open>long double _Complex\<close> values\<close>

definition ctypes_copy_ldouble_complex :: "platform \<Rightarrow> ldouble c_complex \<Rightarrow> value" where
  "ctypes_copy_ldouble_complex P u =
     Custom_block ''ctypes:ldouble_complex'' (ld_storage P (fst u) @ ld_storage P (snd u))"

definition ldouble_complex_of_storage :: "platform \<Rightarrow> byte list \<Rightarrow> ldouble c_complex" where
  "ldouble_complex_of_storage P bs =
     (ld_of_storage P (take (sizeof_ldouble P) bs), ld_of_storage P (drop (sizeof_ldouble P) bs))"

definition ldouble_complex_custom_val :: "platform \<Rightarrow> value \<Rightarrow> (ldouble c_complex) result" where
  "ldouble_complex_custom_val P v =
     map_sum id (ldouble_complex_of_storage P) (Custom_bytes ''ctypes:ldouble_complex'' v)"

definition ctypes_ldouble_complex_val :: "platform \<Rightarrow> value \<Rightarrow> (ldouble c_complex) result" where
  "ctypes_ldouble_complex_val P v = ldouble_complex_custom_val P v"

text \<open>The result and the (sticky) unordered flag.\<close>

definition ldouble_complex_cmp :: "platform \<Rightarrow> ldouble c_complex \<Rightarrow> ldouble c_complex \<Rightarrow> int \<times> bool" where
  "ldouble_complex_cmp P u1 u2 =
     (case ldouble_cmp P (ctypes_compat_creal u1) (ctypes_compat_creal u2) of (cmp_real, f1) \<Rightarrow>
        if cmp_real = 0
        then (case ldouble_cmp P (ctypes_compat_cimag u1) (ctypes_compat_cimag u2) of
                (cmp_imag, f2) \<Rightarrow> (cmp_imag, f1 \<or> f2))
        else (cmp_real, f1))"

definition ldouble_complex_cmp_val :: "platform \<Rightarrow> value \<Rightarrow> value \<Rightarrow> (int \<times> bool) result" where
  "ldouble_complex_cmp_val P v1 v2 =
     bindR (ldouble_complex_custom_val P v1) (\<lambda>u1.
     bindR (ldouble_complex_custom_val P v2) (\<lambda>u2. Inr (ldouble_complex_cmp P u1 u2)))"

definition ldouble_complex_mix :: "platform \<Rightarrow> hash_lib \<Rightarrow> ldouble \<Rightarrow> ldouble c_complex \<Rightarrow> 32 word" where
  "ldouble_complex_mix P H nanv c =
     ldouble_mix_hash P H nanv (ldouble_mix_hash P H nanv 0 (ctypes_compat_creal c)) (ctypes_compat_cimag c)"

definition ldouble_complex_hash :: "platform \<Rightarrow> hash_lib \<Rightarrow> ldouble \<Rightarrow> value \<Rightarrow> int result" where
  "ldouble_complex_hash P H nanv v =
     map_sum id (\<lambda>c. uint (ldouble_complex_mix P H nanv c)) (ldouble_complex_custom_val P v)"

text \<open>Unlike \<open>ldouble_serialize\<close>, this does not normalise the parts.\<close>

definition ldouble_complex_serialize ::
    "platform \<Rightarrow> marshal_lib \<Rightarrow> value \<Rightarrow> (byte list \<times> nat \<times> nat) result" where
  "ldouble_complex_serialize P M v =
     bindR (ldouble_complex_custom_val P v) (\<lambda>c.
       Inr (caml_serialize_int_1 M (int (LDBL_MANT_DIG P)) @
              ldouble_serialize_data P M (ctypes_compat_creal c) @
              ldouble_serialize_data P M (ctypes_compat_cimag c),
            2 * sizeof_ldouble P, 2 * sizeof_ldouble P))"

definition ldouble_complex_deserialize ::
    "platform \<Rightarrow> marshal_lib \<Rightarrow> byte list \<Rightarrow> byte list \<Rightarrow> (byte list \<times> nat \<times> byte list) result" where
  "ldouble_complex_deserialize P M q input =
     bindR (need Memory_fault (caml_deserialize_uint_1 M input)) (\<lambda>(k, r).
       if k \<noteq> int (LDBL_MANT_DIG P) then Inl (Failure ''invalid long double size'')
       else bindR (ldouble_deserialize_data P M q r) (\<lambda>(re, r1).
            bindR (ldouble_deserialize_data P M q r1) (\<lambda>(im, r2).
              let c = ctypes_compat_make_complex (ld_of_storage P re) (ld_of_storage P im)
              in Inr (ld_storage P (fst c) @ ld_storage P (snd c), 2 * sizeof_ldouble P, r2))))"

definition ctypes_ldouble_complex_make :: "platform \<Rightarrow> value \<Rightarrow> value \<Rightarrow> value result" where
  "ctypes_ldouble_complex_make P r i =
     bindR (ldouble_custom_val P r) (\<lambda>re.
     bindR (ldouble_custom_val P i) (\<lambda>im.
       Inr (ctypes_copy_ldouble_complex P (ctypes_compat_make_complex re im))))"

definition ctypes_ldouble_complex_real :: "platform \<Rightarrow> value \<Rightarrow> value result" where
  "ctypes_ldouble_complex_real P v =
     bindR (ldouble_complex_custom_val P v) (\<lambda>c. Inr (ctypes_copy_ldouble P (ctypes_compat_creal c)))"

definition ctypes_ldouble_complex_imag :: "platform \<Rightarrow> value \<Rightarrow> value result" where
  "ctypes_ldouble_complex_imag P v =
     bindR (ldouble_complex_custom_val P v) (\<lambda>c. Inr (ctypes_copy_ldouble P (ctypes_compat_cimag c)))"

definition ld_complex_arith ::
    "platform \<Rightarrow> complex_lib \<Rightarrow> ld_op2 \<Rightarrow> ldouble c_complex \<Rightarrow> ldouble c_complex \<Rightarrow> ldouble c_complex" where
  "ld_complex_arith P C f x y =
     (case f of
        Add \<Rightarrow> (ld_arith P Add (fst x) (fst y), ld_arith P Add (snd x) (snd y))
      | Sub \<Rightarrow> (ld_arith P Sub (fst x) (fst y), ld_arith P Sub (snd x) (snd y))
      | Mul \<Rightarrow> cmull C x y
      | Div \<Rightarrow> cdivl C x y)"

definition ctypes_ldouble_complex_op2 ::
    "platform \<Rightarrow> complex_lib \<Rightarrow> ld_op2 \<Rightarrow> value \<Rightarrow> value \<Rightarrow> value result" where
  "ctypes_ldouble_complex_op2 P C f a b =
     bindR (ldouble_complex_custom_val P a) (\<lambda>x.
     bindR (ldouble_complex_custom_val P b) (\<lambda>y.
       Inr (ctypes_copy_ldouble_complex P (ld_complex_arith P C f x y))))"

definition ctypes_ldouble_complex_neg :: "platform \<Rightarrow> value \<Rightarrow> value result" where
  "ctypes_ldouble_complex_neg P a =
     bindR (ldouble_complex_custom_val P a) (\<lambda>c.
       Inr (ctypes_copy_ldouble_complex P (ld_neg P (fst c), ld_neg P (snd c))))"

datatype ld_complex_fn = Conjl | Csqrtl | Cexpl | Clogl

definition ctypes_ldouble_complex_fn1 ::
    "platform \<Rightarrow> complex_lib \<Rightarrow> ld_complex_fn \<Rightarrow> value \<Rightarrow> value result" where
  "ctypes_ldouble_complex_fn1 P C f a =
     bindR (ldouble_complex_custom_val P a) (\<lambda>z.
     bindR (case f of
              Conjl \<Rightarrow> Inr (ctypes_compat_conjl P z)
            | Csqrtl \<Rightarrow> ctypes_compat_csqrtl P C z
            | Cexpl \<Rightarrow> ctypes_compat_cexpl P C z
            | Clogl \<Rightarrow> ctypes_compat_clogl P C z)
       (\<lambda>r. Inr (ctypes_copy_ldouble_complex P r)))"

definition ctypes_ldouble_complex_cpowl ::
    "platform \<Rightarrow> complex_lib \<Rightarrow> value \<Rightarrow> value \<Rightarrow> value result" where
  "ctypes_ldouble_complex_cpowl P C a b =
     bindR (ldouble_complex_custom_val P a) (\<lambda>x.
     bindR (ldouble_complex_custom_val P b) (\<lambda>z.
     bindR (ctypes_compat_cpowl P C x z) (\<lambda>r. Inr (ctypes_copy_ldouble_complex P r))))"

definition ctypes_ldouble_complex_cargl :: "platform \<Rightarrow> complex_lib \<Rightarrow> value \<Rightarrow> value result" where
  "ctypes_ldouble_complex_cargl P C a =
     bindR (ldouble_complex_custom_val P a) (\<lambda>z. Inr (ctypes_copy_ldouble P (ctypes_compat_cargl P C z)))"

lemma ldouble_complex_val_copy [simp]:
  assumes "LDOUBLE_VALUE_BYTES P \<le> sizeof_ldouble P" "ld_valid P (fst u)" "ld_valid P (snd u)"
  shows "ldouble_complex_custom_val P (ctypes_copy_ldouble_complex P u) = Inr u"
  using assms length_ld_storage [of P "fst u"]
  by (cases u) (simp add: ldouble_complex_custom_val_def ctypes_copy_ldouble_complex_def
      ldouble_complex_of_storage_def ld_valid_def)


section \<open>Properties\<close>

text \<open>
  Complex numbers survive the trip through an OCaml \<open>Complex.t\<close>: \<open>double _Complex\<close> bit for
  bit, \<open>float _Complex\<close> (which is widened and narrowed again) whenever neither part is a
  NaN, and \<open>long double _Complex\<close> through \<open>make\<close>, \<open>real\<close> and \<open>imag\<close>.
\<close>

theorem complex_value_roundtrip:
  assumes "platform_ok P" "decode F32 (unat (fst f)) \<noteq> NaN" "decode F32 (unat (snd f)) \<noteq> NaN"
    and "LDOUBLE_VALUE_BYTES P \<le> sizeof_ldouble P" "ld_valid P re" "ld_valid P im"
  shows "ctypes_float_complex_val P (ctypes_copy_float_complex P f) = Inr f \<and>
    ctypes_double_complex_val (ctypes_copy_double_complex d) = Inr d \<and>
    (\<exists>z. ctypes_ldouble_complex_make P (ctypes_copy_ldouble P re) (ctypes_copy_ldouble P im) = Inr z \<and>
       ctypes_ldouble_complex_real P z = Inr (ctypes_copy_ldouble P re) \<and>
       ctypes_ldouble_complex_imag P z = Inr (ctypes_copy_ldouble P im))"
proof (intro conjI)
  show "ctypes_float_complex_val P (ctypes_copy_float_complex P f) = Inr f"
    using float_double_float [OF assms(1,2)] float_double_float [OF assms(1,3)]
    by (simp add: ctypes_float_complex_val_def ctypes_copy_float_complex_def allocate_complex_value_def
        ctypes_compat_creal_def ctypes_compat_cimag_def ctypes_compat_make_complex_def)
  show "ctypes_double_complex_val (ctypes_copy_double_complex d) = Inr d"
    by (simp add: ctypes_double_complex_val_def ctypes_copy_double_complex_def allocate_complex_value_def)
  show "\<exists>z. ctypes_ldouble_complex_make P (ctypes_copy_ldouble P re) (ctypes_copy_ldouble P im) = Inr z \<and>
       ctypes_ldouble_complex_real P z = Inr (ctypes_copy_ldouble P re) \<and>
       ctypes_ldouble_complex_imag P z = Inr (ctypes_copy_ldouble P im)"
    using ldouble_complex_val_copy [of P "(re, im)"] assms(4-6)
    by (simp add: ctypes_ldouble_complex_make_def ctypes_ldouble_complex_real_def
        ctypes_ldouble_complex_imag_def ctypes_compat_creal_def ctypes_compat_cimag_def
        ctypes_compat_make_complex_def)
qed

theorem complex_value_roundtrip_witness:
  "ctypes_float_complex_val lp64 (ctypes_copy_float_complex lp64 (0x3F800000, 0x80000000)) =
     Inr (0x3F800000, 0x80000000)"
proof -
  have "decode F32 0x3F800000 \<noteq> NaN" "decode F32 0x80000000 \<noteq> NaN"
    by (simp_all add: decode_def F32_def inf_mag_def sign_bit_def split: prod.split)
  moreover have "ld_valid lp64 0" "LDOUBLE_VALUE_BYTES lp64 \<le> sizeof_ldouble lp64"
    by (simp_all add: LDOUBLE_VALUE_BYTES_def ld_valid_def in_urange_def canonical_x87_def)
  ultimately show ?thesis
    using complex_value_roundtrip [OF platform_ok_lp64, of "(0x3F800000, 0x80000000)" 0 0] by simp
qed

lemma complex_cmp_cases:
  "fst (ldouble_complex_cmp P x y) =
     (if fst (ldouble_cmp P (fst x) (fst y)) = 0 then fst (ldouble_cmp P (snd x) (snd y))
      else fst (ldouble_cmp P (fst x) (fst y)))"
  by (simp add: ldouble_complex_cmp_def ctypes_compat_creal_def ctypes_compat_cimag_def
      split: prod.split)

text \<open>
  Complex numbers are compared lexicographically, real part first, and this too is a total
  preorder: the sign flips with the arguments and the order is transitive.
\<close>

theorem complex_cmp_total_preorder:
  "fst (ldouble_complex_cmp P y x) = - fst (ldouble_complex_cmp P x y) \<and>
   (fst (ldouble_complex_cmp P x y) \<le> 0 \<and> fst (ldouble_complex_cmp P y z) \<le> 0 \<longrightarrow>
      fst (ldouble_complex_cmp P x z) \<le> 0)"
proof
  have A: "fst (ldouble_cmp P b a) = - fst (ldouble_cmp P a b)" for a b by (rule ldouble_cmp_antisym)
  show "fst (ldouble_complex_cmp P y x) = - fst (ldouble_complex_cmp P x y)"
    using A [of "fst x" "fst y"] A [of "snd x" "snd y"] by (auto simp: complex_cmp_cases)
  have L: "fst (ldouble_complex_cmp P a b) \<le> 0 \<longleftrightarrow>
      ld_le P (fst a) (fst b) \<and> (ld_le P (fst b) (fst a) \<longrightarrow> ld_le P (snd a) (snd b))" for a b
    using ldouble_cmp_le [of P "fst a" "fst b"] ldouble_cmp_le [of P "snd a" "snd b"]
    by (auto simp: complex_cmp_cases)
  show "fst (ldouble_complex_cmp P x y) \<le> 0 \<and> fst (ldouble_complex_cmp P y z) \<le> 0 \<longrightarrow>
      fst (ldouble_complex_cmp P x z) \<le> 0"
    unfolding L by (meson ld_le_trans)
qed

theorem complex_cmp_total_preorder_witness:
  "fst (ldouble_complex_cmp lp64 (0, 0) (0, 0x3FFF8000000000000000)) = -1 \<and>
   fst (ldouble_complex_cmp lp64 (0, 0) (0, 0x40008000000000000000)) \<le> 0"
proof -
  have "ldouble_complex_cmp lp64 (0, 0x3FFF8000000000000000) (0, 0) = (1, False)"
    "fst (ldouble_complex_cmp lp64 (0, 0x3FFF8000000000000000) (0, 0x40008000000000000000)) \<le> 0"
    by (simp_all add: ldouble_complex_cmp_def ctypes_compat_creal_def ctypes_compat_cimag_def
        ldouble_cmp_def ld_decode_def decode_x87_def Let_def align_def signed_mant_def emin_def X87_def)
  then show ?thesis
    using complex_cmp_total_preorder [of lp64 "(0, 0x3FFF8000000000000000)" "(0, 0)" "(0, 0x40008000000000000000)"]
    by simp
qed

text \<open>
  The hash of complex numbers respects their comparison, whatever the padding of the two
  parts.
\<close>

theorem complex_hash_respects_cmp:
  assumes "ld_ieee P" "LDBL_MANT_DIG P = 64 \<longrightarrow> \<not> big_endian P"
    and "hash_lib_ok H" "nan_ok F64 (double_nan P)"
    and "ld_valid P (fst x)" "ld_valid P (snd x)" "ld_valid P (fst y)" "ld_valid P (snd y)"
    and "fst (ldouble_complex_cmp P x y) = 0"
  shows "ldouble_complex_mix (P\<lparr>ld_pad := p\<rparr>) H nanv x = ldouble_complex_mix (P\<lparr>ld_pad := q\<rparr>) H nanv y"
proof -
  have "fst (ldouble_cmp P (fst x) (fst y)) = 0" "fst (ldouble_cmp P (snd x) (snd y)) = 0"
    using assms(9) by (auto simp: complex_cmp_cases split: if_splits)
  then have "ldouble_mix_hash P H nanv h (fst x) = ldouble_mix_hash P H nanv h (fst y)"
    "ldouble_mix_hash P H nanv h (snd x) = ldouble_mix_hash P H nanv h (snd y)" for h
    using assms(5-8) by (auto intro: ldouble_mix_hash_cong [OF assms(1,3,4)])
  then show ?thesis
    by (simp add: ldouble_complex_mix_def ldouble_mix_hash_pad [OF assms(1,2)]
        ctypes_compat_creal_def ctypes_compat_cimag_def)
qed

theorem complex_hash_respects_cmp_witness:
  "ldouble_complex_mix (lp64\<lparr>ld_pad := 0\<rparr>) mix_example 7 (0, 2 ^ 79) =
   ldouble_complex_mix (lp64\<lparr>ld_pad := 0xFF\<rparr>) mix_example 7 (2 ^ 79, 0)"
proof (rule complex_hash_respects_cmp [of lp64])
  show "nan_ok F64 (double_nan lp64)" using platform_ok_lp64 by (simp add: platform_ok_def)
  show "fst (ldouble_complex_cmp lp64 (0, 2 ^ 79) (2 ^ 79, 0)) = 0"
    by (simp add: complex_cmp_cases ldouble_cmp_eq0 ld_decode_def decode_x87_def align_def signed_mant_def)
qed (simp_all add: mix_example_ok ld_valid_def LDOUBLE_VALUE_BYTES_def in_urange_def
    canonical_x87_def ld_ieee_def ld_decode_def decode_x87_def)

text \<open>
  C31: a complex number that is serialized and read back on the same platform has the same
  parts bit for bit in the 10 and 16 byte formats, signed zeros and NaN payloads included
  (the parts are not normalised), and in the 8 byte format whenever no part is a NaN.
\<close>

theorem complex_serialize_roundtrip:
  assumes "marshal_ok M" "ld_ieee P" "nan_ok F64 (double_nan P)"
    and "LDBL_MANT_DIG P = 53 \<longrightarrow> nan_ok F64 (ldouble_nan P)"
    and "ld_valid P re" "ld_valid P im"
    and "LDBL_MANT_DIG P = 53 \<longrightarrow> ld_decode P re \<noteq> NaN \<and> ld_decode P im \<noteq> NaN"
  shows "\<exists>bs st. ldouble_complex_serialize P M (ctypes_copy_ldouble_complex P (re, im)) =
      Inr (bs, 2 * sizeof_ldouble P, 2 * sizeof_ldouble P) \<and>
    ldouble_complex_deserialize P M q (bs @ r) = Inr (st, 2 * sizeof_ldouble P, r) \<and>
    ldouble_complex_custom_val P (Custom_block ''ctypes:ldouble_complex'' st) = Inr (re, im)"
proof -
  have I: "marshal_interface M" by unfold_locales (rule assms(1))
  let ?d = "ldouble_serialize_data P M re" and ?e = "ldouble_serialize_data P M im"
  have "\<exists>st. ldouble_deserialize_data P M q (ldouble_serialize_data P M x @ s) = Inr (st, s) \<and>
      ld_of_storage P st = x" if "x \<in> {re, im}" for x s
    using marshal_interface.data_roundtrip [OF I assms(2,3) _ assms(4), of x q s] that assms(5-7) by auto
  note D = this
  obtain s1 where s1: "ldouble_deserialize_data P M q (?d @ ?e @ r) = Inr (s1, ?e @ r)"
    "ld_of_storage P s1 = re" using D [of re "?e @ r"] by auto
  obtain s2 where s2: "ldouble_deserialize_data P M q (?e @ r) = Inr (s2, r)"
    "ld_of_storage P s2 = im" using D [of im r] by auto
  have "in_urange 1 (int (LDBL_MANT_DIG P))"
    using assms(2) by (auto simp: ld_ieee_def in_urange_def)
  then have k: "caml_deserialize_uint_1 M (caml_serialize_int_1 M (int (LDBL_MANT_DIG P)) @ ?d @ ?e @ r) =
      Some (int (LDBL_MANT_DIG P), ?d @ ?e @ r)"
    by (rule marshal_interface.int_1 [OF I])
  have v: "LDOUBLE_VALUE_BYTES P \<le> sizeof_ldouble P" using assms(2) by (simp add: ld_ieee_def)
  note c = ldouble_complex_val_copy [of P "(re, im)"]
  then have "ldouble_complex_custom_val P (ctypes_copy_ldouble_complex P (re, im)) = Inr (re, im)"
    using v assms(5,6) by simp
  then show ?thesis
    using s1 s2 k by (simp add: ldouble_complex_serialize_def ldouble_complex_deserialize_def Let_def
        ctypes_compat_creal_def ctypes_compat_cimag_def ctypes_compat_make_complex_def
        ctypes_copy_ldouble_complex_def)
qed

theorem complex_serialize_roundtrip_witness:
  "\<exists>bs st. ldouble_complex_serialize lp64 (net_marshal lp64) (ctypes_copy_ldouble_complex lp64 (2 ^ 79, 5)) =
      Inr (bs, 32, 32) \<and>
    ldouble_complex_deserialize lp64 (net_marshal lp64) [] (bs @ [7]) = Inr (st, 32, [7])"
proof -
  have i: "ld_ieee lp64" "LDBL_MANT_DIG lp64 = 64" "sizeof_ldouble lp64 = 16"
    by (simp_all add: ld_ieee_def LDOUBLE_VALUE_BYTES_def ld_decode_def decode_x87_def)
  have v: "ld_valid lp64 (2 ^ 79)" "ld_valid lp64 5"
    by (simp_all add: ld_valid_def LDOUBLE_VALUE_BYTES_def in_urange_def canonical_x87_def)
  have n: "nan_ok F64 (double_nan lp64)" using platform_ok_lp64 by (simp add: platform_ok_def)
  have p: "LDBL_MANT_DIG lp64 = 53 \<longrightarrow> X" for X unfolding i(2) by simp
  have d: "2 * 16 = (32 :: nat)" by simp
  show ?thesis
    using complex_serialize_roundtrip [OF net_marshal_ok i(1) n p v p, of lp64 "[]" "[7]"]
    unfolding i(3) d by blast
qed

text \<open>
  Where the C library lacks a complex function the stub raises \<open>Failure\<close> with its name and
  nothing else fails: on Android for \<open>csqrtl\<close>, \<open>cexpl\<close>, \<open>clogl\<close> and \<open>cpowl\<close>, on FreeBSD for
  \<open>cexpl\<close> only, never for \<open>conjl\<close>.
\<close>

theorem complex_missing_functions:
  assumes "ldouble_complex_custom_val P a = Inr z" "ldouble_complex_custom_val P b = Inr w"
  shows "ctypes_ldouble_complex_fn1 P C f a =
      (if f = Csqrtl \<and> os P = Android then Inl (Failure ''ctypes: csqrtl does not exist on current platform'')
       else if f = Cexpl \<and> os P \<in> {Android, FreeBSD} then Inl (Failure ''ctypes: cexpl does not exist on current platform'')
       else if f = Clogl \<and> os P = Android then Inl (Failure ''ctypes: clogl does not exist on current platform'')
       else Inr (ctypes_copy_ldouble_complex P
              (case f of Conjl \<Rightarrow> (fst z, ld_neg P (snd z)) | Csqrtl \<Rightarrow> csqrtl C z | Cexpl \<Rightarrow> cexpl C z | Clogl \<Rightarrow> clogl C z))) \<and>
    ctypes_ldouble_complex_cpowl P C a b =
      (if os P = Android then Inl (Failure ''ctypes: cpowl does not exist on current platform'')
       else Inr (ctypes_copy_ldouble_complex P (cpowl C z w)))"
  using assms
  by (cases f) (simp_all add: ctypes_ldouble_complex_fn1_def ctypes_ldouble_complex_cpowl_def missing_def
      ctypes_compat_conjl_def ctypes_compat_csqrtl_def ctypes_compat_cexpl_def ctypes_compat_clogl_def
      ctypes_compat_cpowl_def)

definition complex_example :: complex_lib where
  "complex_example = \<lparr>cmull = (\<lambda>x y. x), cdivl = (\<lambda>x y. x), csqrtl = (\<lambda>x. x), cexpl = (\<lambda>x. x),
     clogl = (\<lambda>x. x), cpowl = (\<lambda>x y. x), cargl = fst, atan2_double = (\<lambda>x y. x)\<rparr>"

theorem complex_missing_functions_witness:
  "ctypes_ldouble_complex_fn1 (lp64\<lparr>os := FreeBSD\<rparr>) complex_example Cexpl
      (Custom_block ''ctypes:ldouble_complex'' []) =
     Inl (Failure ''ctypes: cexpl does not exist on current platform'')"
proof -
  have "\<exists>z. ldouble_complex_custom_val (lp64\<lparr>os := FreeBSD\<rparr>) (Custom_block ''ctypes:ldouble_complex'' []) = Inr z"
    by (simp add: ldouble_complex_custom_val_def)
  then show ?thesis using complex_missing_functions [of "lp64\<lparr>os := FreeBSD\<rparr>"] by fastforce
qed

end
