(* ===== verification/Type_Info.thy ===== *)
theory Type_Info
  imports Managed_Buffer Complex_Numbers
begin

text \<open>
  \<open>type_info_stubs.c\<close>: reading, writing and printing a value of a primitive type, and the same
  for pointers.  A stub takes the OCaml constructor of the type and a fat pointer; the
  switch on the constructor is one equation per case label.  The length-limited formatting
  functions of the C library print integers here; the \<open>%g\<close> and \<open>%p\<close> conversions are
  parameters.  Reading a \<open>_Bool\<close> whose bytes are neither 0 nor 1 is undefined in C; it gives true here.
\<close>

section \<open>Floating objects in memory\<close>

definition load_ld :: "platform \<Rightarrow> memory \<Rightarrow> nat \<Rightarrow> ldouble result" where
  "load_ld P m a =
     bindR (need Memory_fault (load_bytes m a (sizeof_ldouble P))) (\<lambda>bs. Inr (ld_of_storage P bs))"

definition store_ld :: "platform \<Rightarrow> memory \<Rightarrow> nat \<Rightarrow> ldouble \<Rightarrow> memory result" where
  "store_ld P m a u = need Memory_fault (store_bytes m a (ld_storage P u))"

text \<open>An object of complex type is an array of its two parts.\<close>

definition load_parts :: "(nat \<Rightarrow> 'a result) \<Rightarrow> nat \<Rightarrow> nat \<Rightarrow> ('a c_complex) result" where
  "load_parts load a n = bindR (load a) (\<lambda>re. bindR (load (a + n)) (\<lambda>im. Inr (re, im)))"

definition store_parts ::
    "(memory \<Rightarrow> nat \<Rightarrow> 'a \<Rightarrow> memory result) \<Rightarrow> memory \<Rightarrow> nat \<Rightarrow> nat \<Rightarrow> 'a c_complex \<Rightarrow> memory result" where
  "store_parts store m a n z = bindR (store m a (fst z)) (\<lambda>m'. store m' (a + n) (snd z))"

definition load_word :: "platform \<Rightarrow> nat \<Rightarrow> memory \<Rightarrow> nat \<Rightarrow> ('w::len word) result" where
  "load_word P n m a = bindR (load_u P m a n) (\<lambda>x. Inr (word_of_int x))"

definition store_word :: "platform \<Rightarrow> nat \<Rightarrow> memory \<Rightarrow> nat \<Rightarrow> 'w::len word \<Rightarrow> memory result" where
  "store_word P n m a w = store_int P m a n (uint w)"

section \<open>Reading\<close>

fun read_prim :: "platform \<Rightarrow> integers_lib \<Rightarrow> ctypes_primitive \<Rightarrow> memory \<Rightarrow> nat \<Rightarrow> value result" where
  "read_prim P L Ctypes_Char m a = bindR (load_u P m a 1) (\<lambda>x. Inr (Val_int P x))"
| "read_prim P L Ctypes_Schar m a = bindR (load_s P m a 1) (\<lambda>x. Inr (Val_int P x))"
| "read_prim P L Ctypes_Uchar m a = bindR (load_u P m a 1) (\<lambda>x. Inr (Integers_val_uint8 L x))"
| "read_prim P L Ctypes_Bool m a = bindR (load_u P m a (sizeof_bool P)) (\<lambda>x. Inr (Val_bool P x))"
| "read_prim P L Ctypes_Short m a = bindR (load_s P m a (sizeof_short P)) (\<lambda>x. Inr (Val_int P x))"
| "read_prim P L Ctypes_Int m a = bindR (load_s P m a (sizeof_int P)) (\<lambda>x. Inr (Val_int P x))"
| "read_prim P L Ctypes_Long m a = bindR (load_s P m a (sizeof_long P)) (copy_by L (long_rep P))"
| "read_prim P L Ctypes_Llong m a = bindR (load_s P m a (sizeof_llong P)) (copy_by L (llong_rep P))"
| "read_prim P L Ctypes_Ushort m a = bindR (load_u P m a (sizeof_short P)) (copy_by L (ushort_rep P))"
| "read_prim P L Ctypes_Sint m a = bindR (load_s P m a (sizeof_int P)) (copy_by L (sint_rep P))"
| "read_prim P L Ctypes_Uint m a = bindR (load_u P m a (sizeof_int P)) (copy_by L (uint_rep P))"
| "read_prim P L Ctypes_Ulong m a = bindR (load_u P m a (sizeof_long P)) (copy_by L (ulong_rep P))"
| "read_prim P L Ctypes_Ullong m a = bindR (load_u P m a (sizeof_llong P)) (copy_by L (ullong_rep P))"
| "read_prim P L Ctypes_Size_t m a = bindR (load_u P m a (sizeof_size_t P)) (copy_by L (size_t_rep P))"
| "read_prim P L Ctypes_Int8_t m a = bindR (load_s P m a 1) (\<lambda>x. Inr (Val_int P x))"
| "read_prim P L Ctypes_Int16_t m a = bindR (load_s P m a 2) (\<lambda>x. Inr (Val_int P x))"
| "read_prim P L Ctypes_Int32_t m a = bindR (load_s P m a 4) (\<lambda>x. Inr (caml_copy_int32 x))"
| "read_prim P L Ctypes_Int64_t m a = bindR (load_s P m a 8) (\<lambda>x. Inr (caml_copy_int64 x))"
| "read_prim P L Ctypes_Uint8_t m a = bindR (load_u P m a 1) (\<lambda>x. Inr (Integers_val_uint8 L x))"
| "read_prim P L Ctypes_Uint16_t m a = bindR (load_u P m a 2) (\<lambda>x. Inr (Integers_val_uint16 L x))"
| "read_prim P L Ctypes_Uint32_t m a = bindR (load_u P m a 4) (\<lambda>x. Inr (integers_copy_uint32 L x))"
| "read_prim P L Ctypes_Uint64_t m a = bindR (load_u P m a 8) (\<lambda>x. Inr (integers_copy_uint64 L x))"
| "read_prim P L Ctypes_Camlint m a = bindR (load_s P m a (sizeof_ptr P)) (\<lambda>x. Inr (Val_long P x))"
| "read_prim P L Ctypes_Nativeint m a = bindR (load_s P m a (sizeof_ptr P)) (\<lambda>x. Inr (caml_copy_nativeint P x))"
| "read_prim P L Ctypes_Float m a = bindR (load_word P 4 m a) (\<lambda>f. Inr (Double_block (float_to_double P f)))"
| "read_prim P L Ctypes_Double m a = bindR (load_word P 8 m a) (\<lambda>d. Inr (Double_block d))"
| "read_prim P L Ctypes_LDouble m a = bindR (load_ld P m a) (\<lambda>u. Inr (ctypes_copy_ldouble P u))"
| "read_prim P L Ctypes_Complex32 m a =
     bindR (load_parts (load_word P 4 m) a 4) (\<lambda>c. Inr (ctypes_copy_float_complex P c))"
| "read_prim P L Ctypes_Complex64 m a =
     bindR (load_parts (load_word P 8 m) a 8) (\<lambda>c. Inr (ctypes_copy_double_complex c))"
| "read_prim P L Ctypes_Complexld m a =
     bindR (load_parts (load_ld P m) a (sizeof_ldouble P)) (\<lambda>c. Inr (ctypes_copy_ldouble_complex P c))"

definition ctypes_read :: "platform \<Rightarrow> integers_lib \<Rightarrow> value \<Rightarrow> value \<Rightarrow> memory \<Rightarrow> value result" where
  "ctypes_read P L prim buffer m =
     bindR (CTYPES_ADDR_OF_FATPTR P buffer) (\<lambda>buf.
     bindR (prim_of P prim) (\<lambda>p. read_prim P L p m buf))"

section \<open>Writing\<close>

fun write_prim ::
    "platform \<Rightarrow> integers_lib \<Rightarrow> ctypes_primitive \<Rightarrow> value \<Rightarrow> memory \<Rightarrow> nat \<Rightarrow> memory result" where
  "write_prim P L Ctypes_Char v m a = bindR (Int_val P v) (store_int P m a 1)"
| "write_prim P L Ctypes_Schar v m a = bindR (Int_val P v) (store_int P m a 1)"
| "write_prim P L Ctypes_Uchar v m a = bindR (Uint8_val L v) (store_int P m a 1)"
| "write_prim P L Ctypes_Bool v m a =
     bindR (Bool_val P v) (\<lambda>x. store_int P m a (sizeof_bool P) (if x \<noteq> 0 then 1 else 0))"
| "write_prim P L Ctypes_Short v m a = bindR (Int_val P v) (store_int P m a (sizeof_short P))"
| "write_prim P L Ctypes_Int v m a = bindR (Int_val P v) (store_int P m a (sizeof_int P))"
| "write_prim P L Ctypes_Long v m a = bindR (val_by L (long_rep P) v) (store_int P m a (sizeof_long P))"
| "write_prim P L Ctypes_Llong v m a = bindR (val_by L (llong_rep P) v) (store_int P m a (sizeof_llong P))"
| "write_prim P L Ctypes_Ushort v m a = bindR (val_by L (ushort_rep P) v) (store_int P m a (sizeof_short P))"
| "write_prim P L Ctypes_Sint v m a = bindR (val_by L (sint_rep P) v) (store_int P m a (sizeof_int P))"
| "write_prim P L Ctypes_Uint v m a = bindR (val_by L (uint_rep P) v) (store_int P m a (sizeof_int P))"
| "write_prim P L Ctypes_Ulong v m a = bindR (val_by L (ulong_rep P) v) (store_int P m a (sizeof_long P))"
| "write_prim P L Ctypes_Ullong v m a = bindR (val_by L (ullong_rep P) v) (store_int P m a (sizeof_llong P))"
| "write_prim P L Ctypes_Size_t v m a = bindR (val_by L (size_t_rep P) v) (store_int P m a (sizeof_size_t P))"
| "write_prim P L Ctypes_Int8_t v m a = bindR (Int_val P v) (store_int P m a 1)"
| "write_prim P L Ctypes_Int16_t v m a = bindR (Int_val P v) (store_int P m a 2)"
| "write_prim P L Ctypes_Int32_t v m a = bindR (Int32_val v) (store_int P m a 4)"
| "write_prim P L Ctypes_Int64_t v m a = bindR (Int64_val v) (store_int P m a 8)"
| "write_prim P L Ctypes_Uint8_t v m a = bindR (Uint8_val L v) (store_int P m a 1)"
| "write_prim P L Ctypes_Uint16_t v m a = bindR (Uint16_val L v) (store_int P m a 2)"
| "write_prim P L Ctypes_Uint32_t v m a = bindR (Uint32_val L v) (store_int P m a 4)"
| "write_prim P L Ctypes_Uint64_t v m a = bindR (Uint64_val L v) (store_int P m a 8)"
| "write_prim P L Ctypes_Camlint v m a = bindR (Long_val v) (store_int P m a (sizeof_ptr P))"
| "write_prim P L Ctypes_Nativeint v m a = bindR (Nativeint_val v) (store_int P m a (sizeof_ptr P))"
| "write_prim P L Ctypes_Float v m a = bindR (Double_val v) (\<lambda>d. store_word P 4 m a (double_to_float P d))"
| "write_prim P L Ctypes_Double v m a = bindR (Double_val v) (store_word P 8 m a)"
| "write_prim P L Ctypes_LDouble v m a = bindR (ctypes_ldouble_val P v) (store_ld P m a)"
| "write_prim P L Ctypes_Complex32 v m a =
     bindR (ctypes_float_complex_val P v) (store_parts (store_word P 4) m a 4)"
| "write_prim P L Ctypes_Complex64 v m a =
     bindR (ctypes_double_complex_val v) (store_parts (store_word P 8) m a 8)"
| "write_prim P L Ctypes_Complexld v m a =
     bindR (ctypes_ldouble_complex_val P v) (store_parts (store_ld P) m a (sizeof_ldouble P))"

definition ctypes_write ::
    "platform \<Rightarrow> integers_lib \<Rightarrow> value \<Rightarrow> value \<Rightarrow> value \<Rightarrow> memory \<Rightarrow> (memory \<times> value) result" where
  "ctypes_write P L prim v buffer m =
     bindR (CTYPES_ADDR_OF_FATPTR P buffer) (\<lambda>buf.
     bindR (prim_of P prim) (\<lambda>p.
     bindR (write_prim P L p v m buf) (\<lambda>m'. Inr (m', Val_unit))))"

section \<open>Pointers\<close>

definition ctypes_read_pointer :: "platform \<Rightarrow> value \<Rightarrow> memory \<Rightarrow> value result" where
  "ctypes_read_pointer P vsrc m =
     bindR (CTYPES_ADDR_OF_FATPTR P vsrc) (\<lambda>src.
     bindR (load_u P m src (sizeof_ptr P)) (\<lambda>x. Inr (CTYPES_FROM_PTR P (nat x))))"

definition ctypes_write_pointer :: "platform \<Rightarrow> value \<Rightarrow> value \<Rightarrow> memory \<Rightarrow> (memory \<times> value) result" where
  "ctypes_write_pointer P p vdst m =
     bindR (CTYPES_ADDR_OF_FATPTR P vdst) (\<lambda>dst.
     bindR (CTYPES_ADDR_OF_FATPTR P p) (\<lambda>a.
     bindR (store_int P m dst (sizeof_ptr P) (int a)) (\<lambda>m'. Inr (m', Val_unit))))"

section \<open>Printing\<close>

text \<open>ASCII digits, and \<open>%d\<close>, \<open>%u\<close> and their length-modified forms on a value of their type.\<close>

definition digit :: "nat \<Rightarrow> byte" where
  "digit n = of_nat (48 + n)"

fun digits :: "nat \<Rightarrow> byte list" where
  "digits n = (if n < 10 then [digit n] else digits (n div 10) @ [digit (n mod 10)])"

declare digits.simps [simp del]

definition printf_d :: "int \<Rightarrow> byte list" where
  "printf_d x = (if x < 0 then 45 # digits (nat (- x)) else digits (nat x))"

record printf_lib =
  printf_g12 :: "64 word \<Rightarrow> byte list"
  printf_Lg12 :: "ldouble \<Rightarrow> byte list"
  printf_p :: "nat \<Rightarrow> byte list"

fun prim_text ::
    "platform \<Rightarrow> integers_lib \<Rightarrow> printf_lib \<Rightarrow> ctypes_primitive \<Rightarrow> value \<Rightarrow> byte list result" where
  "prim_text P L F Ctypes_Char v = bindR (Int_val P v) (\<lambda>x. Inr [39, word_of_int x, 39])"
| "prim_text P L F Ctypes_Schar v = bindR (Int_val P v) (\<lambda>x. Inr (printf_d x))"
| "prim_text P L F Ctypes_Uchar v = bindR (Uint8_val L v) (\<lambda>x. Inr (printf_d (uwrap 1 x)))"
| "prim_text P L F Ctypes_Bool v =
     bindR (Bool_val P v) (\<lambda>x. Inr (ascii (if x \<noteq> 0 then ''true'' else ''false'')))"
| "prim_text P L F Ctypes_Short v = bindR (Int_val P v) (\<lambda>x. Inr (printf_d (swrap (sizeof_short P) x)))"
| "prim_text P L F Ctypes_Int v = bindR (Int_val P v) (\<lambda>x. Inr (printf_d x))"
| "prim_text P L F Ctypes_Long v =
     bindR (val_by L (long_rep P) v) (\<lambda>x. Inr (printf_d (swrap (sizeof_long P) x)))"
| "prim_text P L F Ctypes_Llong v =
     bindR (val_by L (llong_rep P) v) (\<lambda>x. Inr (printf_d (swrap (sizeof_llong P) x)))"
| "prim_text P L F Ctypes_Ushort v =
     bindR (val_by L (ushort_rep P) v) (\<lambda>x. Inr (printf_d (uwrap (sizeof_short P) x)))"
| "prim_text P L F Ctypes_Sint v =
     bindR (val_by L (sint_rep P) v) (\<lambda>x. Inr (printf_d (swrap (sizeof_int P) x)))"
| "prim_text P L F Ctypes_Uint v =
     bindR (val_by L (uint_rep P) v) (\<lambda>x. Inr (printf_d (uwrap (sizeof_int P) x)))"
| "prim_text P L F Ctypes_Ulong v =
     bindR (val_by L (ulong_rep P) v) (\<lambda>x. Inr (printf_d (uwrap (sizeof_long P) x)))"
| "prim_text P L F Ctypes_Ullong v =
     bindR (val_by L (ullong_rep P) v) (\<lambda>x. Inr (printf_d (uwrap (sizeof_llong P) x)))"
| "prim_text P L F Ctypes_Size_t v =
     bindR (val_by L (size_t_rep P) v) (\<lambda>x. Inr (printf_d (uwrap (sizeof_size_t P) x)))"
| "prim_text P L F Ctypes_Int8_t v = bindR (Int_val P v) (\<lambda>x. Inr (printf_d (swrap 1 x)))"
| "prim_text P L F Ctypes_Int16_t v = bindR (Int_val P v) (\<lambda>x. Inr (printf_d (swrap 2 x)))"
| "prim_text P L F Ctypes_Int32_t v = bindR (Int32_val v) (\<lambda>x. Inr (printf_d (swrap 4 x)))"
| "prim_text P L F Ctypes_Int64_t v = bindR (Int64_val v) (\<lambda>x. Inr (printf_d (swrap 8 x)))"
| "prim_text P L F Ctypes_Uint8_t v = bindR (Uint8_val L v) (\<lambda>x. Inr (printf_d (uwrap 1 x)))"
| "prim_text P L F Ctypes_Uint16_t v = bindR (Uint16_val L v) (\<lambda>x. Inr (printf_d (uwrap 2 x)))"
| "prim_text P L F Ctypes_Uint32_t v = bindR (Uint32_val L v) (\<lambda>x. Inr (printf_d (uwrap 4 x)))"
| "prim_text P L F Ctypes_Uint64_t v = bindR (Uint64_val L v) (\<lambda>x. Inr (printf_d (uwrap 8 x)))"
| "prim_text P L F Ctypes_Camlint v = bindR (Long_val v) (\<lambda>x. Inr (printf_d x))"
| "prim_text P L F Ctypes_Nativeint v = bindR (Nativeint_val v) (\<lambda>x. Inr (printf_d (swrap (sizeof_ptr P) x)))"
| "prim_text P L F Ctypes_Float v = bindR (Double_val v) (\<lambda>d. Inr (printf_g12 F d))"
| "prim_text P L F Ctypes_Double v = bindR (Double_val v) (\<lambda>d. Inr (printf_g12 F d))"
| "prim_text P L F Ctypes_LDouble v = bindR (ctypes_ldouble_val P v) (\<lambda>u. Inr (printf_Lg12 F u))"
| "prim_text P L F Ctypes_Complex32 v =
     bindR (ctypes_float_complex_val P v) (\<lambda>c.
       Inr (printf_g12 F (float_to_double P (ctypes_compat_creal c)) @ ascii ''+'' @
            printf_g12 F (float_to_double P (ctypes_compat_cimag c)) @ ascii ''i''))"
| "prim_text P L F Ctypes_Complex64 v =
     bindR (ctypes_double_complex_val v) (\<lambda>c.
       Inr (printf_g12 F (ctypes_compat_creal c) @ ascii ''+'' @
            printf_g12 F (ctypes_compat_cimag c) @ ascii ''i''))"
| "prim_text P L F Ctypes_Complexld v =
     bindR (ctypes_ldouble_complex_val P v) (\<lambda>c.
       Inr (printf_Lg12 F (ctypes_compat_creal c) @ ascii ''+'' @
            printf_Lg12 F (ctypes_compat_cimag c) @ ascii ''i''))"

text \<open>\<open>snprintf\<close> into a buffer of \<open>n\<close> bytes: at most \<open>n - 1\<close> characters and a NUL.\<close>

definition snprintf :: "nat \<Rightarrow> byte list \<Rightarrow> byte list \<times> nat" where
  "snprintf n text = (take (n - 1) text @ [0], length text)"

text \<open>
  The copy out of the buffer takes the length \<open>snprintf\<close> returned, which is the untruncated
  one: a text of more than 64 bytes would be read past the end of the buffer.
\<close>

definition ctypes_string_of_prim ::
    "platform \<Rightarrow> integers_lib \<Rightarrow> printf_lib \<Rightarrow> value \<Rightarrow> value \<Rightarrow> value result" where
  "ctypes_string_of_prim P L F prim v =
     bindR (prim_of P prim) (\<lambda>p.
     bindR (prim_text P L F p v) (\<lambda>text.
       case snprintf 64 text of (buf, len) \<Rightarrow>
         if len \<le> length buf then Inr (String_block (take len buf)) else Inl Memory_fault))"

definition ctypes_string_of_pointer :: "platform \<Rightarrow> printf_lib \<Rightarrow> value \<Rightarrow> value result" where
  "ctypes_string_of_pointer P F p =
     bindR (CTYPES_ADDR_OF_FATPTR P p) (\<lambda>a.
       Inr (String_block (takeWhile (\<lambda>b. b \<noteq> 0) (fst (snprintf 32 (printf_p F a))))))"

end
