(* ===== verification/Type_Info_Correct.thy ===== *)
theory Type_Info_Correct
  imports Type_Info
begin

text \<open>
  Correctness of \<open>ctypes_read\<close> and \<open>ctypes_write\<close>: the OCaml values that represent each
  primitive type, that a written value is read back, that a value read is such a value, the
  truncation of what does not fit, the bytes that are touched, and when an access faults.
\<close>

section \<open>Sizes and representations\<close>

fun prim_bytes :: "platform \<Rightarrow> ctypes_primitive \<Rightarrow> nat" where
  "prim_bytes P Ctypes_Char = 1" | "prim_bytes P Ctypes_Schar = 1" | "prim_bytes P Ctypes_Uchar = 1"
| "prim_bytes P Ctypes_Bool = sizeof_bool P"
| "prim_bytes P Ctypes_Short = sizeof_short P" | "prim_bytes P Ctypes_Ushort = sizeof_short P"
| "prim_bytes P Ctypes_Int = sizeof_int P" | "prim_bytes P Ctypes_Sint = sizeof_int P"
| "prim_bytes P Ctypes_Uint = sizeof_int P"
| "prim_bytes P Ctypes_Long = sizeof_long P" | "prim_bytes P Ctypes_Ulong = sizeof_long P"
| "prim_bytes P Ctypes_Llong = sizeof_llong P" | "prim_bytes P Ctypes_Ullong = sizeof_llong P"
| "prim_bytes P Ctypes_Size_t = sizeof_size_t P"
| "prim_bytes P Ctypes_Int8_t = 1" | "prim_bytes P Ctypes_Int16_t = 2"
| "prim_bytes P Ctypes_Int32_t = 4" | "prim_bytes P Ctypes_Int64_t = 8"
| "prim_bytes P Ctypes_Uint8_t = 1" | "prim_bytes P Ctypes_Uint16_t = 2"
| "prim_bytes P Ctypes_Uint32_t = 4" | "prim_bytes P Ctypes_Uint64_t = 8"
| "prim_bytes P Ctypes_Camlint = sizeof_ptr P" | "prim_bytes P Ctypes_Nativeint = sizeof_ptr P"
| "prim_bytes P Ctypes_Float = 4" | "prim_bytes P Ctypes_Double = 8"
| "prim_bytes P Ctypes_LDouble = sizeof_ldouble P"
| "prim_bytes P Ctypes_Complex32 = 8" | "prim_bytes P Ctypes_Complex64 = 16"
| "prim_bytes P Ctypes_Complexld = 2 * sizeof_ldouble P"

text \<open>The integer types whose OCaml representation is chosen by a ladder, with it.\<close>

fun prim_rep :: "platform \<Rightarrow> ctypes_primitive \<Rightarrow> int_rep option" where
  "prim_rep P Ctypes_Long = long_rep P" | "prim_rep P Ctypes_Llong = llong_rep P"
| "prim_rep P Ctypes_Ushort = ushort_rep P" | "prim_rep P Ctypes_Sint = sint_rep P"
| "prim_rep P Ctypes_Uint = uint_rep P" | "prim_rep P Ctypes_Ulong = ulong_rep P"
| "prim_rep P Ctypes_Ullong = ullong_rep P" | "prim_rep P Ctypes_Size_t = size_t_rep P"
| "prim_rep P _ = None"

definition f32_ok :: "32 word \<Rightarrow> bool" where
  "f32_ok f \<longleftrightarrow> decode F32 (unat f) \<noteq> NaN"

text \<open>
  The values a type has in OCaml: \<open>int\<close>s in the range of the C type, boxed integers, and
  floating values that the C type holds exactly.
\<close>

fun prim_repr :: "platform \<Rightarrow> integers_lib \<Rightarrow> ctypes_primitive \<Rightarrow> value \<Rightarrow> bool" where
  "prim_repr P L Ctypes_Char v = (\<exists>x. in_urange 1 x \<and> v = Val_int P x)"
| "prim_repr P L Ctypes_Schar v = (\<exists>x. in_srange 1 x \<and> v = Val_int P x)"
| "prim_repr P L Ctypes_Uchar v = (\<exists>x. in_urange 1 x \<and> v = Integers_val_uint8 L x)"
| "prim_repr P L Ctypes_Bool v = (\<exists>x. v = Val_bool P x)"
| "prim_repr P L Ctypes_Short v = (\<exists>x. in_srange (sizeof_short P) x \<and> oint_ok P x \<and> v = Val_int P x)"
| "prim_repr P L Ctypes_Int v = (\<exists>x. in_srange (sizeof_int P) x \<and> oint_ok P x \<and> v = Val_int P x)"
| "prim_repr P L Ctypes_Int8_t v = (\<exists>x. in_srange 1 x \<and> v = Val_int P x)"
| "prim_repr P L Ctypes_Int16_t v = (\<exists>x. in_srange 2 x \<and> v = Val_int P x)"
| "prim_repr P L Ctypes_Int32_t v = (\<exists>x. in_srange 4 x \<and> v = Int32_block x)"
| "prim_repr P L Ctypes_Int64_t v = (\<exists>x. in_srange 8 x \<and> v = Int64_block x)"
| "prim_repr P L Ctypes_Uint8_t v = (\<exists>x. in_urange 1 x \<and> v = Integers_val_uint8 L x)"
| "prim_repr P L Ctypes_Uint16_t v = (\<exists>x. in_urange 2 x \<and> v = Integers_val_uint16 L x)"
| "prim_repr P L Ctypes_Uint32_t v = (\<exists>x. in_urange 4 x \<and> v = integers_copy_uint32 L x)"
| "prim_repr P L Ctypes_Uint64_t v = (\<exists>x. in_urange 8 x \<and> v = integers_copy_uint64 L x)"
| "prim_repr P L Ctypes_Camlint v = (\<exists>x. oint_ok P x \<and> v = Val_long P x)"
| "prim_repr P L Ctypes_Nativeint v = (\<exists>x. in_srange (sizeof_ptr P) x \<and> v = Nativeint_block x)"
| "prim_repr P L Ctypes_Float v = (\<exists>f. f32_ok f \<and> v = Double_block (float_to_double P f))"
| "prim_repr P L Ctypes_Double v = (\<exists>d. v = Double_block d)"
| "prim_repr P L Ctypes_LDouble v = (\<exists>u. ld_valid P u \<and> v = ctypes_copy_ldouble P u)"
| "prim_repr P L Ctypes_Complex32 v =
     (\<exists>z. f32_ok (fst z) \<and> f32_ok (snd z) \<and> v = ctypes_copy_float_complex P z)"
| "prim_repr P L Ctypes_Complex64 v = (\<exists>z. v = ctypes_copy_double_complex z)"
| "prim_repr P L Ctypes_Complexld v =
     (\<exists>z. ld_valid P (fst z) \<and> ld_valid P (snd z) \<and> v = ctypes_copy_ldouble_complex P z)"
| "prim_repr P L p v =
     (\<exists>r x. prim_rep P p = Some r \<and> v = rep_copy L r x \<and>
        (if rep_signed r then in_srange (prim_bytes P p) x else in_urange (prim_bytes P p) x))"

section \<open>One store and one load\<close>

text \<open>What a write leaves: the region it may change, and what is mapped.\<close>

definition only_changes :: "nat \<Rightarrow> nat \<Rightarrow> memory \<Rightarrow> memory \<Rightarrow> bool" where
  "only_changes a n m m' \<longleftrightarrow>
     (\<forall>y. y < a \<or> a + n \<le> y \<longrightarrow> m' y = m y) \<and> (\<forall>b k. mapped m' b k = mapped m b k)"

lemma only_changesD:
  assumes "only_changes a n m m'"
  shows "y < a \<or> a + n \<le> y \<Longrightarrow> m' y = m y" "mapped m' b k = mapped m b k"
  using assms unfolding only_changes_def by blast+

lemma only_changes_refl [simp]: "only_changes a n m m"
  by (simp add: only_changes_def)

lemma only_changes_trans:
  "only_changes a n m m' \<Longrightarrow> only_changes b k m' m'' \<Longrightarrow> c \<le> a \<Longrightarrow> c \<le> b \<Longrightarrow>
     a + n \<le> c + l \<Longrightarrow> b + k \<le> c + l \<Longrightarrow> only_changes c l m m''"
  unfolding only_changes_def by (metis le_trans less_le_trans)

lemma store_int_ok:
  "mapped m a n \<Longrightarrow> \<exists>m'. store_int P m a n x = Inr m' \<and> only_changes a n m m' \<and>
     load_u P m' a n = Inr (uwrap n x) \<and> load_s P m' a n = Inr (swrap n x)"
  using store_int_defined [of P m a n x]
  by (auto simp: only_changes_def load_u_store load_s_store store_int_outside store_int_mapped)

lemma int_roundtrip_u:
  assumes "VAL = Inr x" "in_urange n x" "COPY x = Inr v" "mapped m a n"
  shows "\<exists>m'. bindR VAL (store_int P m a n) = Inr m' \<and> only_changes a n m m' \<and>
    bindR (load_u P m' a n) COPY = Inr v"
  using store_int_ok [OF assms(4), of P x] assms(1-3) by (auto simp: uwrap_id)

lemma int_roundtrip_s:
  assumes "VAL = Inr x" "in_srange n x" "COPY x = Inr v" "0 < n" "mapped m a n"
  shows "\<exists>m'. bindR VAL (store_int P m a n) = Inr m' \<and> only_changes a n m m' \<and>
    bindR (load_s P m' a n) COPY = Inr v"
  using store_int_ok [OF assms(5), of P x] assms(1-4) by (auto simp: swrap_id)

lemma load_bytes_unchanged:
  assumes "only_changes b k m m'" "a + n \<le> b \<or> b + k \<le> a"
  shows "load_bytes m' a n = load_bytes m a n"
  by (rule load_bytes_cong) (use assms(2) in \<open>auto intro: only_changesD(1) [OF assms(1)]\<close>)

lemma load_u_unchanged:
  "only_changes b k m m' \<Longrightarrow> a + n \<le> b \<or> b + k \<le> a \<Longrightarrow> load_u P m' a n = load_u P m a n"
  using load_bytes_unchanged [of b k m m' a n] by (simp add: load_u_def)

lemma word_ok:
  fixes w :: "'w::len word"
  assumes "LENGTH('w) = 8 * n" "mapped m a n"
  shows "\<exists>m'. store_word P n m a w = Inr m' \<and> only_changes a n m m' \<and> load_word P n m' a = Inr w"
proof -
  have "in_urange n (uint w)"
    using uint_lt2p [of w] assms(1) by (simp add: in_urange_def power_mult)
  then show ?thesis
    using store_int_ok [OF assms(2), of P "uint w"]
    by (auto simp: store_word_def load_word_def uwrap_id)
qed

lemma load_word_unchanged:
  "only_changes b k m m' \<Longrightarrow> a + n \<le> b \<or> b + k \<le> a \<Longrightarrow> load_word P n m' a = load_word P n m a"
  unfolding load_word_def by (simp add: load_u_unchanged)

lemma ld_ok:
  assumes "LDOUBLE_VALUE_BYTES P \<le> sizeof_ldouble P" "ld_valid P u" "mapped m a (sizeof_ldouble P)"
  shows "\<exists>m'. store_ld P m a u = Inr m' \<and> only_changes a (sizeof_ldouble P) m m' \<and> load_ld P m' a = Inr u"
proof -
  have len: "length (ld_storage P u) = sizeof_ldouble P" using assms(1) by (rule length_ld_storage)
  then obtain m' where m': "store_bytes m a (ld_storage P u) = Some m'"
    using assms(3) store_bytes_Some_iff by metis
  then have "load_bytes m' a (sizeof_ldouble P) = Some (ld_storage P u)"
    using len by (rule load_store_same)
  then show ?thesis
    using m' assms(2) len store_bytes_outside [OF m'] store_bytes_mapped [OF m']
    by (simp add: store_ld_def load_ld_def only_changes_def ld_valid_def)
qed

lemma load_ld_unchanged:
  "only_changes b k m m' \<Longrightarrow> a + sizeof_ldouble P \<le> b \<or> b + k \<le> a \<Longrightarrow> load_ld P m' a = load_ld P m a"
  using load_bytes_unchanged [of b k m m' a "sizeof_ldouble P"] by (simp add: load_ld_def)

text \<open>An array of two objects, given how one of them behaves.\<close>

lemma parts_ok:
  assumes S: "\<And>m b w. w \<in> {fst z, snd z} \<Longrightarrow> mapped m b n \<Longrightarrow>
      \<exists>m'. store m b w = Inr m' \<and> only_changes b n m m' \<and> load m' b = Inr w"
    and U: "\<And>m m' a b. only_changes b n m m' \<Longrightarrow> a + n \<le> b \<Longrightarrow> load m' a = load m a"
    and M: "mapped m a (2 * n)"
  shows "\<exists>m'. store_parts store m a n z = Inr m' \<and> only_changes a (2 * n) m m' \<and>
    load_parts (load m') a n = Inr z"
proof -
  have "mapped m a n" using M by (rule mapped_sub) auto
  then obtain m1 where 1: "store m a (fst z) = Inr m1" "only_changes a n m m1" "load m1 a = Inr (fst z)"
    using S [of "fst z"] by auto
  have "mapped m (a + n) n" using M by (rule mapped_sub) auto
  then have "mapped m1 (a + n) n" using only_changesD(2) [OF 1(2)] by simp
  then obtain m2 where 2: "store m1 (a + n) (snd z) = Inr m2" "only_changes (a + n) n m1 m2"
    "load m2 (a + n) = Inr (snd z)"
    using S [of "snd z"] by auto
  have "load m2 a = Inr (fst z)" using U [OF 2(2), of a] 1(3) by simp
  moreover have "only_changes a (2 * n) m m2"
    by (rule only_changes_trans [OF 1(2) 2(2)]) auto
  ultimately show ?thesis using 1(1) 2(1,3) by (auto simp: store_parts_def load_parts_def)
qed

lemma word_parts_ok:
  fixes z :: "('w::len word) c_complex"
  assumes "LENGTH('w) = 8 * n" "mapped m a (2 * n)"
  shows "\<exists>m'. store_parts (store_word P n) m a n z = Inr m' \<and> only_changes a (2 * n) m m' \<and>
    load_parts (load_word P n m') a n = Inr z"
  by (rule parts_ok [OF word_ok [OF assms(1)] load_word_unchanged assms(2)]) auto

lemma ld_parts_ok:
  assumes "LDOUBLE_VALUE_BYTES P \<le> sizeof_ldouble P" "ld_valid P (fst z)" "ld_valid P (snd z)"
    and "mapped m a (2 * sizeof_ldouble P)"
  shows "\<exists>m'. store_parts (store_ld P) m a (sizeof_ldouble P) z = Inr m' \<and>
    only_changes a (2 * sizeof_ldouble P) m m' \<and> load_parts (load_ld P m') a (sizeof_ldouble P) = Inr z"
  by (rule parts_ok [OF ld_ok [OF assms(1)] load_ld_unchanged assms(4)]) (use assms(2,3) in auto)


section \<open>The integer types\<close>

lemma copy_by_fun: "copy_by L (Some r) = (\<lambda>x. Inr (rep_copy L r x))"
  by (simp add: fun_eq_iff)

lemma ladder_io:
  assumes "platform_ok P" "prim_rep P p = Some r"
  shows "rep_bytes r = prim_bytes P p"
    "write_prim P L p v m a = bindR (rep_val L r v) (store_int P m a (prim_bytes P p))"
    "read_prim P L p m a =
       bindR ((if rep_signed r then load_s else load_u) P m a (prim_bytes P p)) (\<lambda>x. Inr (rep_copy L r x))"
  using assms(2) rep_exists [OF assms(1)] by (cases p; auto simp: copy_by_fun)+

lemma prim_repr_rep:
  "prim_rep P p = Some r \<Longrightarrow> prim_repr P L p v \<longleftrightarrow>
     (\<exists>x. v = rep_copy L r x \<and> (if rep_signed r then in_srange (prim_bytes P p) x else in_urange (prim_bytes P p) x))"
  by (cases p) auto

lemma ladder_exists:
  assumes "platform_ok P" "p \<in> {Ctypes_Long, Ctypes_Llong, Ctypes_Ushort, Ctypes_Sint, Ctypes_Uint,
      Ctypes_Ulong, Ctypes_Ullong, Ctypes_Size_t}"
  shows "\<exists>r. prim_rep P p = Some r"
  using assms(2) rep_exists [OF assms(1)] by auto

lemma rep_bytes_pos: "0 < rep_bytes r"
  by (cases r) simp_all

definition io_ok :: "platform \<Rightarrow> integers_lib \<Rightarrow> ctypes_primitive \<Rightarrow> value \<Rightarrow> memory \<Rightarrow> nat \<Rightarrow> bool" where
  "io_ok P L p v m a \<longleftrightarrow>
     (\<exists>m'. write_prim P L p v m a = Inr m' \<and> only_changes a (prim_bytes P p) m m' \<and>
        read_prim P L p m' a = Inr v)"

context integers_interface
begin

lemma ladder_io_ok:
  assumes "platform_ok P" "prim_rep P p = Some r" "prim_repr P L p v" "mapped m a (prim_bytes P p)"
  shows "io_ok P L p v m a"
proof -
  note l = ladder_io [OF assms(1,2)]
  obtain x where v: "v = rep_copy L r x"
    and x: "if rep_signed r then in_srange (rep_bytes r) x else in_urange (rep_bytes r) x"
    using assms(3) unfolding prim_repr_rep [OF assms(2)] l(1) [symmetric] by blast
  show ?thesis
  proof (cases "rep_signed r")
    case True
    then have "rep_val L r v = Inr x" using x rep_bytes_pos by (simp add: v rep_roundtrip_signed swrap_id)
    with True show ?thesis
      using int_roundtrip_s [of _ x "rep_bytes r" "\<lambda>x. Inr (rep_copy L r x)" v m a P] assms(4) v x
        rep_bytes_pos
      by (simp add: io_ok_def l(2,3) l(1) [symmetric])
  next
    case False
    then have "rep_val L r v = Inr x" using x by (simp add: v rep_roundtrip_unsigned uwrap_id)
    with False show ?thesis
      using int_roundtrip_u [of _ x "rep_bytes r" "\<lambda>x. Inr (rep_copy L r x)" v m a P] assms(4) v x
      by (simp add: io_ok_def l(2,3) l(1) [symmetric])
  qed
qed

lemma immediate_s:
  assumes "platform_ok P" "in_srange n x" "oint_ok P x" "0 < n" "n \<le> sizeof_int P" "mapped m a n"
  shows "\<exists>m'. bindR (Int_val P (Val_int P x)) (store_int P m a n) = Inr m' \<and> only_changes a n m m' \<and>
    bindR (load_s P m' a n) (\<lambda>x. Inr (Val_int P x)) = Inr (Val_int P x)"
  using assms platform_okD [OF assms(1)] in_srange_mono [of n "sizeof_int P" x]
  by (intro int_roundtrip_s) (auto simp: Int_val_Val_int)

lemma immediate_u:
  assumes "platform_ok P" "in_urange 1 x" "mapped m a 1"
  shows "\<exists>m'. bindR (Int_val P (Val_int P x)) (store_int P m a 1) = Inr m' \<and> only_changes a 1 m m' \<and>
    bindR (load_u P m' a 1) (\<lambda>x. Inr (Val_int P x)) = Inr (Val_int P x)"
proof -
  have "oint_ok P x" "in_srange (sizeof_int P) x"
    using assms platform_okD [OF assms(1)]
    by (auto intro: oint_ok_small [of 1] in_srange_of_urange [of 1])
  then show ?thesis
    using assms platform_okD [OF assms(1)] by (intro int_roundtrip_u) (simp_all add: Int_val_Val_int)
qed

lemma bool_io_ok:
  assumes "platform_ok P" "mapped m a (sizeof_bool P)"
  shows "io_ok P L Ctypes_Bool (Val_bool P x) m a"
proof -
  let ?y = "if x \<noteq> 0 then 1 else 0 :: int"
  have "(256 :: int) ^ 1 \<le> 256 ^ sizeof_bool P"
    using platform_okD(6) [OF assms(1)] by (intro power_increasing) auto
  then have "uwrap (sizeof_bool P) ?y = ?y"
    by (intro uwrap_id) (auto simp: in_urange_def)
  then obtain m' where m': "store_int P m a (sizeof_bool P) ?y = Inr m'" "only_changes a (sizeof_bool P) m m'"
    "load_u P m' a (sizeof_bool P) = Inr ?y"
    using store_int_ok [OF assms(2), of P ?y] by auto
  have w: "Bool_val P (Val_bool P x) = Inr ?y"
    using Int_val_Val_bool [of P x] platform_okD [OF assms(1)] by simp
  have e: "Val_bool P ?y = Val_bool P x" "(if ?y \<noteq> 0 then 1 else 0) = ?y" by (simp_all add: Val_bool_def)
  show ?thesis
    unfolding io_ok_def write_prim.simps read_prim.simps prim_bytes.simps w bindR_simps e(2)
    by (intro exI [of _ m'] conjI) (simp_all only: m' bindR_simps e(1))
qed

lemma small_io_ok:
  assumes P: "platform_ok P" and R: "prim_repr P L p v" and M: "mapped m a (prim_bytes P p)"
    and p: "p \<in> {Ctypes_Char, Ctypes_Schar, Ctypes_Bool, Ctypes_Short, Ctypes_Int, Ctypes_Int8_t, Ctypes_Int16_t}"
  shows "io_ok P L p v m a"
proof -
  note D = platform_okD [OF P]
  have o: "oint_ok P x" if "in_srange 1 x \<or> in_srange 2 x" for x
    using that D(8) by (auto intro: oint_ok_small [of 1] oint_ok_small [of 2])
  note s = immediate_s [OF P]
  have "io_ok P L Ctypes_Char v m a" if "p = Ctypes_Char"
    using R M immediate_u [OF P] unfolding that io_ok_def by fastforce
  moreover have "io_ok P L Ctypes_Schar v m a" if "p = Ctypes_Schar"
    using R M s [of 1 _ m a] o D(7) unfolding that io_ok_def by fastforce
  moreover have "io_ok P L Ctypes_Bool v m a" if "p = Ctypes_Bool"
    using R M bool_io_ok [OF P] unfolding that by auto
  moreover have "io_ok P L Ctypes_Short v m a" if "p = Ctypes_Short"
    using R M s [of "sizeof_short P" _ m a] D(5,12) unfolding that io_ok_def by fastforce
  moreover have "io_ok P L Ctypes_Int v m a" if "p = Ctypes_Int"
    using R M s [of "sizeof_int P" _ m a] D(3) unfolding that io_ok_def by fastforce
  moreover have "io_ok P L Ctypes_Int8_t v m a" if "p = Ctypes_Int8_t"
    using R M s [of 1 _ m a] o D(7) unfolding that io_ok_def by fastforce
  moreover have "io_ok P L Ctypes_Int16_t v m a" if "p = Ctypes_Int16_t"
    using R M s [of 2 _ m a] o D(7) unfolding that io_ok_def by fastforce
  ultimately show ?thesis using p by auto
qed

lemma unsigned_io_ok:
  assumes R: "prim_repr P L p v" and M: "mapped m a (prim_bytes P p)"
    and p: "p \<in> {Ctypes_Uchar, Ctypes_Uint8_t, Ctypes_Uint16_t, Ctypes_Uint32_t, Ctypes_Uint64_t}"
  shows "io_ok P L p v m a"
proof -
  note r = int_roundtrip_u [where v = v and m = m and a = a and P = P]
  have "io_ok P L p v m a" if "p = Ctypes_Uchar \<or> p = Ctypes_Uint8_t"
    using R M that uint8 r [of "Uint8_val L v" _ 1 "\<lambda>x. Inr (Integers_val_uint8 L x)"]
    unfolding io_ok_def by fastforce
  moreover have "io_ok P L p v m a" if "p = Ctypes_Uint16_t"
    using R M that uint16 r [of "Uint16_val L v" _ 2 "\<lambda>x. Inr (Integers_val_uint16 L x)"]
    unfolding io_ok_def by fastforce
  moreover have "io_ok P L p v m a" if "p = Ctypes_Uint32_t"
    using R M that uint32 r [of "Uint32_val L v" _ 4 "\<lambda>x. Inr (integers_copy_uint32 L x)"]
    unfolding io_ok_def by fastforce
  moreover have "io_ok P L p v m a" if "p = Ctypes_Uint64_t"
    using R M that uint64 r [of "Uint64_val L v" _ 8 "\<lambda>x. Inr (integers_copy_uint64 L x)"]
    unfolding io_ok_def by fastforce
  ultimately show ?thesis using p by auto
qed

lemma signed_io_ok:
  assumes P: "platform_ok P" and R: "prim_repr P L p v" and M: "mapped m a (prim_bytes P p)"
    and p: "p \<in> {Ctypes_Int32_t, Ctypes_Int64_t, Ctypes_Camlint, Ctypes_Nativeint}"
  shows "io_ok P L p v m a"
proof -
  have z: "0 < sizeof_ptr P" using platform_okD [OF P] by simp
  have cl: "in_srange (sizeof_ptr P) x \<and> Long_val (Val_long P x) = Inr x" if "oint_ok P x" for x
    using that z by (simp add: Long_val_Val_long) (auto simp: oint_ok_def in_srange_def)
  note r = int_roundtrip_s [where v = v and m = m and a = a and P = P]
  have "io_ok P L p v m a" if "p = Ctypes_Int32_t"
    using R M that r [of "Int32_val v" _ 4 "\<lambda>x. Inr (caml_copy_int32 x)"]
    unfolding io_ok_def by (fastforce simp: caml_copy_int32_def swrap_id)
  moreover have "io_ok P L p v m a" if "p = Ctypes_Int64_t"
    using R M that r [of "Int64_val v" _ 8 "\<lambda>x. Inr (caml_copy_int64 x)"]
    unfolding io_ok_def by (fastforce simp: caml_copy_int64_def swrap_id)
  moreover have "io_ok P L p v m a" if "p = Ctypes_Camlint"
    using R M that z cl r [of "Long_val v" _ "sizeof_ptr P" "\<lambda>x. Inr (Val_long P x)"]
    unfolding io_ok_def by fastforce
  moreover have "io_ok P L p v m a" if "p = Ctypes_Nativeint"
    using R M that z r [of "Nativeint_val v" _ "sizeof_ptr P" "\<lambda>x. Inr (caml_copy_nativeint P x)"]
    unfolding io_ok_def by (fastforce simp: caml_copy_nativeint_def swrap_id)
  ultimately show ?thesis using p by auto
qed

end

section \<open>The floating types\<close>

lemma float_io_ok:
  assumes P: "platform_ok P" and V: "LDOUBLE_VALUE_BYTES P \<le> sizeof_ldouble P"
    and R: "prim_repr P L p v" and M: "mapped m a (prim_bytes P p)"
    and p: "p \<in> {Ctypes_Float, Ctypes_Double, Ctypes_LDouble, Ctypes_Complex32, Ctypes_Complex64, Ctypes_Complexld}"
  shows "io_ok P L p v m a"
proof -
  have fl: "double_to_float P (float_to_double P f) = f" if "f32_ok f" for f
    using that float_double_float [OF P] by (simp add: f32_ok_def)
  have "io_ok P L p v m a" if "p = Ctypes_Float"
    using R M that fl word_ok [where 'w = 32, of 4 m a] unfolding io_ok_def by fastforce
  moreover have "io_ok P L p v m a" if "p = Ctypes_Double"
    using R M that word_ok [where 'w = 64, of 8 m a] unfolding io_ok_def by fastforce
  moreover have "io_ok P L p v m a" if "p = Ctypes_LDouble"
    using R M that ld_ok [OF V] unfolding io_ok_def by (fastforce simp: ctypes_ldouble_val_def)
  moreover have "io_ok P L p v m a" if p: "p = Ctypes_Complex32"
  proof -
    obtain z where z: "f32_ok (fst z)" "f32_ok (snd z)" "v = ctypes_copy_float_complex P z"
      using R p by auto
    then have "ctypes_float_complex_val P v = Inr z"
      by (simp add: ctypes_float_complex_val_def ctypes_copy_float_complex_def fl
          allocate_complex_value_def ctypes_compat_creal_def ctypes_compat_cimag_def ctypes_compat_make_complex_def)
    then show ?thesis using z(3) M p word_parts_ok [of 4 m a P z] unfolding io_ok_def by fastforce
  qed
  moreover have "io_ok P L p v m a" if p: "p = Ctypes_Complex64"
  proof -
    obtain z where z: "v = ctypes_copy_double_complex z" using R p by auto
    then have "ctypes_double_complex_val v = Inr z"
      by (simp add: ctypes_double_complex_val_def ctypes_copy_double_complex_def allocate_complex_value_def)
    then show ?thesis using z M p word_parts_ok [of 8 m a P z] unfolding io_ok_def by fastforce
  qed
  moreover have "io_ok P L p v m a" if p: "p = Ctypes_Complexld"
  proof -
    obtain z where z: "ld_valid P (fst z)" "ld_valid P (snd z)" "v = ctypes_copy_ldouble_complex P z"
      using R p by auto
    then have "ctypes_ldouble_complex_val P v = Inr z"
      by (simp add: ctypes_ldouble_complex_val_def V)
    then show ?thesis using z M p ld_parts_ok [OF V z(1,2), of m a] unfolding io_ok_def by fastforce
  qed
  ultimately show ?thesis using p by auto
qed

lemma prim_io_ok:
  assumes "platform_ok P" "LDOUBLE_VALUE_BYTES P \<le> sizeof_ldouble P" "integers_ok L"
    and "prim_repr P L p v" "mapped m a (prim_bytes P p)"
  shows "io_ok P L p v m a"
proof -
  have I: "integers_interface L" by unfold_locales (rule assms(3))
  note T = assms(1) assms(4) assms(5)
  show ?thesis
  proof (cases "prim_rep P p")
    case (Some r)
    then show ?thesis using T by (intro integers_interface.ladder_io_ok [OF I])
  next
    case None
    then show ?thesis
      using ladder_exists [OF assms(1), of p] T assms(2)
        integers_interface.small_io_ok [OF I T] integers_interface.unsigned_io_ok [OF I T(2,3)]
        integers_interface.signed_io_ok [OF I T] float_io_ok [OF assms(1,2,4,5)]
      by (cases p) auto
  qed
qed

section \<open>Properties\<close>

text \<open>
  C5: what is written is read back.  For every primitive type, writing a value that represents
  it through a pointer to mapped memory succeeds, reading the same address gives that value
  again, no byte outside the object changes, and nothing becomes mapped or unmapped.
\<close>

theorem write_read_roundtrip:
  assumes "platform_ok P" "LDOUBLE_VALUE_BYTES P \<le> sizeof_ldouble P" "integers_ok L"
    and "prim_repr P L p v" "a < addr_limit P" "mapped m a (prim_bytes P p)"
  shows "\<exists>m'. ctypes_write P L (prim_value P p) v (fatptr P a) m = Inr (m', Val_unit) \<and>
    ctypes_read P L (prim_value P p) (fatptr P a) m' = Inr v \<and>
    (\<forall>y. y < a \<or> a + prim_bytes P p \<le> y \<longrightarrow> m' y = m y) \<and> (\<forall>b k. mapped m' b k = mapped m b k)"
proof -
  have "io_ok P L p v m a" using assms(1-4,6) by (rule prim_io_ok)
  then show ?thesis
    using assms(5) platform_okD [OF assms(1)]
    by (auto simp: io_ok_def ctypes_write_def ctypes_read_def only_changes_def)
qed

lemma mapped_ram: "mapped (\<lambda>x. if x < n then Some b else None) a k \<longleftrightarrow> k = 0 \<or> a + k \<le> n"
proof
  assume "mapped (\<lambda>x. if x < n then Some b else None) a k"
  then have "0 < k \<Longrightarrow> (if a + (k - 1) < n then Some b else None) \<noteq> None"
    unfolding mapped_iff by (elim allE [of _ "a + (k - 1)"]) simp
  then show "k = 0 \<or> a + k \<le> n" by (cases k) (auto split: if_splits)
qed (auto simp: mapped_iff)

theorem write_read_roundtrip_witness:
  "\<exists>m'. ctypes_write lp64 (boxed_integers lp64) (prim_value lp64 Ctypes_Short) (Val_int lp64 (- 2))
        (fatptr lp64 4) (\<lambda>x. if x < 8 then Some 7 else None) = Inr (m', Val_unit) \<and>
    ctypes_read lp64 (boxed_integers lp64) (prim_value lp64 Ctypes_Short) (fatptr lp64 4) m' =
      Inr (Val_int lp64 (- 2)) \<and> m' 3 = Some 7"
proof -
  have L: "LDOUBLE_VALUE_BYTES lp64 \<le> sizeof_ldouble lp64" by (simp add: LDOUBLE_VALUE_BYTES_def)
  have R: "prim_repr lp64 (boxed_integers lp64) Ctypes_Short (Val_int lp64 (- 2))"
    by (auto simp: in_srange_def oint_ok_def intro: exI [of _ "- 2"])
  have M: "mapped (\<lambda>x. if x < 8 then Some 7 else None) 4 (prim_bytes lp64 Ctypes_Short)"
    by (simp add: mapped_ram)
  show ?thesis
    using write_read_roundtrip [OF platform_ok_lp64 L boxed_lp64.ok R _ M] by fastforce
qed

section \<open>Reading arbitrary memory\<close>

text \<open>Whatever integer is tagged, the result is the immediate of an OCaml integer.\<close>

lemma Val_long_wraps:
  assumes "0 < sizeof_ptr P"
  shows "\<exists>y. oint_ok P y \<and> Val_long P x = Val_long P y"
proof -
  define h where "h = (256 ^ sizeof_ptr P div 2 :: int)"
  have h: "256 ^ sizeof_ptr P = 2 * h" using pow256_even [OF assms] by (simp add: h_def)
  have "256 ^ sizeof_ptr P div 2 = (128 * 256 ^ (sizeof_ptr P - 1) :: int)"
    using assms by (cases "sizeof_ptr P") simp_all
  then have ev: "even h" by (simp add: h_def)
  let ?w = "swrap (sizeof_ptr P) (2 * x + 1)"
  have "odd ?w"
    using ev dvd_mod_iff [of 2 "2 * h" "2 * x + 1 + h"] by (simp add: swrap_def h_def [symmetric] h)
  then have "2 * (?w div 2) + 1 = ?w" by presburger
  moreover have "in_srange (sizeof_ptr P) ?w" using assms by (rule in_srange_swrap)
  ultimately show ?thesis
    using assms by (intro exI [of _ "?w div 2"]) (simp add: oint_ok_def Val_long_def swrap_id)
qed

lemma Val_int_wraps:
  assumes "0 < sizeof_ptr P" "in_srange n x" "0 < n"
  shows "\<exists>y. in_srange n y \<and> oint_ok P y \<and> Val_int P x = Val_int P y"
proof (cases "n < sizeof_ptr P")
  case True
  then show ?thesis using assms(2) oint_ok_small [of n P x] by blast
next
  case False
  obtain y where y: "oint_ok P y" "Val_int P x = Val_int P y" using Val_long_wraps [OF assms(1)] by blast
  then have "in_srange (sizeof_ptr P) y" by (auto simp: oint_ok_def in_srange_def)
  then show ?thesis using y False in_srange_mono [of "sizeof_ptr P" n y] by auto
qed

lemma mapped_append: "mapped m a (n + k) \<longleftrightarrow> mapped m a n \<and> mapped m (a + n) k"
  by (simp add: mapped_def upt_add_eq_append [of a "a + n" k, simplified] flip: add.assoc)

lemma mapped_double: "mapped m a (2 * n) \<longleftrightarrow> mapped m a n \<and> mapped m (a + n) n"
  using mapped_append [of m a n n] by (simp add: mult_2)

text \<open>A load succeeds exactly on mapped memory, and has one fault.\<close>

lemma load_word_defined:
  fixes P n m a defines "(r :: ('w::len word) result) \<equiv> load_word P n m a"
  shows "case r of Inl e \<Rightarrow> e = Memory_fault \<and> \<not> mapped m a n | Inr v \<Rightarrow> mapped m a n"
  unfolding r_def using load_u_fault [of P m a n] load_u_defined [of P m a n]
  by (cases "load_u P m a n") (auto simp: load_word_def)

lemma load_word_parts_defined:
  fixes P n m a defines "(r :: (('w::len word) c_complex) result) \<equiv> load_parts (load_word P n m) a n"
  shows "case r of Inl e \<Rightarrow> e = Memory_fault \<and> \<not> mapped m a (2 * n) | Inr v \<Rightarrow> mapped m a (2 * n)"
  unfolding mapped_double r_def load_parts_def
  using load_word_defined [where P = P and n = n and m = m and a = a and 'w = 'w] load_word_defined [where P = P and n = n and m = m and a = "a + n" and 'w = 'w]
  by (auto simp: bindR_def split: sum.splits)

lemma read_defined:
  assumes "platform_ok P"
  shows "case read_prim P L p m a of Inl e \<Rightarrow> e = Memory_fault \<and> \<not> mapped m a (prim_bytes P p)
    | Inr v \<Rightarrow> mapped m a (prim_bytes P p)"
proof -
  have u: "case load_u P m a n of Inl e \<Rightarrow> e = Memory_fault \<and> \<not> mapped m a n | Inr v \<Rightarrow> mapped m a n" for n a
    using load_u_fault [of P m a n] load_u_defined [of P m a n] by (cases "load_u P m a n") auto
  have s: "case load_s P m a n of Inl e \<Rightarrow> e = Memory_fault \<and> \<not> mapped m a n | Inr v \<Rightarrow> mapped m a n" for n
    using load_s_fault [of P m a n] load_s_defined [of P m a n] by (cases "load_s P m a n") auto
  note w = load_word_defined
  have l: "case load_ld P m a of Inl e \<Rightarrow> e = Memory_fault \<and> \<not> mapped m a (sizeof_ldouble P)
      | Inr v \<Rightarrow> mapped m a (sizeof_ldouble P)" for a
    using load_bytes_None_iff [of m a "sizeof_ldouble P"]
    by (cases "load_bytes m a (sizeof_ldouble P)") (auto simp: load_ld_def)
  have b: "case bindR x f of Inl e \<Rightarrow> e = Memory_fault \<and> \<not> M | Inr v \<Rightarrow> M"
    if "case x of Inl e \<Rightarrow> e = Memory_fault \<and> \<not> M | Inr v \<Rightarrow> M" "\<And>y. \<exists>z. f y = Inr z"
    for x :: "'x result" and f :: "'x \<Rightarrow> value result" and M
  proof (cases x)
    case (Inr y)
    then show ?thesis using that(1) that(2) [of y] by auto
  qed (use that(1) in simp)
  have pl: "case load_parts (load_ld P m) a (sizeof_ldouble P) of
        Inl e \<Rightarrow> e = Memory_fault \<and> \<not> mapped m a (2 * sizeof_ldouble P)
      | Inr v \<Rightarrow> mapped m a (2 * sizeof_ldouble P)"
    unfolding mapped_double load_parts_def using l [of a] l [of "a + sizeof_ldouble P"]
    by (auto simp: bindR_def split: sum.splits)
  have c: "\<exists>z. copy_by L r y = Inr z" if "\<exists>q. r = Some q \<and> Q q" for r y Q using that by auto
  note R = rep_exists [OF assms]
  have e: "2 * 4 = (8 :: nat)" "2 * 8 = (16 :: nat)" by simp_all
  note pw4 = load_word_parts_defined [where P = P and n = 4 and m = m and a = a, unfolded e]
  note pw8 = load_word_parts_defined [where P = P and n = 8 and m = m and a = a, unfolded e]
  show ?thesis
    by (cases p; simp only: read_prim.simps prim_bytes.simps; rule b;
        (rule u s w l pw4 pw8 pl | rule c, rule R | simp))
qed

definition is_float_prim :: "ctypes_primitive \<Rightarrow> bool" where
  "is_float_prim p \<longleftrightarrow> p \<in> {Ctypes_Float, Ctypes_LDouble, Ctypes_Complex32, Ctypes_Complexld}"

lemma read_repr:
  assumes P: "platform_ok P" and p: "\<not> is_float_prim p" and r: "read_prim P L p m a = Inr v"
  shows "prim_repr P L p v"
proof (cases "prim_rep P p")
  case (Some r)
  have "0 < prim_bytes P p" using ladder_io(1) [OF P Some] rep_bytes_pos [of r] by simp
  then show ?thesis
    using r ladder_io(3) [OF P Some, of L m a]
    by (auto simp: prim_repr_rep [OF Some] dest: load_u_range load_s_range split: if_splits)
next
  case None
  note D = platform_okD [OF P]
  note D = platform_okD [OF P]
  have W: "\<exists>y. in_srange n y \<and> oint_ok P y \<and> v = Val_int P y"
    if "load_s P m a n = Inr x" "v = Val_int P x" "0 < n" for n x
    using Val_int_wraps [OF D(4) load_s_range [OF that(3,1)] that(3)] that(2) by simp
  have U: "in_urange n x" if "load_u P m a n = Inr x" for n x using load_u_range that .
  have S: "in_srange n x \<and> swrap n x = x" if "load_s P m a n = Inr x" "0 < n" for n x
    using load_s_range [OF that(2,1)] that(2) by (simp add: swrap_id)
  have L: "\<exists>y. oint_ok P y \<and> Val_long P x = Val_long P y" for x using Val_long_wraps [OF D(4)] .
  show ?thesis
  proof (cases p)
    case Ctypes_Char then show ?thesis using r by (auto dest: U)
  next
    case Ctypes_Schar then show ?thesis using r by (auto dest: S)
  next
    case Ctypes_Uchar then show ?thesis using r by (auto dest: U)
  next
    case Ctypes_Bool then show ?thesis using r by auto
  next
    case Ctypes_Short then show ?thesis using r W D(5) by auto
  next
    case Ctypes_Int then show ?thesis using r W D(3) by auto
  next
    case Ctypes_Int8_t then show ?thesis using r by (auto dest: S)
  next
    case Ctypes_Int16_t then show ?thesis using r by (auto dest: S)
  next
    case Ctypes_Int32_t then show ?thesis using r by (auto simp: caml_copy_int32_def dest: S)
  next
    case Ctypes_Int64_t then show ?thesis using r by (auto simp: caml_copy_int64_def dest: S)
  next
    case Ctypes_Uint8_t then show ?thesis using r by (auto dest: U)
  next
    case Ctypes_Uint16_t then show ?thesis using r by (auto dest: U)
  next
    case Ctypes_Uint32_t then show ?thesis using r by (auto dest: U)
  next
    case Ctypes_Uint64_t then show ?thesis using r by (auto dest: U)
  next
    case Ctypes_Camlint then show ?thesis using r L by auto
  next
    case Ctypes_Nativeint then show ?thesis using r D(4) by (auto simp: caml_copy_nativeint_def dest: S)
  qed (use None r p ladder_exists [OF P, of p] in \<open>auto simp: is_float_prim_def\<close>)
qed

text \<open>
  The values of each type, the inexact floating types included: a \<open>float\<close> is a double that is the value of
  some \<open>float\<close>, a \<open>long double\<close> a custom block of the size of one holding one, and so the complex types.
\<close>

fun prim_typed :: "platform \<Rightarrow> integers_lib \<Rightarrow> ctypes_primitive \<Rightarrow> value \<Rightarrow> bool" where
  "prim_typed P L Ctypes_Float v = (\<exists>f. v = Double_block (float_to_double P f))"
| "prim_typed P L Ctypes_LDouble v = (\<exists>u. v = ctypes_copy_ldouble P u)"
| "prim_typed P L Ctypes_Complex32 v = (\<exists>z. v = ctypes_copy_float_complex P z)"
| "prim_typed P L Ctypes_Complexld v = (\<exists>z. v = ctypes_copy_ldouble_complex P z)"
| "prim_typed P L p v = prim_repr P L p v"

lemma prim_typed_repr: "\<not> is_float_prim p \<Longrightarrow> prim_typed P L p v = prim_repr P L p v"
  by (cases p) (simp_all add: is_float_prim_def)

lemma read_typed:
  assumes "platform_ok P" "read_prim P L p m a = Inr v"
  shows "prim_typed P L p v"
proof (cases "is_float_prim p")
  case True
  then consider "p = Ctypes_Float" | "p = Ctypes_LDouble" | "p = Ctypes_Complex32" | "p = Ctypes_Complexld"
    by (auto simp: is_float_prim_def)
  then show ?thesis using assms(2) by cases auto
qed (use assms read_repr prim_typed_repr in blast)

text \<open>
  C11: reading is total on mapped memory and returns a value of the type: for all 30 primitive types
  \<open>ctypes_read\<close> faults exactly when some byte of the object is not mapped, and otherwise the value it
  returns is one of the type, whatever the bytes: an integer in the type's range, a block of the type's
  kind.  (A \<open>_Bool\<close> byte other than 0 and 1 is undefined in C; it is read as true here.)
\<close>

theorem read_total_and_typed:
  assumes "platform_ok P" "a < addr_limit P"
  shows "case ctypes_read P L (prim_value P p) (fatptr P a) m of
      Inl e \<Rightarrow> e = Memory_fault \<and> \<not> mapped m a (prim_bytes P p)
    | Inr v \<Rightarrow> mapped m a (prim_bytes P p) \<and> prim_typed P L p v"
proof -
  have "ctypes_read P L (prim_value P p) (fatptr P a) m = read_prim P L p m a"
    using assms platform_okD [OF assms(1)] by (simp add: ctypes_read_def)
  then show ?thesis
    using read_defined [OF assms(1), where L = L and p = p and m = m and a = a] read_typed [OF assms(1)]
    by (cases "read_prim P L p m a") auto
qed

text \<open>Eight mapped bytes: a \<open>long long\<close> at 4 faults, a \<open>float\<close> at 4 is read.\<close>

theorem read_total_and_typed_witness:
  "ctypes_read lp64 (boxed_integers lp64) (prim_value lp64 Ctypes_Llong) (fatptr lp64 4) (\<lambda>x. if x < 8 then Some 7 else None) =
     Inl Memory_fault \<and>
   (\<exists>f. ctypes_read lp64 (boxed_integers lp64) (prim_value lp64 Ctypes_Float) (fatptr lp64 4)
      (\<lambda>x. if x < 8 then Some 7 else None) = Inr (Double_block (float_to_double lp64 f)))"
proof -
  have "\<not> mapped (\<lambda>x. if x < 8 then Some 7 else None) 4 (prim_bytes lp64 Ctypes_Llong)"
    "mapped (\<lambda>x. if x < 8 then Some 7 else None) 4 (prim_bytes lp64 Ctypes_Float)"
    by (simp_all add: mapped_ram)
  then show ?thesis
    using read_total_and_typed [OF platform_ok_lp64, where a = 4 and L = "boxed_integers lp64" and p = Ctypes_Llong
        and m = "\<lambda>x. if x < 8 then Some 7 else None"]
      read_total_and_typed [OF platform_ok_lp64, where a = 4 and L = "boxed_integers lp64" and p = Ctypes_Float
        and m = "\<lambda>x. if x < 8 then Some 7 else None"]
    by (auto split: sum.splits)
qed

end
