(* ===== verification/Type_Info_Text.thy ===== *)
theory Type_Info_Text
  imports Type_Info_Correct
begin

text \<open>
  Correctness of the rest of \<open>type_info_stubs.c\<close>: the truncation of an OCaml \<open>int\<close> that a C type
  does not hold, the text of a value and the buffer it is formatted in, and reading and
  writing pointers.
\<close>

section \<open>Truncation\<close>

text \<open>
  C33: an OCaml \<open>int\<close> that does not fit the C type is reduced modulo the size of the type, as C
  converts integers: writing \<open>x\<close> and reading back gives \<open>x\<close> wrapped to the type.
\<close>

theorem write_int_truncates:
  assumes "platform_ok P" "oint_ok P x" "a < addr_limit P" "mapped m a (prim_bytes P p)"
    and "p \<in> {Ctypes_Char, Ctypes_Schar, Ctypes_Short, Ctypes_Int, Ctypes_Int8_t, Ctypes_Int16_t}"
  shows "\<exists>m'. ctypes_write P L (prim_value P p) (Val_int P x) (fatptr P a) m = Inr (m', Val_unit) \<and>
    ctypes_read P L (prim_value P p) (fatptr P a) m' =
      Inr (Val_int P (if p = Ctypes_Char then uwrap 1 x else swrap (prim_bytes P p) x))"
proof -
  note D = platform_okD [OF assms(1)]
  let ?n = "prim_bytes P p" and ?y = "swrap (sizeof_int P) x"
  have n: "?n \<le> sizeof_int P" "0 < ?n" using assms(5) D by auto
  have w: "write_prim P L p (Val_int P x) m a = store_int P m a ?n ?y"
    using assms(2,5) D by (auto simp: Int_val_def Long_val_Val_long)
  obtain m' where m': "store_int P m a ?n ?y = Inr m'" "load_u P m' a ?n = Inr (uwrap ?n ?y)"
    "load_s P m' a ?n = Inr (swrap ?n ?y)"
    using store_int_ok [OF assms(4), of P ?y] by blast
  have "swrap ?n ?y = swrap ?n x" "uwrap ?n ?y = uwrap ?n x"
    using n by (simp_all add: swrap_narrow uwrap_narrow_swrap)
  then have "read_prim P L p m' a = Inr (Val_int P (if p = Ctypes_Char then uwrap 1 x else swrap ?n x))"
    using m' assms(5) by auto
  then show ?thesis using w m'(1) assms(3) D by (simp add: ctypes_write_def ctypes_read_def)
qed

theorem write_int_truncates_witness:
  "\<exists>m'. ctypes_write lp64 (boxed_integers lp64) (prim_value lp64 Ctypes_Int8_t) (Val_int lp64 200) (fatptr lp64 4)
        (\<lambda>x. if x < 8 then Some 7 else None) = Inr (m', Val_unit) \<and>
    ctypes_read lp64 (boxed_integers lp64) (prim_value lp64 Ctypes_Int8_t) (fatptr lp64 4) m' = Inr (Val_int lp64 (- 56))"
proof -
  have M: "mapped (\<lambda>x. if x < 8 then Some 7 else None) 4 (prim_bytes lp64 Ctypes_Int8_t)"
    by (simp add: mapped_ram)
  have "oint_ok lp64 200" by (simp add: oint_ok_def in_srange_def)
  from write_int_truncates [OF platform_ok_lp64 this _ M, of "boxed_integers lp64"] show ?thesis
    by (simp add: swrap_def)
qed

section \<open>Decimal text\<close>

definition undigit :: "byte \<Rightarrow> nat" where
  "undigit b = unat b - 48"

definition parse_nat :: "byte list \<Rightarrow> nat" where
  "parse_nat bs = foldl (\<lambda>n b. 10 * n + undigit b) 0 bs"

definition parse_int :: "byte list \<Rightarrow> int" where
  "parse_int bs = (case bs of b # cs \<Rightarrow> if b = 45 then - int (parse_nat cs) else int (parse_nat bs) | [] \<Rightarrow> 0)"

lemma unat_digit: "n < 10 \<Longrightarrow> unat (digit n) = 48 + n"
  unfolding digit_def by (subst of_nat_inverse [of "48 + n"]) simp_all

lemma undigit_digit: "n < 10 \<Longrightarrow> undigit (digit n) = n"
  by (simp add: undigit_def unat_digit)

lemma parse_digits: "parse_nat (digits n) = n"
proof (induction n rule: digits.induct)
  case (1 n)
  then show ?case
    by (subst digits.simps) (simp add: parse_nat_def undigit_digit)
qed

lemma length_digits: "n < 10 ^ k \<Longrightarrow> 0 < k \<Longrightarrow> length (digits n) \<le> k"
proof (induction n arbitrary: k rule: digits.induct)
  case (1 n)
  show ?case
  proof (cases "n < 10")
    case True
    then show ?thesis using 1(3) by (subst digits.simps) simp
  next
    case False
    then obtain j where j: "k = Suc j" "0 < j" using 1(2,3) by (cases k; cases "k - 1") auto
    then have "n div 10 < 10 ^ j" using 1(2) by auto
    then have "length (digits (n div 10)) \<le> j" using 1(1) False j by simp
    then show ?thesis using False j by (subst digits.simps) simp
  qed
qed

lemma digits_head: "\<exists>d cs. digits n = digit d # cs \<and> d < 10"
proof (induction n rule: digits.induct)
  case (1 n)
  then show ?case by (subst digits.simps) (auto, force)
qed

lemma digit_not_minus: "d < 10 \<Longrightarrow> digit d \<noteq> 45"
  using unat_digit [of d] by auto

lemma parse_printf_d: "parse_int (printf_d x) = x"
proof (cases "x < 0")
  case False
  obtain d cs where d: "digits (nat x) = digit d # cs" "d < 10" using digits_head by blast
  with False show ?thesis
    using parse_digits [of "nat x"] digit_not_minus [of d] by (simp add: printf_d_def parse_int_def)
qed (simp add: printf_d_def parse_int_def parse_digits)

lemma length_printf_d: "\<bar>x\<bar> < 10 ^ k \<Longrightarrow> 0 < k \<Longrightarrow> length (printf_d x) \<le> Suc k"
  using length_digits [of "nat (- x)" k] length_digits [of "nat x" k]
  by (auto simp: printf_d_def nat_less_iff)

lemma length_printf_d_8:
  assumes "in_urange n x \<or> in_srange n x" "n \<le> 8"
  shows "length (printf_d x) \<le> 21"
proof -
  have "(256 :: int) ^ n \<le> 256 ^ 8" using assms(2) by (intro power_increasing) auto
  then have "\<bar>x\<bar> < 256 ^ 8 \<or> \<bar>x\<bar> \<le> 256 ^ 8 div 2" using assms(1) unfolding in_urange_def in_srange_def by linarith
  then have "\<bar>x\<bar> < 10 ^ 20" by auto
  then show ?thesis using length_printf_d [of x 20] by simp
qed

section \<open>The text of a value\<close>

definition decimal_prim :: "ctypes_primitive \<Rightarrow> bool" where
  "decimal_prim p \<longleftrightarrow> p \<notin> {Ctypes_Char, Ctypes_Bool, Ctypes_Float, Ctypes_Double, Ctypes_LDouble,
     Ctypes_Complex32, Ctypes_Complex64, Ctypes_Complexld}"

text \<open>A value is printed as the number that writing it would store.\<close>

definition prints_stored ::
    "platform \<Rightarrow> integers_lib \<Rightarrow> printf_lib \<Rightarrow> ctypes_primitive \<Rightarrow> value \<Rightarrow> int \<Rightarrow> bool" where
  "prints_stored P L F p v x \<longleftrightarrow>
     (in_urange (prim_bytes P p) x \<or> in_srange (prim_bytes P p) x) \<and>
     prim_text P L F p v = Inr (printf_d x) \<and>
     (\<forall>m a. write_prim P L p v m a = store_int P m a (prim_bytes P p) x)"

lemma prim_text_ladder:
  "platform_ok P \<Longrightarrow> prim_rep P p = Some r \<Longrightarrow> prim_text P L F p v =
     bindR (rep_val L r v) (\<lambda>x. Inr (printf_d (if rep_signed r then swrap (prim_bytes P p) x
                                                 else uwrap (prim_bytes P p) x)))"
  using rep_exists [of P] by (cases p) auto

lemma decimal_bytes: "platform_ok P \<Longrightarrow> decimal_prim p \<Longrightarrow> prim_bytes P p \<le> 8"
  by (cases p) (auto simp: decimal_prim_def platform_ok_def)

context integers_interface
begin

lemma ladder_prints:
  assumes P: "platform_ok P" and r: "prim_rep P p = Some r" and R: "prim_repr P L p v"
  shows "\<exists>x. prints_stored P L F p v x"
proof -
  note l = ladder_io [OF P r]
  obtain x where v: "v = rep_copy L r x"
    and x: "if rep_signed r then in_srange (rep_bytes r) x else in_urange (rep_bytes r) x"
    using R unfolding prim_repr_rep [OF r] l(1) [symmetric] by blast
  have "rep_val L r v = Inr x"
    using x rep_bytes_pos [of r]
    by (cases "rep_signed r") (simp_all add: v rep_roundtrip_signed rep_roundtrip_unsigned swrap_id uwrap_id)
  then show ?thesis
    using x rep_bytes_pos [of r]
    by (intro exI [of _ x])
      (auto simp: prints_stored_def prim_text_ladder [OF P r] l(2) l(1) [symmetric] swrap_id uwrap_id
        split: if_splits)
qed

lemma immediate_val:
  assumes "platform_ok P" "in_srange n x" "oint_ok P x" "0 < n" "n \<le> sizeof_int P"
  shows "Int_val P (Val_int P x) = Inr x \<and> swrap n x = x"
  using assms platform_okD [OF assms(1)] in_srange_mono [of n "sizeof_int P" x]
  by (simp add: Int_val_Val_int swrap_id)

lemma decimal_prints:
  assumes P: "platform_ok P" and R: "prim_repr P L p v" and d: "decimal_prim p"
  shows "\<exists>x. prints_stored P L F p v x"
proof (cases "prim_rep P p")
  case (Some r)
  then show ?thesis using ladder_prints [OF P _ R] by blast
next
  case None
  note D = platform_okD [OF P]
  have o: "oint_ok P x" if "in_srange 1 x \<or> in_srange 2 x" for x
    using that D(8) by (auto intro: oint_ok_small [of 1] oint_ok_small [of 2])
  note i = immediate_val [OF P]
  have i1: "Int_val P (Val_int P x) = Inr x \<and> swrap 1 x = x" if "in_srange 1 x" for x
    using i [of 1 x] o that D(7) by simp
  have i2: "Int_val P (Val_int P x) = Inr x \<and> swrap 2 x = x" if "in_srange 2 x" for x
    using i [of 2 x] o that D(7) by simp
  have cl: "in_srange (sizeof_ptr P) x \<and> Long_val (Val_long P x) = Inr x" if "oint_ok P x" for x
    using that D(4) by (simp add: Long_val_Val_long) (auto simp: oint_ok_def in_srange_def)
  note simps = prints_stored_def uwrap_id swrap_id
  show ?thesis
  proof (cases p)
    case Ctypes_Schar then show ?thesis using R i1 by (fastforce simp del: One_nat_def simp: simps)
  next
    case Ctypes_Uchar then show ?thesis using R uint8 by (auto simp del: One_nat_def simp: simps)
  next
    case Ctypes_Short then show ?thesis using R i [of "sizeof_short P"] D(5,12) by (force simp: simps)
  next
    case Ctypes_Int then show ?thesis using R i [of "sizeof_int P"] D(3) by (force simp: simps)
  next
    case Ctypes_Int8_t then show ?thesis using R i1 by (fastforce simp del: One_nat_def simp: simps)
  next
    case Ctypes_Int16_t then show ?thesis using R i2 by (fastforce simp: simps)
  next
    case Ctypes_Int32_t then show ?thesis using R by (auto simp: simps)
  next
    case Ctypes_Int64_t then show ?thesis using R by (auto simp: simps)
  next
    case Ctypes_Uint8_t then show ?thesis using R uint8 by (auto simp del: One_nat_def simp: simps)
  next
    case Ctypes_Uint16_t then show ?thesis using R uint16 by (auto simp: simps)
  next
    case Ctypes_Uint32_t then show ?thesis using R uint32 by (auto simp: simps)
  next
    case Ctypes_Uint64_t then show ?thesis using R uint64 by (auto simp: simps)
  next
    case Ctypes_Camlint then show ?thesis using R cl by (fastforce simp: simps)
  next
    case Ctypes_Nativeint then show ?thesis using R D(4) by (auto simp: simps)
  qed (use None d ladder_exists [OF P, of p] in \<open>auto simp: decimal_prim_def\<close>)
qed

end

lemma string_of_prim_short:
  assumes "platform_ok P" "prim_text P L F p v = Inr t" "length t \<le> 64"
  shows "ctypes_string_of_prim P L F (prim_value P p) v = Inr (String_block (take (length t) (take 63 t @ [0])))"
  using assms platform_okD [OF assms(1)] by (simp add: ctypes_string_of_prim_def snprintf_def)

text \<open>
  The text of an integer value is the decimal numeral of the very number that
  \<open>ctypes_write\<close> would store for it, for every integer type; parsing the text gives that
  number back.
\<close>

theorem string_of_integer_prim:
  assumes "platform_ok P" "integers_ok L" "prim_repr P L p v" "decimal_prim p"
  shows "\<exists>x s. ctypes_string_of_prim P L F (prim_value P p) v = Inr (String_block s) \<and>
    parse_int s = x \<and> length s \<le> 21 \<and>
    (\<forall>m a. write_prim P L p v m a = store_int P m a (prim_bytes P p) x)"
proof -
  have I: "integers_interface L" by unfold_locales (rule assms(2))
  obtain x where x: "prints_stored P L F p v x"
    using integers_interface.decimal_prints [OF I assms(1,3,4)] by blast
  have "length (printf_d x) \<le> 21"
    using x decimal_bytes [OF assms(1,4)] by (intro length_printf_d_8) (auto simp: prints_stored_def)
  then show ?thesis
    using x string_of_prim_short [OF assms(1), of L F p v "printf_d x"]
    by (auto simp: prints_stored_def parse_printf_d)
qed

theorem string_of_integer_prim_witness:
  "\<exists>s. ctypes_string_of_prim lp64 (boxed_integers lp64) \<lparr>printf_g12 = (\<lambda>_. [48]), printf_Lg12 = (\<lambda>_. [48]), printf_p = (\<lambda>_. [])\<rparr>
      (prim_value lp64 Ctypes_Int32_t) (Int32_block (- 7)) =
      Inr (String_block s) \<and> length s \<le> 21"
proof -
  have "prim_repr lp64 (boxed_integers lp64) Ctypes_Int32_t (Int32_block (- 7))"
    by (simp add: in_srange_def)
  then show ?thesis
    using string_of_integer_prim [OF platform_ok_lp64 boxed_lp64.ok, of Ctypes_Int32_t "Int32_block (- 7)" "\<lparr>printf_g12 = (\<lambda>_. [48]), printf_Lg12 = (\<lambda>_. [48]), printf_p = (\<lambda>_. [])\<rparr>"]
    by (auto simp: decimal_prim_def)
qed

text \<open>
  C34: the 64-byte buffer is large enough: for every type the whole text is returned and nothing
  is read past the buffer, provided the C library's 12-digit \<open>%g\<close> texts stay below 31
  characters (a \<open>long double\<close> needs at most 20).
\<close>

theorem string_of_prim_fits:
  assumes "platform_ok P" "integers_ok L" "prim_repr P L p v" "prim_text P L F p v = Inr t"
    and "\<forall>d. length (printf_g12 F d) < 31" "\<forall>u. length (printf_Lg12 F u) < 31"
  shows "ctypes_string_of_prim P L F (prim_value P p) v = Inr (String_block t)"
proof -
  have "length t < 64"
  proof (cases "decimal_prim p")
    case True
    have I: "integers_interface L" by unfold_locales (rule assms(2))
    obtain x where x: "prints_stored P L F p v x"
      using integers_interface.decimal_prints [OF I assms(1,3) True] by blast
    have "length (printf_d x) \<le> 21"
      using x decimal_bytes [OF assms(1) True] by (intro length_printf_d_8) (auto simp: prints_stored_def)
    then show ?thesis using x assms(4) by (simp add: prints_stored_def)
  next
    case False
    have g: "length (printf_g12 F d) + length (printf_g12 F e) + 2 < 64"
      "length (printf_Lg12 F u) + length (printf_Lg12 F w) + 2 < 64"
      "length (printf_g12 F d) < 64" "length (printf_Lg12 F u) < 64" for d e u w
      using assms(5) [rule_format, of d] assms(5) [rule_format, of e]
        assms(6) [rule_format, of u] assms(6) [rule_format, of w] by linarith+
    show ?thesis
      using False assms(4) g by (cases p) (auto simp: decimal_prim_def ascii_def)
  qed
  then show ?thesis using string_of_prim_short [OF assms(1,4)] by simp
qed

theorem string_of_prim_fits_witness:
  "ctypes_string_of_prim lp64 (boxed_integers lp64) \<lparr>printf_g12 = (\<lambda>_. [48]), printf_Lg12 = (\<lambda>_. [48]), printf_p = (\<lambda>_. [])\<rparr>
     (prim_value lp64 Ctypes_Bool) (Val_bool lp64 1) = Inr (String_block [116, 114, 117, 101])"
proof -
  let ?F = "\<lparr>printf_g12 = (\<lambda>_. [48]), printf_Lg12 = (\<lambda>_. [48]), printf_p = (\<lambda>_. [])\<rparr>"
  have R: "prim_repr lp64 (boxed_integers lp64) Ctypes_Bool (Val_bool lp64 1)" by auto
  have t: "prim_text lp64 (boxed_integers lp64) ?F Ctypes_Bool (Val_bool lp64 1) = Inr [116, 114, 117, 101]"
    using Int_val_Val_bool [of lp64 1] by (simp add: ascii_def)
  show ?thesis by (rule string_of_prim_fits [OF platform_ok_lp64 boxed_lp64.ok R t]) simp_all
qed

section \<open>Pointers\<close>

text \<open>
  A pointer that is written to memory is read back as the same address, and only the
  bytes of the pointer object change.
\<close>

theorem pointer_roundtrip:
  assumes "p < addr_limit P" "a < addr_limit P" "mapped m a (sizeof_ptr P)"
  shows "\<exists>m'. ctypes_write_pointer P (fatptr P p) (fatptr P a) m = Inr (m', Val_unit) \<and>
    ctypes_read_pointer P (fatptr P a) m' = Inr (CTYPES_FROM_PTR P p) \<and>
    (\<forall>y. y < a \<or> a + sizeof_ptr P \<le> y \<longrightarrow> m' y = m y)"
proof -
  have "int p < 256 ^ sizeof_ptr P" using assms(1) by (metis of_nat_less_iff of_nat_numeral of_nat_power)
  then have "uwrap (sizeof_ptr P) (int p) = int p" by (simp add: uwrap_id in_urange_def)
  then show ?thesis
    using store_int_ok [OF assms(3), of P "int p"] assms(1,2)
    by (auto simp: ctypes_write_pointer_def ctypes_read_pointer_def only_changes_def)
qed

theorem pointer_roundtrip_witness:
  "\<exists>m'. ctypes_write_pointer lp64 (fatptr lp64 48) (fatptr lp64 0) (\<lambda>x. if x < 8 then Some 7 else None) =
       Inr (m', Val_unit) \<and>
     ctypes_read_pointer lp64 (fatptr lp64 0) m' = Inr (CTYPES_FROM_PTR lp64 48)"
  using pointer_roundtrip [of 48 lp64 0 "\<lambda>x. if x < 8 then Some 7 else None"] by (auto simp: mapped_ram)

end
