(* ===== verification/Ffi_Types.thy ===== *)
theory Ffi_Types
  imports Type_Info_Correct
begin

text \<open>
  \<open>src/ctypes-foreign/ffi_type_stubs.c\<close>: the libffi description of each primitive type, and the
  construction of the description of a struct.  libffi is not part of the repository: the
  addresses and contents of its type descriptors and its function \<open>ffi_prep_cif\<close> are the
  parameter \<open>libffi\<close>; what its documentation promises of the descriptors is the locale
  \<open>libffi_types\<close>.
\<close>

section \<open>libffi\<close>

datatype ffi_kind =
    FFI_TYPE_VOID | FFI_TYPE_INT | FFI_TYPE_FLOAT | FFI_TYPE_DOUBLE | FFI_TYPE_LONGDOUBLE
  | FFI_TYPE_UINT8 | FFI_TYPE_SINT8 | FFI_TYPE_UINT16 | FFI_TYPE_SINT16 | FFI_TYPE_UINT32
  | FFI_TYPE_SINT32 | FFI_TYPE_UINT64 | FFI_TYPE_SINT64 | FFI_TYPE_STRUCT | FFI_TYPE_POINTER
  | FFI_TYPE_COMPLEX

record ffi_type =
  ft_size :: nat
  ft_alignment :: nat
  ft_type :: ffi_kind
  ft_elements :: "nat list"

text \<open>The descriptors of \<open>ffi.h\<close> the stubs name.\<close>

datatype ffi_name =
    Ft_void | Ft_uint8 | Ft_sint8 | Ft_uint16 | Ft_sint16 | Ft_uint32 | Ft_sint32 | Ft_uint64
  | Ft_sint64 | Ft_float | Ft_double | Ft_pointer | Ft_uchar | Ft_schar | Ft_ushort | Ft_sshort
  | Ft_uint | Ft_sint | Ft_ulong | Ft_slong

definition all_ffi_names :: "ffi_name list" where
  "all_ffi_names =
     [Ft_void, Ft_uint8, Ft_sint8, Ft_uint16, Ft_sint16, Ft_uint32, Ft_sint32, Ft_uint64,
      Ft_sint64, Ft_float, Ft_double, Ft_pointer, Ft_uchar, Ft_schar, Ft_ushort, Ft_sshort,
      Ft_uint, Ft_sint, Ft_ulong, Ft_slong]"

lemma all_ffi_names: "x \<in> set all_ffi_names"
  by (cases x) (simp_all add: all_ffi_names_def)

datatype ffi_status = FFI_OK | FFI_BAD_TYPEDEF | FFI_BAD_ABI | FFI_OTHER_STATUS

text \<open>The descriptors in memory, by address.\<close>

type_synonym ffi_types = "nat \<Rightarrow> ffi_type option"

text \<open>
  \<open>ffi_prep_cif\<close> takes the descriptors, the ABI, the number of arguments, the result type and
  the argument types; it lays out the structs it meets, and so returns the descriptors.
\<close>

record libffi =
  ffi_type_addr :: "ffi_name \<Rightarrow> nat"
  ffi_type_desc :: "ffi_name \<Rightarrow> ffi_type"
  ffi_prep_cif :: "ffi_types \<Rightarrow> int \<Rightarrow> nat \<Rightarrow> nat \<Rightarrow> nat list \<Rightarrow> ffi_types \<times> ffi_status"
  sizeof_ffi_type :: nat
  sizeof_ffi_arg :: nat
  FFI_DEFAULT_ABI :: int

definition static_types :: "libffi \<Rightarrow> ffi_types" where
  "static_types F a =
     map_option (ffi_type_desc F) (find (\<lambda>x. ffi_type_addr F x = a) all_ffi_names)"

text \<open>The kind of an integer descriptor.\<close>

definition int_kind :: "bool \<Rightarrow> nat \<Rightarrow> ffi_kind" where
  "int_kind s n =
     (if n = 1 then (if s then FFI_TYPE_SINT8 else FFI_TYPE_UINT8)
      else if n = 2 then (if s then FFI_TYPE_SINT16 else FFI_TYPE_UINT16)
      else if n = 4 then (if s then FFI_TYPE_SINT32 else FFI_TYPE_UINT32)
      else (if s then FFI_TYPE_SINT64 else FFI_TYPE_UINT64))"

definition int_desc :: "bool \<Rightarrow> nat \<Rightarrow> ffi_type" where
  "int_desc s n = \<lparr>ft_size = n, ft_alignment = n, ft_type = int_kind s n, ft_elements = []\<rparr>"

text \<open>What \<open>ffi.h\<close> says of the descriptors: size and kind follow the C type of the name.\<close>

fun name_size :: "platform \<Rightarrow> ffi_name \<Rightarrow> nat" where
  "name_size P Ft_void = 1" | "name_size P Ft_uint8 = 1" | "name_size P Ft_sint8 = 1"
| "name_size P Ft_uint16 = 2" | "name_size P Ft_sint16 = 2" | "name_size P Ft_uint32 = 4"
| "name_size P Ft_sint32 = 4" | "name_size P Ft_uint64 = 8" | "name_size P Ft_sint64 = 8"
| "name_size P Ft_float = 4" | "name_size P Ft_double = 8" | "name_size P Ft_pointer = sizeof_ptr P"
| "name_size P Ft_uchar = 1" | "name_size P Ft_schar = 1"
| "name_size P Ft_ushort = sizeof_short P" | "name_size P Ft_sshort = sizeof_short P"
| "name_size P Ft_uint = sizeof_int P" | "name_size P Ft_sint = sizeof_int P"
| "name_size P Ft_ulong = sizeof_long P" | "name_size P Ft_slong = sizeof_long P"

fun name_kind :: "platform \<Rightarrow> ffi_name \<Rightarrow> ffi_kind" where
  "name_kind P Ft_void = FFI_TYPE_VOID"
| "name_kind P Ft_float = FFI_TYPE_FLOAT"
| "name_kind P Ft_double = FFI_TYPE_DOUBLE"
| "name_kind P Ft_pointer = FFI_TYPE_POINTER"
| "name_kind P x = int_kind (x \<in> {Ft_sint8, Ft_sint16, Ft_sint32, Ft_sint64, Ft_schar, Ft_sshort, Ft_sint, Ft_slong})
     (name_size P x)"

locale libffi_types =
  fixes P :: platform and F :: libffi
  assumes addr: "0 < ffi_type_addr F x \<and> ffi_type_addr F x < addr_limit P"
    and same: "ffi_type_addr F x = ffi_type_addr F y \<Longrightarrow> ffi_type_desc F x = ffi_type_desc F y"
    and size: "ft_size (ffi_type_desc F x) = name_size P x"
    and kind: "ft_type (ffi_type_desc F x) = name_kind P x"
    and align: "0 < ft_alignment (ffi_type_desc F x)"
begin

lemma static_lookup: "static_types F (ffi_type_addr F x) = Some (ffi_type_desc F x)"
proof -
  have "find (\<lambda>y. ffi_type_addr F y = ffi_type_addr F x) all_ffi_names \<noteq> None"
    using all_ffi_names [of x] by (auto simp: find_None_iff)
  then obtain y where y: "find (\<lambda>y. ffi_type_addr F y = ffi_type_addr F x) all_ffi_names = Some y" by blast
  then have "ffi_type_addr F y = ffi_type_addr F x" by (auto simp: find_Some_iff)
  then have "ffi_type_desc F y = ffi_type_desc F x" by (rule same)
  with y show ?thesis by (simp add: static_types_def)
qed

lemma static_null: "static_types F 0 = None"
proof -
  have "ffi_type_addr F x \<noteq> 0" for x using addr [of x] by simp
  then show ?thesis by (simp add: static_types_def find_None_iff)
qed

end

text \<open>A table of descriptors with naturally aligned types at 64-byte steps.\<close>

definition example_prep :: "ffi_types \<Rightarrow> int \<Rightarrow> nat \<Rightarrow> nat \<Rightarrow> nat list \<Rightarrow> ffi_types \<times> ffi_status" where
  "example_prep T abi n r args =
     (if abi \<noteq> 2 then (T, FFI_BAD_ABI)
      else if T r = None \<or> (\<exists>a \<in> set (take n args). T a = None) then (T, FFI_BAD_TYPEDEF)
      else (T, FFI_OK))"

fun name_index :: "ffi_name \<Rightarrow> nat" where
  "name_index Ft_void = 0" | "name_index Ft_uint8 = 1" | "name_index Ft_sint8 = 2"
| "name_index Ft_uint16 = 3" | "name_index Ft_sint16 = 4" | "name_index Ft_uint32 = 5"
| "name_index Ft_sint32 = 6" | "name_index Ft_uint64 = 7" | "name_index Ft_sint64 = 8"
| "name_index Ft_float = 9" | "name_index Ft_double = 10" | "name_index Ft_pointer = 11"
| "name_index Ft_uchar = 12" | "name_index Ft_schar = 13" | "name_index Ft_ushort = 14"
| "name_index Ft_sshort = 15" | "name_index Ft_uint = 16" | "name_index Ft_sint = 17"
| "name_index Ft_ulong = 18" | "name_index Ft_slong = 19"

definition example_libffi :: "platform \<Rightarrow> libffi" where
  "example_libffi P =
     \<lparr>ffi_type_addr = (\<lambda>x. 4096 + 64 * name_index x),
      ffi_type_desc = (\<lambda>x. \<lparr>ft_size = name_size P x, ft_alignment = name_size P x,
         ft_type = name_kind P x, ft_elements = []\<rparr>),
      ffi_prep_cif = example_prep,
      sizeof_ffi_type = 24, sizeof_ffi_arg = 8, FFI_DEFAULT_ABI = 2\<rparr>"

lemma name_index_inject: "name_index x = name_index y \<Longrightarrow> x = y"
  by (cases x; cases y) simp_all

lemma name_index_less: "name_index x < 20"
  by (cases x) simp_all

lemma example_libffi_types: "platform_ok P \<Longrightarrow> libffi_types P (example_libffi P)"
proof
  fix x y
  assume P: "platform_ok P"
  have "256 ^ 4 \<le> (256 :: nat) ^ sizeof_ptr P"
    using platform_okD(8) [OF P] by (intro power_increasing) simp_all
  then show "0 < ffi_type_addr (example_libffi P) x \<and> ffi_type_addr (example_libffi P) x < addr_limit P"
    using name_index_less [of x] by (auto simp: example_libffi_def)
  show "0 < ft_alignment (ffi_type_desc (example_libffi P) x)"
    using platform_okD [OF P] by (cases x) (simp_all add: example_libffi_def)
qed (auto simp: example_libffi_def dest: name_index_inject)

interpretation example_lp64: libffi_types lp64 "example_libffi lp64"
  by (rule example_libffi_types) (rule platform_ok_lp64)

section \<open>Primitive types\<close>

definition ctypes_ffi_type_char :: "platform \<Rightarrow> ffi_name" where
  "ctypes_ffi_type_char P = (if char_signed P then Ft_schar else Ft_uchar)"

definition ctypes_ffi_type_camlint :: "platform \<Rightarrow> ffi_name option" where
  "ctypes_ffi_type_camlint P =
     (if sizeof_ptr P = 4 then Some Ft_sint32 else if sizeof_ptr P = 8 then Some Ft_sint64 else None)"

definition ctypes_ffi_type_sllong :: "platform \<Rightarrow> ffi_name option" where
  "ctypes_ffi_type_sllong P = (if MAXU (sizeof_llong P) = UINT64_MAX then Some Ft_sint64 else None)"

definition ctypes_ffi_type_ullong :: "platform \<Rightarrow> ffi_name option" where
  "ctypes_ffi_type_ullong P = (if MAXU (sizeof_llong P) = UINT64_MAX then Some Ft_uint64 else None)"

definition ctypes_ffi_type_size_t :: "platform \<Rightarrow> ffi_name option" where
  "ctypes_ffi_type_size_t P =
     (if MAXU (sizeof_size_t P) = UINT16_MAX then Some Ft_uint16
      else if MAXU (sizeof_size_t P) = UINT32_MAX then Some Ft_uint32
      else if MAXU (sizeof_size_t P) = UINT64_MAX then Some Ft_uint64
      else None)"

text \<open>\<open>None\<close> is the null pointer.\<close>

definition bool_ffi_type :: "platform \<Rightarrow> ffi_name option" where
  "bool_ffi_type P =
     (if sizeof_bool P = 1 then Some Ft_uint8
      else if sizeof_bool P = 2 then Some Ft_uint16
      else if sizeof_bool P = 4 then Some Ft_uint32
      else if sizeof_bool P = 8 then Some Ft_uint64
      else None)"

fun prim_ffi_name :: "platform \<Rightarrow> ctypes_primitive \<Rightarrow> ffi_name option result" where
  "prim_ffi_name P Ctypes_Char = Inr (Some (ctypes_ffi_type_char P))"
| "prim_ffi_name P Ctypes_Schar = Inr (Some Ft_schar)"
| "prim_ffi_name P Ctypes_Uchar = Inr (Some Ft_uchar)"
| "prim_ffi_name P Ctypes_Bool = Inr (bool_ffi_type P)"
| "prim_ffi_name P Ctypes_Short = Inr (Some Ft_sshort)"
| "prim_ffi_name P Ctypes_Int = Inr (Some Ft_sint)"
| "prim_ffi_name P Ctypes_Long = Inr (Some Ft_slong)"
| "prim_ffi_name P Ctypes_Llong = map_sum id Some (need Not_compiled (ctypes_ffi_type_sllong P))"
| "prim_ffi_name P Ctypes_Ushort = Inr (Some Ft_ushort)"
| "prim_ffi_name P Ctypes_Sint = Inr (Some Ft_sint)"
| "prim_ffi_name P Ctypes_Uint = Inr (Some Ft_uint)"
| "prim_ffi_name P Ctypes_Ulong = Inr (Some Ft_ulong)"
| "prim_ffi_name P Ctypes_Ullong = map_sum id Some (need Not_compiled (ctypes_ffi_type_ullong P))"
| "prim_ffi_name P Ctypes_Size_t = map_sum id Some (need Not_compiled (ctypes_ffi_type_size_t P))"
| "prim_ffi_name P Ctypes_Int8_t = Inr (Some Ft_sint8)"
| "prim_ffi_name P Ctypes_Int16_t = Inr (Some Ft_sint16)"
| "prim_ffi_name P Ctypes_Int32_t = Inr (Some Ft_sint32)"
| "prim_ffi_name P Ctypes_Int64_t = Inr (Some Ft_sint64)"
| "prim_ffi_name P Ctypes_Uint8_t = Inr (Some Ft_uint8)"
| "prim_ffi_name P Ctypes_Uint16_t = Inr (Some Ft_uint16)"
| "prim_ffi_name P Ctypes_Uint32_t = Inr (Some Ft_uint32)"
| "prim_ffi_name P Ctypes_Uint64_t = Inr (Some Ft_uint64)"
| "prim_ffi_name P Ctypes_Camlint = map_sum id Some (need Not_compiled (ctypes_ffi_type_camlint P))"
| "prim_ffi_name P Ctypes_Nativeint = map_sum id Some (need Not_compiled (ctypes_ffi_type_camlint P))"
| "prim_ffi_name P Ctypes_Float = Inr (Some Ft_float)"
| "prim_ffi_name P Ctypes_Double = Inr (Some Ft_double)"
| "prim_ffi_name P Ctypes_LDouble = Inr None"
| "prim_ffi_name P Ctypes_Complex32 = Inr None"
| "prim_ffi_name P Ctypes_Complex64 = Inr None"
| "prim_ffi_name P Ctypes_Complexld = Inr None"

text \<open>The switch here has no \<open>default\<close>: another number leaves the null pointer.\<close>

definition ctypes_primitive_ffitype :: "platform \<Rightarrow> libffi \<Rightarrow> value \<Rightarrow> value result" where
  "ctypes_primitive_ffitype P F prim =
     bindR (Int_val P prim) (\<lambda>i.
     bindR (if 0 \<le> i \<and> i < int (length all_prims) then prim_ffi_name P (all_prims ! nat i) else Inr None) (\<lambda>ft.
       Inr (CTYPES_FROM_PTR P (case ft of None \<Rightarrow> 0 | Some x \<Rightarrow> ffi_type_addr F x))))"

definition ctypes_pointer_ffitype :: "platform \<Rightarrow> libffi \<Rightarrow> value \<Rightarrow> value" where
  "ctypes_pointer_ffitype P F u = CTYPES_FROM_PTR P (ffi_type_addr F Ft_pointer)"

definition ctypes_void_ffitype :: "platform \<Rightarrow> libffi \<Rightarrow> value \<Rightarrow> value" where
  "ctypes_void_ffitype P F u = CTYPES_FROM_PTR P (ffi_type_addr F Ft_void)"

section \<open>Struct types\<close>

record ffi_state =
  fheap :: cheap
  ftypes :: ffi_types

definition ctypes_check_ffi_status :: "ffi_status \<Rightarrow> unit result" where
  "ctypes_check_ffi_status status =
     (case status of
        FFI_OK \<Rightarrow> Inr ()
      | FFI_BAD_TYPEDEF \<Rightarrow> Inl (FFI_internal_error ''FFI_BAD_TYPEDEF'')
      | FFI_BAD_ABI \<Rightarrow> Inl (FFI_internal_error ''FFI_BAD_ABI'')
      | FFI_OTHER_STATUS \<Rightarrow> Inl Assert_failure)"

text \<open>The elements array is what is left of the block behind the struct, all null.\<close>

definition struct_room :: "platform \<Rightarrow> libffi \<Rightarrow> nat \<Rightarrow> nat" where
  "struct_room P F n = (n - sizeof_ffi_type F) div sizeof_ptr P"

definition ctypes_allocate_struct_ffitype ::
    "platform \<Rightarrow> allocator \<Rightarrow> libffi \<Rightarrow> value \<Rightarrow> ffi_state \<Rightarrow> (ffi_state \<times> value) result" where
  "ctypes_allocate_struct_ffitype P A F vnargs s =
     bindR (Int_val P vnargs) (\<lambda>nargs.
       let sz = swrap (sizeof_int P)
           (uwrap (sizeof_size_t P) (int (sizeof_ffi_type F) +
              uwrap (sizeof_size_t P) (swrap (sizeof_int P) (1 + nargs)) * int (sizeof_ptr P)))
       in bindR (ctypes_allocate P A (Val_int P 1) (Val_int P sz) (fheap s)) (\<lambda>(h, block).
          bindR (Custom_addr managed_buffer_ops block) (\<lambda>a.
            let room = (case blocks h a of None \<Rightarrow> 0 | Some n \<Rightarrow> struct_room P F n)
            in if 0 \<le> nargs \<and> nat nargs < room
               then Inr (s\<lparr>fheap := h, ftypes := (ftypes s)(a \<mapsto>
                      \<lparr>ft_size = 0, ft_alignment = 0, ft_type = FFI_TYPE_STRUCT,
                       ft_elements = (replicate room 0)[nat nargs := 0]\<rparr>)\<rparr>, block)
               else Inl Memory_fault)))"

definition ctypes_struct_ffitype_set_argument ::
    "platform \<Rightarrow> value \<Rightarrow> value \<Rightarrow> value \<Rightarrow> ffi_state \<Rightarrow> (ffi_state \<times> value) result" where
  "ctypes_struct_ffitype_set_argument P vstruct vindex varg s =
     bindR (Int_val P vindex) (\<lambda>index.
     bindR (CTYPES_TO_PTR P varg) (\<lambda>arg.
     bindR (Custom_addr managed_buffer_ops vstruct) (\<lambda>a.
     bindR (need Memory_fault (ftypes s a)) (\<lambda>t.
       if 0 \<le> index \<and> nat index < length (ft_elements t)
       then Inr (s\<lparr>ftypes := (ftypes s)(a \<mapsto> t\<lparr>ft_elements := (ft_elements t)[nat index := arg]\<rparr>)\<rparr>, Val_unit)
       else Inl Memory_fault))))"

definition ctypes_complete_structspec ::
    "platform \<Rightarrow> libffi \<Rightarrow> value \<Rightarrow> ffi_state \<Rightarrow> ffi_state \<times> value result" where
  "ctypes_complete_structspec P F vstruct s =
     (case Custom_addr managed_buffer_ops vstruct of
        Inl e \<Rightarrow> (s, Inl e)
      | Inr a \<Rightarrow>
          (case ffi_prep_cif F (ftypes s) (FFI_DEFAULT_ABI F) 0 a [] of (types, status) \<Rightarrow>
             (s\<lparr>ftypes := types\<rparr>, bindR (ctypes_check_ffi_status status) (\<lambda>_. Inr Val_unit))))"

section \<open>Properties\<close>

text \<open>The signedness of an integer type.\<close>

definition prim_signed :: "platform \<Rightarrow> ctypes_primitive \<Rightarrow> bool" where
  "prim_signed P p \<longleftrightarrow>
     p \<in> {Ctypes_Schar, Ctypes_Short, Ctypes_Int, Ctypes_Long, Ctypes_Llong, Ctypes_Sint, Ctypes_Int8_t,
       Ctypes_Int16_t, Ctypes_Int32_t, Ctypes_Int64_t, Ctypes_Camlint, Ctypes_Nativeint} \<or>
     p = Ctypes_Char \<and> char_signed P"

definition is_int_prim :: "ctypes_primitive \<Rightarrow> bool" where
  "is_int_prim p \<longleftrightarrow> p \<notin> {Ctypes_Float, Ctypes_Double, Ctypes_LDouble, Ctypes_Complex32,
     Ctypes_Complex64, Ctypes_Complexld}"

text \<open>The description that each primitive type should have.\<close>

definition good_desc :: "platform \<Rightarrow> ctypes_primitive \<Rightarrow> ffi_type \<Rightarrow> bool" where
  "good_desc P p d \<longleftrightarrow> ft_size d = prim_bytes P p \<and> 0 < ft_alignment d \<and>
     ft_type d = (if is_int_prim p then int_kind (prim_signed P p) (prim_bytes P p)
                  else if p = Ctypes_Float then FFI_TYPE_FLOAT else FFI_TYPE_DOUBLE)"

definition no_ffi_type :: "platform \<Rightarrow> ctypes_primitive \<Rightarrow> bool" where
  "no_ffi_type P p \<longleftrightarrow> p \<in> {Ctypes_LDouble, Ctypes_Complex32, Ctypes_Complex64, Ctypes_Complexld} \<or>
     p = Ctypes_Bool \<and> sizeof_bool P \<notin> {1, 2, 4, 8}"

lemma ladder_pow:
  "n \<in> {2, 4, 8} \<Longrightarrow> (256 :: int) ^ n - 1 = 0xFFFF \<longleftrightarrow> n = 2"
  "n \<in> {2, 4, 8} \<Longrightarrow> (256 :: int) ^ n - 1 = 0xFFFFFFFF \<longleftrightarrow> n = 4"
  "n \<in> {2, 4, 8} \<Longrightarrow> (256 :: int) ^ n - 1 = 0xFFFFFFFFFFFFFFFF \<longleftrightarrow> n = 8"
  by auto

context libffi_types
begin

lemma prim_desc:
  assumes "platform_ok P"
  shows "case prim_ffi_name P p of
      Inl e \<Rightarrow> False
    | Inr None \<Rightarrow> no_ffi_type P p
    | Inr (Some x) \<Rightarrow> \<not> no_ffi_type P p \<and> good_desc P p (ffi_type_desc F x)"
proof -
  have S: "sizeof_llong P = 8" "sizeof_size_t P \<in> {2, 4, 8}" "sizeof_ptr P \<in> {4, 8}"
    using assms unfolding platform_ok_def by blast+
  have Z: "\<exists>x. ctypes_ffi_type_size_t P = Some x \<and>
      good_desc P Ctypes_Size_t (ffi_type_desc F x)"
    using S(2) by (auto simp: ctypes_ffi_type_size_t_def MAXU_def UINT16_MAX_def UINT32_MAX_def
        UINT64_MAX_def good_desc_def size kind align is_int_prim_def prim_signed_def)
  have C: "\<exists>x. ctypes_ffi_type_camlint P = Some x \<and> good_desc P Ctypes_Camlint (ffi_type_desc F x) \<and>
      good_desc P Ctypes_Nativeint (ffi_type_desc F x)"
    using S(3) by (auto simp: ctypes_ffi_type_camlint_def good_desc_def size kind align
        is_int_prim_def prim_signed_def)
  have LL: "ctypes_ffi_type_sllong P = Some Ft_sint64" "ctypes_ffi_type_ullong P = Some Ft_uint64"
    using S(1) by (simp_all add: ctypes_ffi_type_sllong_def ctypes_ffi_type_ullong_def MAXU_def UINT64_MAX_def)
  note D = good_desc_def size kind align is_int_prim_def prim_signed_def no_ffi_type_def
  show ?thesis
    using Z C LL S(1)
    by (cases p) (auto simp: D ctypes_ffi_type_char_def bool_ffi_type_def)
qed

end

lemma primitive_ffitype_ok:
  assumes "libffi_types P F" "platform_ok P"
  shows "if no_ffi_type P p then ctypes_primitive_ffitype P F (prim_value P p) = Inr (CTYPES_FROM_PTR P 0)
    else \<exists>a d. ctypes_primitive_ffitype P F (prim_value P p) = Inr (CTYPES_FROM_PTR P a) \<and>
      0 < a \<and> a < addr_limit P \<and> static_types F a = Some d \<and> good_desc P p d"
proof -
  have v: "Int_val P (prim_value P p) = Inr (int (prim_index p))"
    using platform_okD [OF assms(2)] by (simp add: Int_val_prim_value)
  have e: "ctypes_primitive_ffitype P F (prim_value P p) =
      bindR (prim_ffi_name P p) (\<lambda>ft. Inr (CTYPES_FROM_PTR P (case ft of None \<Rightarrow> 0 | Some x \<Rightarrow> ffi_type_addr F x)))"
    using v prim_index_nth [of p] by (simp add: ctypes_primitive_ffitype_def)
  show ?thesis
    unfolding e
    using libffi_types.prim_desc [OF assms(1,2), of p] libffi_types.addr [OF assms(1)]
      libffi_types.static_lookup [OF assms(1)]
    by (auto split: sum.splits option.splits)
qed

text \<open>
  C12: the libffi type of each primitive type has the size, the signedness and the kind of the C
  type, and exactly the types libffi is not used for (\<open>long double\<close> and the complex types) get
  the null pointer.
\<close>

theorem primitive_ffitype_matches:
  assumes "libffi_types P F" "platform_ok P"
  shows "if no_ffi_type P p then ctypes_primitive_ffitype P F (prim_value P p) = Inr (CTYPES_FROM_PTR P 0)
    else \<exists>a d. ctypes_primitive_ffitype P F (prim_value P p) = Inr (CTYPES_FROM_PTR P a) \<and>
      0 < a \<and> a < addr_limit P \<and> static_types F a = Some d \<and> good_desc P p d"
  using assms by (rule primitive_ffitype_ok)

theorem primitive_ffitype_matches_witness:
  "\<exists>a d. ctypes_primitive_ffitype lp64 (example_libffi lp64) (prim_value lp64 Ctypes_Ushort) =
      Inr (CTYPES_FROM_PTR lp64 a) \<and> static_types (example_libffi lp64) a = Some d \<and> ft_size d = 2 \<and>
      ft_type d = FFI_TYPE_UINT16"
  using primitive_ffitype_matches [OF example_lp64.libffi_types_axioms platform_ok_lp64, of Ctypes_Ushort]
  by (auto simp: no_ffi_type_def good_desc_def is_int_prim_def prim_signed_def int_kind_def)

text \<open>Storing the field types one after the other, as the OCaml side does.\<close>

primrec set_fields :: "platform \<Rightarrow> value \<Rightarrow> nat \<Rightarrow> nat list \<Rightarrow> ffi_state \<Rightarrow> ffi_state result" where
  "set_fields P v i [] s = Inr s"
| "set_fields P v i (x # xs) s =
     bindR (ctypes_struct_ffitype_set_argument P v (Val_int P (int i)) (CTYPES_FROM_PTR P x) s)
       (\<lambda>(s', u). set_fields P v (Suc i) xs s')"

definition small_int :: "platform \<Rightarrow> nat \<Rightarrow> bool" where
  "small_int P n \<longleftrightarrow> in_srange (sizeof_int P) (int n) \<and> oint_ok P (int n)"

lemma Int_val_small: "platform_ok P \<Longrightarrow> small_int P n \<Longrightarrow> Int_val P (Val_int P (int n)) = Inr (int n)"
  using platform_okD [of P] by (simp add: small_int_def Int_val_Val_int)

lemma small_int_mono: "small_int P n \<Longrightarrow> k \<le> n \<Longrightarrow> small_int P k"
  by (auto simp: small_int_def in_srange_def oint_ok_def)

lemma set_fields_elements:
  assumes "platform_ok P" "small_int P (i + length xs)" "\<forall>x \<in> set xs. x < addr_limit P"
    and "ftypes s a = Some t" "i + length xs < length (ft_elements t)"
  shows "\<exists>s'. set_fields P (managed_buffer a) i xs s = Inr s' \<and> fheap s' = fheap s \<and>
    ftypes s' = (ftypes s)(a \<mapsto> t\<lparr>ft_elements :=
      take i (ft_elements t) @ xs @ drop (i + length xs) (ft_elements t)\<rparr>)"
  using assms
proof (induction xs arbitrary: i s t)
  case Nil
  then show ?case by (auto simp: fun_upd_idem)
next
  case (Cons x xs)
  let ?e = "(ft_elements t)[i := x]"
  let ?s = "s\<lparr>ftypes := (ftypes s)(a \<mapsto> t\<lparr>ft_elements := ?e\<rparr>)\<rparr>"
  have i: "Int_val P (Val_int P (int i)) = Inr (int i)"
    using Cons.prems(1,2) by (intro Int_val_small) (auto elim: small_int_mono)
  have l: "i < length (ft_elements t)" using Cons.prems(5) by simp
  have st: "ctypes_struct_ffitype_set_argument P (managed_buffer a) (Val_int P (int i)) (CTYPES_FROM_PTR P x) s
      = Inr (?s, Val_unit)"
    using i l Cons.prems(3,4) by (simp add: ctypes_struct_ffitype_set_argument_def)
  have "take (Suc i) ?e = take i (ft_elements t) @ [x]"
    using l by (simp add: take_Suc_conv_app_nth)
  moreover have "drop (Suc i + length xs) ?e = drop (i + length (x # xs)) (ft_elements t)"
    by simp
  ultimately have e: "take (Suc i) ?e @ xs @ drop (Suc i + length xs) ?e =
      take i (ft_elements t) @ (x # xs) @ drop (i + length (x # xs)) (ft_elements t)" by simp
  have "\<exists>s'. set_fields P (managed_buffer a) (Suc i) xs ?s = Inr s' \<and> fheap s' = fheap ?s \<and>
    ftypes s' = (ftypes ?s)(a \<mapsto> (t\<lparr>ft_elements := ?e\<rparr>)\<lparr>ft_elements :=
      take (Suc i) (ft_elements (t\<lparr>ft_elements := ?e\<rparr>)) @ xs @
        drop (Suc i + length xs) (ft_elements (t\<lparr>ft_elements := ?e\<rparr>))\<rparr>)"
    by (rule Cons.IH) (use Cons.prems in auto)
  then obtain s' where s': "set_fields P (managed_buffer a) (Suc i) xs ?s = Inr s'" "fheap s' = fheap s"
    "ftypes s' = (ftypes s)(a \<mapsto> t\<lparr>ft_elements := take (Suc i) ?e @ xs @ drop (Suc i + length xs) ?e\<rparr>)"
    by auto
  show ?case
    unfolding set_fields.simps st using s'(1,2) s'(3) [unfolded e] by (intro exI [of _ s']) simp
qed

lemma update_replicate: "(replicate n x)[i := x] = replicate n x"
  by (induction n arbitrary: i) (auto split: nat.split)

text \<open>A small integer is unchanged by the conversions of a size.\<close>

lemma small_int_wraps:
  assumes "platform_ok P" "sizeof_int P \<le> sizeof_size_t P" "small_int P k"
  shows "swrap (sizeof_int P) (int k) = int k" "uwrap (sizeof_size_t P) (int k) = int k" "k < 256 ^ sizeof_size_t P"
proof -
  have "256 ^ sizeof_int P \<le> (256 :: int) ^ sizeof_size_t P"
    using assms(2) by (intro power_increasing) auto
  then have lt: "int k < 256 ^ sizeof_size_t P"
    using assms(3) unfolding small_int_def in_srange_def by linarith
  then show "uwrap (sizeof_size_t P) (int k) = int k" by (intro uwrap_id) (simp add: in_urange_def)
  from lt show "k < 256 ^ sizeof_size_t P" by (metis of_nat_less_iff of_nat_numeral of_nat_power)
  show "swrap (sizeof_int P) (int k) = int k"
    using assms(3) platform_okD(3) [OF assms(1)] by (simp add: small_int_def swrap_id)
qed

text \<open>The block of a struct type: room for the descriptor, its elements and the null.\<close>

lemma struct_ffitype_allocated:
  assumes "c_allocator P A" "heap_ok P (fheap s)" "platform_ok P" "sizeof_int P \<le> sizeof_size_t P"
    and sz: "sz = sizeof_ffi_type F + (1 + n) * sizeof_ptr P" "small_int P sz" and a: "place A (fheap s) sz = Some a"
  shows "ctypes_allocate_struct_ffitype P A F (Val_int P (int n)) s =
      Inr (s\<lparr>fheap := install a (replicate sz 0) (fheap s),
             ftypes := (ftypes s)(a \<mapsto> \<lparr>ft_size = 0, ft_alignment = 0, ft_type = FFI_TYPE_STRUCT,
               ft_elements = replicate (1 + n) 0\<rparr>)\<rparr>, managed_buffer a)" "small_int P n"
proof -
  note D = platform_okD [OF assms(3)] and wraps = small_int_wraps [OF assms(3,4)]
  have "n + 1 \<le> (1 + n) * sizeof_ptr P" using D(4) by (cases "sizeof_ptr P") auto
  then have n: "n + 1 \<le> sz" by (simp add: sz(1))
  then have sm: "small_int P n" "small_int P (1 + n)" "small_int P 1"
    by (auto intro: small_int_mono [OF sz(2)])
  show "small_int P n" by (rule sm(1))
  let ?m = "int (sizeof_ffi_type F) + uwrap (sizeof_size_t P) (swrap (sizeof_int P) (1 + int n)) * int (sizeof_ptr P)"
  have "swrap (sizeof_int P) (1 + int n) = int (1 + n)" using wraps(1) [OF sm(2)] by simp
  then have "?m = int sz" using wraps(2) [OF sm(2)] by (simp add: sz(1) algebra_simps)
  then have m: "swrap (sizeof_int P) (uwrap (sizeof_size_t P) ?m) = int sz" using wraps(1,2) [OF sz(2)] by simp
  have al: "ctypes_allocate P A (Val_int P 1) (Val_int P (int sz)) (fheap s) =
      Inr (install a (replicate sz 0) (fheap s), managed_buffer a)"
    using allocate_eq [of P 1 sz A "fheap s"] calloc_eq [of 1 sz P A "fheap s" a] D(4) sm(3) sz(2) a
      wraps(3) [OF sm(3)] wraps(3) [OF sz(2)] n fresh_limit [OF c_allocator.place_fresh [OF assms(1,2) a]]
    by (simp add: small_int_def)
  have room: "struct_room P F sz = 1 + n" using D(4) by (simp add: struct_room_def sz(1))
  have z: "(replicate (1 + n) 0)[n := 0] = (replicate (1 + n) (0 :: nat))" by (rule update_replicate)
  show "ctypes_allocate_struct_ffitype P A F (Val_int P (int n)) s =
      Inr (s\<lparr>fheap := install a (replicate sz 0) (fheap s),
             ftypes := (ftypes s)(a \<mapsto> \<lparr>ft_size = 0, ft_alignment = 0, ft_type = FFI_TYPE_STRUCT,
               ft_elements = replicate (1 + n) 0\<rparr>)\<rparr>, managed_buffer a)"
    using Int_val_small [OF assms(3) sm(1)] al room z
    unfolding ctypes_allocate_struct_ffitype_def Let_def by (simp add: m)
qed

lemma complete_structspec_eq:
  assumes "ffi_prep_cif F (ftypes s) (FFI_DEFAULT_ABI F) 0 a [] = (types, status)"
  shows "ctypes_complete_structspec P F (managed_buffer a) s =
    (s\<lparr>ftypes := types\<rparr>, case status of FFI_OK \<Rightarrow> Inr Val_unit
       | FFI_BAD_TYPEDEF \<Rightarrow> Inl (FFI_internal_error ''FFI_BAD_TYPEDEF'')
       | FFI_BAD_ABI \<Rightarrow> Inl (FFI_internal_error ''FFI_BAD_ABI'')
       | FFI_OTHER_STATUS \<Rightarrow> Inl Assert_failure)"
  using assms by (simp add: ctypes_complete_structspec_def ctypes_check_ffi_status_def split: ffi_status.split)

text \<open>
  C14: building a struct type: after \<open>allocate_struct_ffitype n\<close> and storing the \<open>n\<close> field types
  the descriptor is a struct whose elements are those fields followed by the terminating null,
  in a block of exactly the right size; and completing it raises the exception of the status
  that libffi returns.
\<close>

theorem struct_ffitype_built:
  assumes "c_allocator P A" "heap_ok P (fheap s)" "platform_ok P" "sizeof_int P \<le> sizeof_size_t P"
    and "sz = sizeof_ffi_type F + (1 + length xs) * sizeof_ptr P" "small_int P sz"
    and "place A (fheap s) sz = Some a" "\<forall>x \<in> set xs. x < addr_limit P"
  shows "\<exists>s1 s2 t. ctypes_allocate_struct_ffitype P A F (Val_int P (int (length xs))) s = Inr (s1, managed_buffer a) \<and>
    set_fields P (managed_buffer a) 0 xs s1 = Inr s2 \<and> heap_ok P (fheap s2) \<and> blocks (fheap s2) a = Some sz \<and>
    ftypes s2 a = Some t \<and> ft_type t = FFI_TYPE_STRUCT \<and> ft_elements t = xs @ [0] \<and>
    (\<forall>types status. ffi_prep_cif F (ftypes s2) (FFI_DEFAULT_ABI F) 0 a [] = (types, status) \<longrightarrow>
       ctypes_complete_structspec P F (managed_buffer a) s2 =
         (s2\<lparr>ftypes := types\<rparr>, case status of FFI_OK \<Rightarrow> Inr Val_unit
            | FFI_BAD_TYPEDEF \<Rightarrow> Inl (FFI_internal_error ''FFI_BAD_TYPEDEF'')
            | FFI_BAD_ABI \<Rightarrow> Inl (FFI_internal_error ''FFI_BAD_ABI'')
            | FFI_OTHER_STATUS \<Rightarrow> Inl Assert_failure))"
proof -
  let ?n = "length xs"
  let ?t = "\<lparr>ft_size = 0, ft_alignment = 0, ft_type = FFI_TYPE_STRUCT, ft_elements = replicate (1 + ?n) 0\<rparr>"
  define s1 where "s1 = s\<lparr>fheap := install a (replicate sz 0) (fheap s), ftypes := (ftypes s)(a \<mapsto> ?t)\<rparr>"
  note A = struct_ffitype_allocated [OF assms(1-7), folded s1_def]
  have T: "ftypes s1 a = Some ?t" "0 + ?n < length (ft_elements ?t)" by (simp_all add: s1_def)
  have e: "xs @ drop ?n (replicate (1 + ?n) 0) = xs @ [0 :: nat]" using drop_replicate [of ?n "1 + ?n" "0 :: nat"] by simp
  obtain s2 where B: "set_fields P (managed_buffer a) 0 xs s1 = Inr s2" "fheap s2 = fheap s1"
    "ftypes s2 a = Some (?t\<lparr>ft_elements := xs @ [0]\<rparr>)"
    using set_fields_elements [OF assms(3) _ assms(8) T] A(2) e by auto
  have "heap_ok P (fheap s2)" "blocks (fheap s2) a = Some sz"
    using install_heap_ok [OF assms(2)] c_allocator.place_fresh [OF assms(1,2,7)] B(2) by (simp_all add: s1_def)
  moreover have "ft_type (?t\<lparr>ft_elements := xs @ [0]\<rparr>) = FFI_TYPE_STRUCT" "ft_elements (?t\<lparr>ft_elements := xs @ [0]\<rparr>) = xs @ [0]"
    by simp_all
  ultimately show ?thesis using A(1) B(1,3) complete_structspec_eq [of F s2 a _ _ P] by blast
qed

theorem struct_ffitype_built_witness:
  "\<exists>s1 s2 t. ctypes_allocate_struct_ffitype lp64 (bump lp64 4096) (example_libffi lp64) (Val_int lp64 (int 2))
      \<lparr>fheap = empty_heap, ftypes = static_types (example_libffi lp64)\<rparr> = Inr (s1, managed_buffer 16) \<and>
    set_fields lp64 (managed_buffer 16) 0 [4160, 4224] s1 = Inr s2 \<and>
    ftypes s2 16 = Some t \<and> ft_elements t = [4160, 4224, 0]"
proof -
  let ?s = "\<lparr>fheap = empty_heap, ftypes = static_types (example_libffi lp64)\<rparr>"
  have "small_int lp64 48" by (simp add: small_int_def in_srange_def oint_ok_def)
  then show ?thesis
    using struct_ffitype_built [OF bump.c_allocator_axioms [of lp64 4096] _ platform_ok_lp64, of ?s 48
        "example_libffi lp64" "[4160, 4224]" 16]
    by (auto simp: empty_heap_ok example_libffi_def bump_4096)
qed

end
