(* ===== verification/Callspec.thy ===== *)
theory Callspec
  imports Ffi_Types
begin

text \<open>
  \<open>src/ctypes-foreign/ffi_call_stubs.c\<close>, the call specification: the layout of the buffer that
  holds the arguments and the return value of a C call, built one argument at a time, and the
  computation that lays out a concrete buffer from it.  The record \<open>callspec\<close> is the C struct;
  its array \<open>args\<close> is the list of its \<open>capacity\<close> slots (\<open>None\<close>: not initialised).  All
  \<open>size_t\<close> arithmetic wraps; the \<open>int\<close> that \<open>add_argument\<close> keeps the offset in is narrower.
\<close>

section \<open>Offsets\<close>

abbreviation size_max :: "platform \<Rightarrow> nat" where
  "size_max P \<equiv> 256 ^ sizeof_size_t P"

text \<open>The remainder by a zero alignment traps.\<close>

definition aligned_offset :: "platform \<Rightarrow> nat \<Rightarrow> nat \<Rightarrow> nat result" where
  "aligned_offset P offset alignment =
     (if alignment = 0 then Inl Division_trap
      else let overhang = offset mod alignment
           in if overhang = 0 then Inr offset
              else Inr ((offset - overhang + alignment) mod size_max P))"

text \<open>The least multiple of the alignment that is not below the offset.\<close>

definition align_up :: "nat \<Rightarrow> nat \<Rightarrow> nat" where
  "align_up n a = (if n mod a = 0 then n else n - n mod a + a)"

lemma align_up_props:
  assumes "0 < a"
  shows "n \<le> align_up n a" "a dvd align_up n a" "align_up n a < n + a" "a dvd k \<Longrightarrow> n \<le> k \<Longrightarrow> align_up n a \<le> k"
proof -
  have l: "n mod a < a" "n mod a \<le> n" using assms by simp_all
  have c: "align_up n a = n \<or> align_up n a = n - n mod a + a" by (simp add: align_up_def)
  show "n \<le> align_up n a" using c l by linarith
  show "align_up n a < n + a"
  proof (cases "n mod a = 0")
    case False
    then have "n - n mod a + a < n + a" using l by linarith
    with False show ?thesis by (simp only: align_up_def if_False)
  qed (use assms in \<open>simp add: align_up_def\<close>)
  have d: "a dvd n - n mod a" by (simp add: dvd_minus_mod)
  show "a dvd align_up n a"
  proof (cases "n mod a = 0")
    case False
    then show ?thesis using dvd_add [OF d dvd_refl] by (simp only: align_up_def if_False)
  qed (simp add: align_up_def dvd_eq_mod_eq_0)
  show "align_up n a \<le> k" if k: "a dvd k" "n \<le> k"
  proof (cases "n mod a = 0")
    case False
    obtain q where q: "n - n mod a = a * q" using d by blast
    obtain r where r: "k = a * r" using k(1) by blast
    have "a * q < a * r" using False k(2) l q r by linarith
    then have "Suc q \<le> r" by (simp add: assms)
    then have "a * Suc q \<le> a * r" by (rule mult_le_mono2)
    then show ?thesis using False q r by (simp add: align_up_def)
  qed (use k in \<open>simp add: align_up_def\<close>)
qed

lemma aligned_offset_eq:
  "0 < a \<Longrightarrow> align_up n a < size_max P \<Longrightarrow> aligned_offset P n a = Inr (align_up n a)"
  by (auto simp: aligned_offset_def align_up_def Let_def)

lemma align_up_idem: "a dvd n \<Longrightarrow> align_up n a = n"
  by (simp add: align_up_def dvd_eq_mod_eq_0)

section \<open>The call specification\<close>

datatype spec_state = BUILDING | CALLSPEC

record call_context =
  check_errno :: bool
  runtime_lock :: bool
  thread_registration :: bool

text \<open>What \<open>ffi_prep_cif\<close> stores in the interface structure of a call.\<close>

record ffi_cif =
  cif_abi :: int
  cif_nargs :: nat
  cif_rtype :: nat
  cif_arg_types :: "nat list"

record callspec =
  bytes :: nat
  nelements :: nat
  capacity :: nat
  max_align :: nat
  state :: spec_state
  args :: "nat option list"
  roffset :: nat
  radjustment :: nat
  spec_context :: call_context
  cif :: "ffi_cif option"

definition callspec_prototype :: "platform \<Rightarrow> callspec" where
  "callspec_prototype P =
     \<lparr>bytes = 0, nelements = 0, capacity = 0, max_align = 0, state = BUILDING, args = [],
      roffset = size_max P - 1, radjustment = 0,
      spec_context = \<lparr>check_errno = False, runtime_lock = False, thread_registration = False\<rparr>, cif = None\<rparr>"

text \<open>The one-bit fields of the context keep the lowest bit of the values stored in them.\<close>

definition ctypes_allocate_callspec :: "platform \<Rightarrow> value \<Rightarrow> value \<Rightarrow> value \<Rightarrow> callspec result" where
  "ctypes_allocate_callspec P vcheck vlock vthread =
     bindR (Int_val P vcheck) (\<lambda>c.
     bindR (Int_val P vlock) (\<lambda>l.
     bindR (Int_val P vthread) (\<lambda>t.
       Inr ((callspec_prototype P)\<lparr>spec_context :=
         \<lparr>check_errno = odd c, runtime_lock = odd l, thread_registration = odd t\<rparr>\<rparr>))))"

text \<open>The finaliser gives the array and the interface structure back.\<close>

definition finalize_callspec :: "callspec \<Rightarrow> callspec" where
  "finalize_callspec spec = spec\<lparr>args := [], cif := None\<rparr>"

definition increment_size :: nat where
  "increment_size = 8"

text \<open>\<open>caml_stat_resize\<close> keeps the old slots; the new ones are not initialised.\<close>

definition stat_resize :: "nat option list \<Rightarrow> nat \<Rightarrow> nat option list" where
  "stat_resize xs n = take n xs @ replicate (n - length xs) None"

definition args_set :: "nat option list \<Rightarrow> nat \<Rightarrow> nat \<Rightarrow> nat option list result" where
  "args_set xs i x = (if i < length xs then Inr (xs[i := Some x]) else Inl Memory_fault)"

definition ctypes_add_argument ::
    "platform \<Rightarrow> ffi_types \<Rightarrow> callspec \<Rightarrow> value \<Rightarrow> (callspec \<times> value) result" where
  "ctypes_add_argument P T spec argument =
     bindR (CTYPES_TO_PTR P argument) (\<lambda>argtype.
       if state spec \<noteq> BUILDING then Inl Assert_failure
       else
         bindR (need Memory_fault (T argtype)) (\<lambda>t.
         bindR (aligned_offset P (bytes spec) (ft_alignment t)) (\<lambda>o1.
           let offset = swrap (sizeof_int P) (int o1);
               bytes' = nat (uwrap (sizeof_size_t P) (uwrap (sizeof_size_t P) offset + int (ft_size t)));
               grow = nelements spec + 2 \<ge> capacity spec;
               capacity' = (if grow then capacity spec + increment_size else capacity spec);
               args0 = (if grow then stat_resize (args spec) capacity' else args spec)
           in bindR (args_set args0 (nelements spec) argtype) (\<lambda>args1.
              bindR (args_set args1 (nelements spec + 1) 0) (\<lambda>args2.
                Inr (spec\<lparr>bytes := bytes', args := args2, capacity := capacity',
                       nelements := nelements spec + 1,
                       max_align := (if ft_alignment t > max_align spec then ft_alignment t
                                     else max_align spec)\<rparr>,
                     Val_long P offset))))))"

definition ffi_return_type_adjustment :: "platform \<Rightarrow> libffi \<Rightarrow> ffi_type \<Rightarrow> nat" where
  "ffi_return_type_adjustment P F t =
     (if big_endian P \<and> ft_size t < sizeof_ffi_arg F \<and>
         ft_type t \<in> {FFI_TYPE_INT, FFI_TYPE_UINT8, FFI_TYPE_SINT8, FFI_TYPE_UINT16, FFI_TYPE_SINT16,
           FFI_TYPE_UINT32, FFI_TYPE_SINT32, FFI_TYPE_UINT64, FFI_TYPE_SINT64}
      then sizeof_ffi_arg F - ft_size t else 0)"

definition pointer_alignment :: "libffi \<Rightarrow> nat" where
  "pointer_alignment F = ft_alignment (ffi_type_desc F Ft_pointer)"

definition pointer_size :: "libffi \<Rightarrow> nat" where
  "pointer_size F = ft_size (ffi_type_desc F Ft_pointer)"

text \<open>The types \<open>ffi_prep_cif\<close> is given: the first \<open>nelements\<close> slots.\<close>

definition arg_types :: "callspec \<Rightarrow> nat list result" where
  "arg_types spec =
     (if nelements spec \<le> length (args spec) \<and> list_all (\<lambda>x. x \<noteq> None) (take (nelements spec) (args spec))
      then Inr (map the (take (nelements spec) (args spec))) else Inl Memory_fault)"

text \<open>
  The final layout of the specification, before \<open>ffi_prep_cif\<close> is called: the place of the
  return value and the extra word behind it.
\<close>

definition prep_layout :: "platform \<Rightarrow> libffi \<Rightarrow> ffi_type \<Rightarrow> callspec \<Rightarrow> callspec result" where
  "prep_layout P F r spec =
     bindR (aligned_offset P (bytes spec) (ft_alignment r)) (\<lambda>ro.
     bindR (aligned_offset P ((ro + ft_size r) mod size_max P) (pointer_alignment F)) (\<lambda>b.
       Inr (spec\<lparr>roffset := ro, radjustment := ffi_return_type_adjustment P F r,
                  bytes := (b + pointer_size F) mod size_max P\<rparr>)))"

text \<open>
  The specification is changed even when the status makes the call raise: it then has a
  \<open>cif\<close> but is still \<open>BUILDING\<close>.  \<open>caml_stat_alloc\<close> does not fail here.
\<close>

definition ctypes_prep_callspec ::
    "platform \<Rightarrow> libffi \<Rightarrow> ffi_types \<Rightarrow> callspec \<Rightarrow> value \<Rightarrow> value \<Rightarrow>
       (callspec \<times> ffi_types \<times> value result) result" where
  "ctypes_prep_callspec P F T spec vabi rtype =
     bindR (CTYPES_TO_PTR P rtype) (\<lambda>rffitype.
     bindR (Int_val P vabi) (\<lambda>abi.
     bindR (need Memory_fault (T rffitype)) (\<lambda>r.
     bindR (prep_layout P F r spec) (\<lambda>s1.
     bindR (arg_types s1) (\<lambda>ats.
       case ffi_prep_cif F T abi (nelements s1) rffitype ats of (T', status) \<Rightarrow>
         let s2 = s1\<lparr>cif := Some \<lparr>cif_abi = abi, cif_nargs = nelements s1, cif_rtype = rffitype,
                                cif_arg_types = ats\<rparr>\<rparr>
         in case ctypes_check_ffi_status status of
              Inl e \<Rightarrow> Inr (s2, T', Inl e)
            | Inr u \<Rightarrow> Inr (s2\<lparr>state := CALLSPEC\<rparr>, T', Inr Val_unit))))))"

section \<open>The call buffer\<close>

text \<open>The size of the buffer and the offset of the pointer array in it.\<close>

definition compute_arg_buffer_size :: "platform \<Rightarrow> libffi \<Rightarrow> callspec \<Rightarrow> (nat \<times> nat) result" where
  "compute_arg_buffer_size P F spec =
     (if state spec \<noteq> CALLSPEC then Inl Assert_failure
      else bindR (aligned_offset P (bytes spec) (pointer_alignment F)) (\<lambda>arg_array_offset.
        Inr ((arg_array_offset + nelements spec * sizeof_ptr P) mod size_max P, arg_array_offset)))"

text \<open>The loop: the pointers stored, from argument \<open>i\<close> at running offset \<open>offset\<close>, \<open>n\<close> rounds.\<close>

primrec populate_from ::
    "platform \<Rightarrow> ffi_types \<Rightarrow> nat option list \<Rightarrow> nat \<Rightarrow> nat \<Rightarrow> nat \<Rightarrow> nat \<Rightarrow> nat list result" where
  "populate_from P T as buf i offset 0 = Inr []"
| "populate_from P T as buf i offset (Suc n) =
     bindR (need Memory_fault (if i < length as then as ! i else None)) (\<lambda>a.
     bindR (need Memory_fault (T a)) (\<lambda>t.
     bindR (aligned_offset P offset (ft_alignment t)) (\<lambda>o1.
     bindR (populate_from P T as buf (i + 1) ((o1 + ft_size t) mod size_max P) n) (\<lambda>rest.
       Inr ((buf + o1) # rest)))))"

definition populate_arg_array :: "platform \<Rightarrow> ffi_types \<Rightarrow> callspec \<Rightarrow> nat \<Rightarrow> nat list result" where
  "populate_arg_array P T spec callbuffer = populate_from P T (args spec) callbuffer 0 0 (nelements spec)"

end
