(* ===== verification/Callspec_Layout.thy ===== *)
theory Callspec_Layout
  imports Callspec
begin

text \<open>
  Correctness of the call specification: the abstract layout of a list of types, that adding
  arguments one by one builds exactly that layout and keeps the null-terminated array of
  types, and that the buffer of a call follows it: every slot is aligned, slots do not overlap,
  the return value and the array of pointers have room of their own.
\<close>

section \<open>The abstract layout\<close>

text \<open>Each object goes to the first suitably aligned offset behind the one before it.\<close>

primrec layout :: "nat \<Rightarrow> ffi_type list \<Rightarrow> nat list" where
  "layout n [] = []"
| "layout n (t # ts) =
     (let p = align_up n (ft_alignment t) in p # layout (p + ft_size t) ts)"

primrec layout_end :: "nat \<Rightarrow> ffi_type list \<Rightarrow> nat" where
  "layout_end n [] = n"
| "layout_end n (t # ts) = layout_end (align_up n (ft_alignment t) + ft_size t) ts"

definition types_ok :: "ffi_type list \<Rightarrow> bool" where
  "types_ok ts \<longleftrightarrow> (\<forall>t \<in> set ts. 0 < ft_alignment t)"

lemma types_ok_simps [simp]:
  "types_ok []" "types_ok (t # ts) \<longleftrightarrow> 0 < ft_alignment t \<and> types_ok ts"
  "types_ok (ts @ us) \<longleftrightarrow> types_ok ts \<and> types_ok us"
  by (auto simp: types_ok_def)

lemma layout_snoc:
  "layout n (ts @ [t]) = layout n ts @ [align_up (layout_end n ts) (ft_alignment t)]"
  "layout_end n (ts @ [t]) = align_up (layout_end n ts) (ft_alignment t) + ft_size t"
  by (induction ts arbitrary: n) (simp_all add: Let_def)

lemma length_layout [simp]: "length (layout n ts) = length ts"
  by (induction ts arbitrary: n) (simp_all add: Let_def)

lemma layout_end_ge: "types_ok ts \<Longrightarrow> n \<le> layout_end n ts"
proof (induction ts arbitrary: n)
  case (Cons t ts)
  then have "n \<le> align_up n (ft_alignment t)" by (simp add: align_up_props)
  then show ?case using Cons by (auto intro: le_trans [OF _ Cons.IH])
qed simp

lemma layout_end_append: "layout_end n (ts @ us) = layout_end (layout_end n ts) us"
  by (induction ts arbitrary: n) simp_all

lemma layout_prefix_le: "types_ok us \<Longrightarrow> layout_end n ts \<le> layout_end n (ts @ us)"
  by (simp add: layout_end_append layout_end_ge)

lemma layout_ge: "types_ok ts \<Longrightarrow> i < length ts \<Longrightarrow> n \<le> layout n ts ! i"
proof (induction ts arbitrary: n i)
  case (Cons t ts)
  then have "n \<le> align_up n (ft_alignment t)" by (simp add: align_up_props)
  then show ?case using Cons by (cases i) (auto simp: Let_def intro: le_trans [OF _ Cons.IH])
qed simp

lemma layout_aligned:
  "types_ok ts \<Longrightarrow> i < length ts \<Longrightarrow> ft_alignment (ts ! i) dvd layout n ts ! i"
proof (induction ts arbitrary: n i)
  case (Cons t ts)
  then show ?case by (cases i) (auto simp: Let_def align_up_props)
qed simp

lemma layout_within:
  "types_ok ts \<Longrightarrow> i < length ts \<Longrightarrow> layout n ts ! i + ft_size (ts ! i) \<le> layout_end n ts"
proof (induction ts arbitrary: n i)
  case (Cons t ts)
  then show ?case by (cases i) (auto simp: Let_def layout_end_ge)
qed simp

lemma layout_disjoint:
  "types_ok ts \<Longrightarrow> i < j \<Longrightarrow> j < length ts \<Longrightarrow>
     layout n ts ! i + ft_size (ts ! i) \<le> layout n ts ! j"
proof (induction ts arbitrary: n i j)
  case (Cons t ts)
  then obtain j' where "j = Suc j'" by (cases j) auto
  with Cons show ?case by (cases i) (auto simp: Let_def layout_ge)
qed simp

section \<open>Building\<close>

definition max_alignment :: "ffi_type list \<Rightarrow> nat" where
  "max_alignment ts = foldl (\<lambda>m t. max m (ft_alignment t)) 0 ts"

text \<open>The arguments \<open>ats\<close> (addresses of their types) have been added to a specification.\<close>

definition builds :: "ffi_types \<Rightarrow> callspec \<Rightarrow> nat list \<Rightarrow> ffi_type list \<Rightarrow> bool" where
  "builds T spec ats ts \<longleftrightarrow>
     state spec = BUILDING \<and> map T ats = map Some ts \<and> types_ok ts \<and>
     nelements spec = length ats \<and> capacity spec = length (args spec) \<and>
     take (length ats) (args spec) = map Some ats \<and>
     (ats \<noteq> [] \<longrightarrow> length ats < capacity spec \<and> args spec ! length ats = Some 0) \<and>
     bytes spec = layout_end 0 ts \<and> max_align spec = max_alignment ts"

lemma builds_prototype:
  "ctypes_allocate_callspec P c l t = Inr spec \<Longrightarrow> builds T spec [] []"
  by (auto simp: ctypes_allocate_callspec_def callspec_prototype_def builds_def max_alignment_def)

text \<open>Sizes that the \<open>int\<close> of \<open>add_argument\<close> and \<open>size_t\<close> hold.\<close>

definition fits :: "platform \<Rightarrow> nat \<Rightarrow> bool" where
  "fits P n \<longleftrightarrow> small_int P n \<and> sizeof_int P \<le> sizeof_size_t P"

lemma fits_mono: "fits P n \<Longrightarrow> k \<le> n \<Longrightarrow> fits P k"
  by (auto simp: fits_def intro: small_int_mono)

lemma fitsD:
  assumes "fits P n" "0 < sizeof_int P"
  shows "n < size_max P" "swrap (sizeof_int P) (int n) = int n" "uwrap (sizeof_size_t P) (int n) = int n"
    "oint_ok P (int n)"
proof -
  have "256 ^ sizeof_int P \<le> (256 :: int) ^ sizeof_size_t P"
    using assms(1) by (intro power_increasing) (auto simp: fits_def)
  then have *: "int n < 256 ^ sizeof_size_t P"
    using assms(1) unfolding fits_def small_int_def in_srange_def by linarith
  then show "n < size_max P" by (metis of_nat_less_iff of_nat_numeral of_nat_power)
  show "uwrap (sizeof_size_t P) (int n) = int n" using * by (simp add: uwrap_id in_urange_def)
  show "swrap (sizeof_int P) (int n) = int n" "oint_ok P (int n)"
    using assms by (simp_all add: fits_def small_int_def swrap_id)
qed

lemma args_store:
  assumes "take n xs = map Some ats" "length ats = n" "n + 1 < length xs"
  shows "args_set xs n a = Inr (xs[n := Some a])"
    "args_set (xs[n := Some a]) (n + 1) 0 = Inr (xs[n := Some a, n + 1 := Some 0])"
    "take (n + 1) (xs[n := Some a, n + 1 := Some 0]) = map Some (ats @ [a])"
    "xs[n := Some a, n + 1 := Some 0] ! (n + 1) = Some 0"
  using assms by (simp_all add: args_set_def take_Suc_conv_app_nth)

lemma add_argument_ok:
  assumes B: "builds T spec ats ts" and P: "platform_ok P"
    and a: "a < addr_limit P" "T a = Some t" "0 < ft_alignment t"
    and F: "fits P (layout_end 0 (ts @ [t]))"
  shows "\<exists>spec'. ctypes_add_argument P T spec (CTYPES_FROM_PTR P a) =
      Inr (spec', Val_long P (int (align_up (layout_end 0 ts) (ft_alignment t)))) \<and>
    builds T spec' (ats @ [a]) (ts @ [t]) \<and> spec_context spec' = spec_context spec"
proof -
  let ?n = "length ats" and ?o = "align_up (layout_end 0 ts) (ft_alignment t)"
  note D = platform_okD [OF P]
  have oe: "?o + ft_size t = layout_end 0 (ts @ [t])" by (simp add: layout_snoc)
  have fo: "fits P ?o" using oe by (intro fits_mono [OF F]) simp
  note fo' = fitsD [OF fo D(3)] and fe' = fitsD [OF F D(3)]
  have b: "bytes spec = layout_end 0 ts" "state spec = BUILDING" "nelements spec = ?n"
    "capacity spec = length (args spec)" "take ?n (args spec) = map Some ats"
    "max_align spec = max_alignment ts"
    using B by (auto simp: builds_def)
  have al: "aligned_offset P (bytes spec) (ft_alignment t) = Inr ?o"
    unfolding b(1) using a(3) fo'(1) by (rule aligned_offset_eq)
  have byt: "nat (uwrap (sizeof_size_t P) (uwrap (sizeof_size_t P) (int ?o) + int (ft_size t))) = layout_end 0 (ts @ [t])"
    unfolding fo'(3) using fe'(3) oe by (metis nat_int of_nat_add)
  let ?grow = "?n + 2 \<ge> length (args spec)"
  define xs where "xs = (if ?grow then stat_resize (args spec) (length (args spec) + increment_size) else args spec)"
  have nl: "?n \<le> length (args spec)" using b(5) by (metis length_map length_take min.cobounded2 min.commute)
  have len: "length xs = (if ?grow then length (args spec) + increment_size else length (args spec))"
    by (simp add: xs_def stat_resize_def)
  have tk: "take ?n xs = map Some ats" using b(5) nl by (simp add: xs_def stat_resize_def)
  have sp: "?n + 1 < length xs" using nl len by (auto simp: increment_size_def)
  note S = args_store [OF tk refl sp, of a]
  have g2: "(if ?grow then length (args spec) + increment_size else length (args spec)) = length xs"
    using len by simp
  have g1: "(if ?grow then stat_resize (args spec) (length xs) else args spec) = xs"
  proof (cases ?grow)
    case True
    then have "length xs = length (args spec) + increment_size" using len by simp
    with True show ?thesis by (simp only: xs_def if_True)
  qed (simp only: xs_def if_False)
  define spec' where "spec' = spec\<lparr>bytes := layout_end 0 (ts @ [t]), args := xs[?n := Some a, ?n + 1 := Some 0],
     capacity := length xs, nelements := ?n + 1,
     max_align := (if ft_alignment t > max_align spec then ft_alignment t else max_align spec)\<rparr>"
  have "ctypes_add_argument P T spec (CTYPES_FROM_PTR P a) = Inr (spec', Val_long P (int ?o))"
    unfolding ctypes_add_argument_def to_from_ptr [OF a(1)] bindR_simps b(2) a(2) need_simps al Let_def
      fo'(2) byt b(3,4) g2 g1 S(1,2) spec'_def by simp
  moreover have "builds T spec' (ats @ [a]) (ts @ [t])"
    using B a(2,3) S(3,4) sp b(6)
    by (simp add: builds_def spec'_def max_alignment_def max_def)
  ultimately show ?thesis by (auto simp: spec'_def)
qed

text \<open>Adding a list of arguments, as the OCaml side does, with the offsets it gets back.\<close>

primrec add_arguments ::
    "platform \<Rightarrow> ffi_types \<Rightarrow> callspec \<Rightarrow> nat list \<Rightarrow> (callspec \<times> value list) result" where
  "add_arguments P T spec [] = Inr (spec, [])"
| "add_arguments P T spec (a # as) =
     bindR (ctypes_add_argument P T spec (CTYPES_FROM_PTR P a)) (\<lambda>(s1, v).
     bindR (add_arguments P T s1 as) (\<lambda>(s2, vs). Inr (s2, v # vs)))"

lemma add_arguments_ok:
  assumes "builds T spec ats ts" "platform_ok P" "map T bs = map Some us" "types_ok us"
    "\<forall>b \<in> set bs. b < addr_limit P" "fits P (layout_end 0 (ts @ us))"
  shows "\<exists>spec'. add_arguments P T spec bs =
      Inr (spec', map (\<lambda>x. Val_long P (int x)) (layout (layout_end 0 ts) us)) \<and>
    builds T spec' (ats @ bs) (ts @ us) \<and> spec_context spec' = spec_context spec"
  using assms
proof (induction bs arbitrary: spec ats ts us)
  case (Cons b bs)
  obtain t us' where u: "us = t # us'" using Cons.prems(3) by (cases us) simp_all
  then have us: "us = t # us'" "T b = Some t" "map T bs = map Some us'"
    using Cons.prems(3) by simp_all
  have ok: "0 < ft_alignment t" "types_ok us'" using Cons.prems(4) us by auto
  have "layout_end 0 (ts @ [t]) \<le> layout_end 0 ((ts @ [t]) @ us')" using ok(2) by (rule layout_prefix_le)
  then have f: "fits P (layout_end 0 (ts @ [t]))" by (intro fits_mono [OF Cons.prems(6)]) (simp add: us(1))
  have lt: "b < addr_limit P" using Cons.prems(5) by simp
  obtain s1 where s1: "ctypes_add_argument P T spec (CTYPES_FROM_PTR P b) =
      Inr (s1, Val_long P (int (align_up (layout_end 0 ts) (ft_alignment t))))"
    "builds T s1 (ats @ [b]) (ts @ [t])" "spec_context s1 = spec_context spec"
    using add_argument_ok [OF Cons.prems(1,2) lt us(2) ok(1) f] by blast
  have "\<exists>spec'. add_arguments P T s1 bs =
      Inr (spec', map (\<lambda>x. Val_long P (int x)) (layout (layout_end 0 (ts @ [t])) us')) \<and>
    builds T spec' ((ats @ [b]) @ bs) ((ts @ [t]) @ us') \<and> spec_context spec' = spec_context s1"
    by (rule Cons.IH [OF s1(2) Cons.prems(2) us(3) ok(2)]) (use Cons.prems(5,6) us(1) in simp_all)
  then obtain s2 where s2: "add_arguments P T s1 bs =
      Inr (s2, map (\<lambda>x. Val_long P (int x)) (layout (layout_end 0 (ts @ [t])) us'))"
    "builds T s2 (ats @ b # bs) (ts @ us)" "spec_context s2 = spec_context s1"
    by (auto simp: us(1))
  then show ?case
    using s1 by (intro exI [of _ s2]) (simp add: us(1) Let_def layout_snoc)
qed simp

section \<open>The buffer of a call\<close>

lemma populate_from_ok:
  assumes "map T bs = map Some us" "types_ok us" "layout_end n us < size_max P"
    and "i + length bs \<le> length xs" "\<forall>j < length bs. xs ! (i + j) = Some (bs ! j)"
  shows "populate_from P T xs buf i n (length bs) = Inr (map (\<lambda>p. buf + p) (layout n us))"
  using assms
proof (induction bs arbitrary: us i n)
  case (Cons b bs)
  obtain t us' where u: "us = t # us'" using Cons.prems(1) by (cases us) simp_all
  then have us: "T b = Some t" "map T bs = map Some us'" using Cons.prems(1) by simp_all
  have ok: "0 < ft_alignment t" "types_ok us'" using Cons.prems(2) u by auto
  let ?p = "align_up n (ft_alignment t)"
  have le: "?p + ft_size t \<le> layout_end n us" using layout_end_ge [OF ok(2), of "?p + ft_size t"] u by simp
  then have lt: "?p < size_max P" "?p + ft_size t < size_max P" using Cons.prems(3) by linarith+
  have x: "xs ! i = Some b" using Cons.prems(5) [rule_format, of 0] by simp
  have "populate_from P T xs buf (i + 1) (?p + ft_size t) (length bs) =
      Inr (map (\<lambda>p. buf + p) (layout (?p + ft_size t) us'))"
  proof (rule Cons.IH [OF us(2) ok(2)])
    show "\<forall>j < length bs. xs ! (i + 1 + j) = Some (bs ! j)"
      using Cons.prems(5) by (auto dest: spec [of _ "Suc _"])
  qed (use Cons.prems(3,4) u in auto)
  then show ?case
    using x us(1) aligned_offset_eq [OF ok(1) lt(1)] lt(2) Cons.prems(4) by (simp add: u Let_def)
qed simp

definition ret_offset :: "ffi_type list \<Rightarrow> ffi_type \<Rightarrow> nat" where
  "ret_offset ts r = align_up (layout_end 0 ts) (ft_alignment r)"

definition scratch_size :: "libffi \<Rightarrow> ffi_type list \<Rightarrow> ffi_type \<Rightarrow> nat" where
  "scratch_size F ts r = align_up (ret_offset ts r + ft_size r) (pointer_alignment F) + pointer_size F"

definition array_offset :: "libffi \<Rightarrow> ffi_type list \<Rightarrow> ffi_type \<Rightarrow> nat" where
  "array_offset F ts r = align_up (scratch_size F ts r) (pointer_alignment F)"

definition buffer_size :: "platform \<Rightarrow> libffi \<Rightarrow> ffi_type list \<Rightarrow> ffi_type \<Rightarrow> nat" where
  "buffer_size P F ts r = array_offset F ts r + length ts * sizeof_ptr P"

lemma sizes_le:
  assumes "0 < ft_alignment r" "0 < pointer_alignment F"
  shows "layout_end 0 ts \<le> ret_offset ts r" "ret_offset ts r + ft_size r + pointer_size F \<le> scratch_size F ts r"
    "align_up (ret_offset ts r + ft_size r) (pointer_alignment F) \<le> scratch_size F ts r"
    "scratch_size F ts r \<le> array_offset F ts r" "array_offset F ts r \<le> buffer_size P F ts r"
  using align_up_props(1) [OF assms(1), of "layout_end 0 ts"]
    align_up_props(1) [OF assms(2), of "ret_offset ts r + ft_size r"]
    align_up_props(1) [OF assms(2), of "scratch_size F ts r"]
  by (simp_all add: ret_offset_def scratch_size_def array_offset_def buffer_size_def)

lemma builds_arg_types: "builds T spec ats ts \<Longrightarrow> arg_types spec = Inr ats"
proof -
  assume B: "builds T spec ats ts"
  then have t: "take (length ats) (args spec) = map Some ats" by (simp add: builds_def)
  then have "length ats \<le> length (args spec)" by (metis length_map length_take min.cobounded2 min.commute)
  then show ?thesis using B t by (simp add: arg_types_def builds_def list_all_iff)
qed

lemma prep_layout_ok:
  assumes B: "builds T spec ats ts" and P: "platform_ok P"
    and r: "0 < ft_alignment r" and F: "0 < pointer_alignment F" "fits P (buffer_size P F ts r)"
  shows "prep_layout P F r spec = Inr (spec\<lparr>roffset := ret_offset ts r,
      radjustment := ffi_return_type_adjustment P F r, bytes := scratch_size F ts r\<rparr>)"
proof -
  note le = sizes_le(1-4) [OF r F(1), of ts] sizes_le(5) [OF r F(1), where ts = ts and P = P]
  note lt = fitsD(1) [OF fits_mono [OF F(2)] platform_okD(3) [OF P]]
  have b: "bytes spec = layout_end 0 ts" using B by (simp add: builds_def)
  have s: "scratch_size F ts r < size_max P" using le(4,5) by (intro lt) linarith
  have 1: "aligned_offset P (bytes spec) (ft_alignment r) = Inr (ret_offset ts r)"
    unfolding b ret_offset_def using r
    by (rule aligned_offset_eq) (use s le(2) in \<open>simp add: ret_offset_def\<close>)
  have 2: "(ret_offset ts r + ft_size r) mod size_max P = ret_offset ts r + ft_size r"
    using s le(2) by simp
  have 3: "aligned_offset P (ret_offset ts r + ft_size r) (pointer_alignment F) =
      Inr (align_up (ret_offset ts r + ft_size r) (pointer_alignment F))"
    using F(1) by (rule aligned_offset_eq) (use s le(3) in linarith)
  show ?thesis
    unfolding prep_layout_def 1 bindR_simps 2 3
    using s by (simp add: scratch_size_def)
qed

text \<open>A specification that is ready for calls with arguments \<open>ats\<close> of types \<open>ts\<close> and result type \<open>r\<close> at \<open>ra\<close>.\<close>

definition call_ready ::
    "platform \<Rightarrow> libffi \<Rightarrow> ffi_types \<Rightarrow> callspec \<Rightarrow> nat list \<Rightarrow> ffi_type list \<Rightarrow> nat \<Rightarrow> ffi_type \<Rightarrow> bool" where
  "call_ready P F T spec ats ts ra r \<longleftrightarrow>
     state spec = CALLSPEC \<and> types_ok ts \<and> 0 < ft_alignment r \<and> map T ats = map Some ts \<and> T ra = Some r \<and>
     nelements spec = length ts \<and> take (length ts) (args spec) = map Some ats \<and>
     bytes spec = scratch_size F ts r \<and> roffset spec = ret_offset ts r \<and>
     radjustment spec = ffi_return_type_adjustment P F r \<and>
     (\<exists>c. cif spec = Some c \<and> cif_nargs c = length ts \<and> cif_rtype c = ra \<and> cif_arg_types c = ats) \<and>
     fits P (buffer_size P F ts r) \<and> 0 < pointer_alignment F \<and> sizeof_ffi_arg F \<le> pointer_size F \<and>
     platform_ok P"

lemma prep_ready:
  assumes "builds T spec ats ts" "platform_ok P" "T ra = Some r" "0 < ft_alignment r" "ra < addr_limit P"
    and "0 < pointer_alignment F" "sizeof_ffi_arg F \<le> pointer_size F" "fits P (buffer_size P F ts r)"
    and "Int_val P vabi = Inr abi" "ffi_prep_cif F T abi (length ats) ra ats = (T', FFI_OK)"
    and "map T' ats = map Some ts" "T' ra = Some r"
  shows "\<exists>spec'. ctypes_prep_callspec P F T spec vabi (CTYPES_FROM_PTR P ra) = Inr (spec', T', Inr Val_unit) \<and>
    call_ready P F T' spec' ats ts ra r \<and> spec_context spec' = spec_context spec"
proof -
  define s1 where "s1 = spec\<lparr>roffset := ret_offset ts r,
      radjustment := ffi_return_type_adjustment P F r, bytes := scratch_size F ts r\<rparr>"
  define spec' where "spec' = s1\<lparr>cif := Some \<lparr>cif_abi = abi, cif_nargs = length ats, cif_rtype = ra,
      cif_arg_types = ats\<rparr>, state := CALLSPEC\<rparr>"
  have tok: "types_ok ts" and n: "nelements spec = length ats" "length ats = length ts"
    and tk: "take (length ats) (args spec) = map Some ats"
    using assms(1) by (auto simp: builds_def dest: map_eq_imp_length_eq)
  have "nelements s1 = nelements spec" "args s1 = args spec" by (simp_all add: s1_def)
  then have at: "arg_types s1 = Inr ats"
    using builds_arg_types [OF assms(1)] by (simp only: arg_types_def)
  have "ctypes_prep_callspec P F T spec vabi (CTYPES_FROM_PTR P ra) = Inr (spec', T', Inr Val_unit)"
    unfolding ctypes_prep_callspec_def to_from_ptr [OF assms(5)] bindR_simps assms(9) assms(3) need_simps
      prep_layout_ok [OF assms(1,2,4,6,8)] s1_def [symmetric] at
    using assms(10) n(1) by (simp add: s1_def spec'_def ctypes_check_ffi_status_def Let_def)
  then show ?thesis
    using assms tok n tk by (intro exI [of _ spec']) (simp add: call_ready_def spec'_def s1_def)
qed

lemma ready_lt:
  assumes "call_ready P F T spec ats ts ra r" "n \<le> buffer_size P F ts r"
  shows "n < size_max P" "swrap (sizeof_int P) (int n) = int n"
  using fitsD [OF fits_mono [OF _ assms(2)], of P] platform_okD(3) [of P] assms(1)
  by (auto simp: call_ready_def)

lemma ready_sizes:
  assumes "call_ready P F T spec ats ts ra r"
  shows "layout_end 0 ts \<le> ret_offset ts r" "ret_offset ts r + ft_size r + pointer_size F \<le> scratch_size F ts r"
    "scratch_size F ts r \<le> array_offset F ts r"
    "array_offset F ts r + length ts * sizeof_ptr P = buffer_size P F ts r"
    "ret_offset ts r + radjustment spec + ft_size r \<le> scratch_size F ts r"
    "ret_offset ts r + sizeof_ffi_arg F \<le> scratch_size F ts r"
proof -
  have *: "0 < ft_alignment r" "0 < pointer_alignment F" "sizeof_ffi_arg F \<le> pointer_size F"
    "radjustment spec = ffi_return_type_adjustment P F r"
    using assms by (simp_all add: call_ready_def)
  note le = sizes_le(1-4) [OF *(1,2), of ts]
  show "layout_end 0 ts \<le> ret_offset ts r" "ret_offset ts r + ft_size r + pointer_size F \<le> scratch_size F ts r"
    "scratch_size F ts r \<le> array_offset F ts r"
    "array_offset F ts r + length ts * sizeof_ptr P = buffer_size P F ts r"
    using le by (simp_all add: buffer_size_def)
  show "ret_offset ts r + radjustment spec + ft_size r \<le> scratch_size F ts r"
    "ret_offset ts r + sizeof_ffi_arg F \<le> scratch_size F ts r"
    using le(2) * by (simp_all add: ffi_return_type_adjustment_def)
qed

lemma ready_buffer_size:
  assumes R: "call_ready P F T spec ats ts ra r"
  shows "compute_arg_buffer_size P F spec = Inr (buffer_size P F ts r, array_offset F ts r)"
proof -
  have s: "state spec = CALLSPEC" "bytes spec = scratch_size F ts r" "nelements spec = length ts"
    and p: "0 < pointer_alignment F"
    using R by (simp_all add: call_ready_def)
  have "array_offset F ts r \<le> buffer_size P F ts r" by (simp add: buffer_size_def)
  then have "align_up (scratch_size F ts r) (pointer_alignment F) < size_max P"
    unfolding array_offset_def [symmetric] by (rule ready_lt(1) [OF R])
  from aligned_offset_eq [OF p this] show ?thesis
    using ready_lt(1) [OF R order_refl] s
    by (simp add: compute_arg_buffer_size_def array_offset_def [symmetric] buffer_size_def)
qed

lemma ready_populate:
  assumes R: "call_ready P F T spec ats ts ra r"
  shows "populate_arg_array P T spec buf = Inr (map (\<lambda>p. buf + p) (layout 0 ts))"
proof -
  have s: "nelements spec = length ts" "take (length ts) (args spec) = map Some ats" "map T ats = map Some ts"
    "types_ok ts"
    using R by (simp_all add: call_ready_def)
  have n: "length ats = length ts" using s(3) by (rule map_eq_imp_length_eq)
  have l: "length ats \<le> length (args spec)"
    using s(2) n by (metis length_map length_take min.cobounded2 min.commute)
  have g: "\<forall>j < length ats. args spec ! (0 + j) = Some (ats ! j)"
    using s(2) n l by (metis add_0 length_map nth_map nth_take)
  have "layout_end 0 ts < size_max P"
    using ready_sizes [OF R] by (intro ready_lt(1) [OF R]) linarith
  with l g have "populate_from P T (args spec) buf 0 0 (length ats) = Inr (map (\<lambda>p. buf + p) (layout 0 ts))"
    by (intro populate_from_ok [OF s(3,4)]) auto
  then show ?thesis using s(1) n by (simp add: populate_arg_array_def)
qed

lemma ready_slots:
  assumes R: "call_ready P F T spec ats ts ra r" and i: "i < length ts"
  shows "ft_alignment (ts ! i) dvd layout 0 ts ! i" "layout 0 ts ! i + ft_size (ts ! i) \<le> ret_offset ts r"
    "j < i \<Longrightarrow> layout 0 ts ! j + ft_size (ts ! j) \<le> layout 0 ts ! i"
proof -
  have tok: "types_ok ts" using R by (simp add: call_ready_def)
  show "ft_alignment (ts ! i) dvd layout 0 ts ! i" by (rule layout_aligned [OF tok i])
  show "layout 0 ts ! i + ft_size (ts ! i) \<le> ret_offset ts r"
    using layout_within [OF tok i, of 0] ready_sizes(1) [OF R] by simp
  show "layout 0 ts ! j + ft_size (ts ! j) \<le> layout 0 ts ! i" if "j < i"
    by (rule layout_disjoint [OF tok that i])
qed

text \<open>
  C7: the layout of a call.  For any list of argument types and any return type whose buffer fits
  an \<open>int\<close>, finishing a specification that was built by adding the arguments succeeds when
  libffi accepts it, and the buffer computed for a call has the slots at the offsets that
  \<open>add_argument\<close> returned: each slot is aligned, no two overlap, all end before the return
  value, which is aligned and has a spare word behind it; the adjusted slot that is read lies
  inside that area; and the array of pointers lies behind it, aligned and inside the buffer.
\<close>

theorem call_buffer_layout:
  assumes "builds T spec ats ts" "platform_ok P" "T ra = Some r" "0 < ft_alignment r" "ra < addr_limit P"
    and "0 < pointer_alignment F" "sizeof_ffi_arg F \<le> pointer_size F" "fits P (buffer_size P F ts r)"
    and "Int_val P vabi = Inr abi" "ffi_prep_cif F T abi (length ats) ra ats = (T', FFI_OK)"
    and "map T' ats = map Some ts" "T' ra = Some r"
  shows "\<exists>spec'. ctypes_prep_callspec P F T spec vabi (CTYPES_FROM_PTR P ra) = Inr (spec', T', Inr Val_unit) \<and>
    state spec' = CALLSPEC \<and> spec_context spec' = spec_context spec \<and>
    compute_arg_buffer_size P F spec' = Inr (buffer_size P F ts r, array_offset F ts r) \<and>
    populate_arg_array P T' spec' buf = Inr (map (\<lambda>p. buf + p) (layout 0 ts)) \<and>
    list_all (\<lambda>i. ft_alignment (ts ! i) dvd layout 0 ts ! i \<and>
        layout 0 ts ! i + ft_size (ts ! i) \<le> roffset spec' \<and>
        list_all (\<lambda>j. layout 0 ts ! j + ft_size (ts ! j) \<le> layout 0 ts ! i) [0..<i]) [0..<length ts] \<and>
    ft_alignment r dvd roffset spec' \<and>
    roffset spec' + radjustment spec' + ft_size r \<le> bytes spec' \<and>
    roffset spec' + ft_size r + pointer_size F \<le> bytes spec' \<and> bytes spec' \<le> array_offset F ts r \<and>
    pointer_alignment F dvd array_offset F ts r \<and>
    array_offset F ts r + length ts * sizeof_ptr P = buffer_size P F ts r"
proof -
  obtain spec' where p: "ctypes_prep_callspec P F T spec vabi (CTYPES_FROM_PTR P ra) = Inr (spec', T', Inr Val_unit)"
    "call_ready P F T' spec' ats ts ra r" "spec_context spec' = spec_context spec"
    using prep_ready [OF assms] by blast
  note R = p(2)
  have s: "state spec' = CALLSPEC" "roffset spec' = ret_offset ts r" "bytes spec' = scratch_size F ts r"
    using R by (simp_all add: call_ready_def)
  have d: "ft_alignment r dvd ret_offset ts r" "pointer_alignment F dvd array_offset F ts r"
    using assms(4,6) by (simp_all add: ret_offset_def array_offset_def align_up_props)
  have "list_all (\<lambda>i. ft_alignment (ts ! i) dvd layout 0 ts ! i \<and>
        layout 0 ts ! i + ft_size (ts ! i) \<le> roffset spec' \<and>
        list_all (\<lambda>j. layout 0 ts ! j + ft_size (ts ! j) \<le> layout 0 ts ! i) [0..<i]) [0..<length ts]"
    unfolding s(2) using ready_slots [OF R] by (simp add: list_all_iff)
  then show ?thesis
    using p(1,3) s d ready_buffer_size [OF R] ready_populate [OF R] ready_sizes(2-5) [OF R]
    by (intro exI [of _ spec']) simp
qed

section \<open>A signature on lp64\<close>

text \<open>\<open>char\<close>, \<open>int\<close>, \<open>short\<close> and \<open>double\<close> arguments, for the witnesses.\<close>

abbreviation ex_spec :: callspec where
  "ex_spec \<equiv> (callspec_prototype lp64)\<lparr>spec_context :=
     \<lparr>check_errno = True, runtime_lock = False, thread_registration = False\<rparr>\<rparr>"

definition ex_names :: "ffi_name list" where
  "ex_names = [Ft_schar, Ft_sint, Ft_sshort, Ft_double]"

definition ex_types :: "ffi_type list" where
  "ex_types = map (ffi_type_desc (example_libffi lp64)) ex_names"

definition ex_addrs :: "nat list" where
  "ex_addrs = map (ffi_type_addr (example_libffi lp64)) ex_names"

lemma ex_types_table:
  "map (static_types (example_libffi lp64)) ex_addrs = map Some ex_types"
  by (simp add: ex_addrs_def ex_types_def example_lp64.static_lookup)

lemma ex_types_ok: "types_ok ex_types"
  by (simp add: ex_types_def types_ok_def example_lp64.align)

lemma ex_addrs_limit: "\<forall>x \<in> set ex_addrs. x < addr_limit lp64"
  using example_lp64.addr by (auto simp: ex_addrs_def)

lemma ex_layout: "layout 0 ex_types = [0, 4, 8, 16]" "layout_end 0 ex_types = 24"
  by (simp_all add: ex_types_def ex_names_def example_libffi_def align_up_def Let_def)

lemma fits_lp64: "n < 2 ^ 31 \<Longrightarrow> fits lp64 n"
proof -
  assume "n < 2 ^ 31"
  then have "int n < 2 ^ 31" by (metis of_nat_less_iff of_nat_numeral of_nat_power)
  then show ?thesis by (simp add: fits_def small_int_def in_srange_def oint_ok_def)
qed

lemma ex_spec_allocated:
  "ctypes_allocate_callspec lp64 (Val_int lp64 1) (Val_int lp64 0) (Val_int lp64 0) = Inr ex_spec"
proof -
  have "Int_val lp64 (Val_int lp64 1) = Inr 1" "Int_val lp64 (Val_int lp64 0) = Inr 0"
    by (simp_all add: Int_val_def Val_long_def swrap_def)
  then show ?thesis by (simp add: ctypes_allocate_callspec_def)
qed

lemma ex_spec_builds: "builds T ex_spec [] []"
  by (simp add: callspec_prototype_def builds_def max_alignment_def)

text \<open>
  C15: building a specification: adding arguments to a new one returns the offsets of the abstract
  layout, grows the array of types so that it always holds the types in order and a
  terminating null inside its capacity, and keeps the running size and the largest alignment.
\<close>

theorem arguments_built:
  assumes "ctypes_allocate_callspec P vc vl vt = Inr spec" "platform_ok P" "map T ats = map Some ts"
    "types_ok ts" "\<forall>a \<in> set ats. a < addr_limit P" "fits P (layout_end 0 ts)"
  shows "\<exists>spec'. add_arguments P T spec ats = Inr (spec', map (\<lambda>x. Val_long P (int x)) (layout 0 ts)) \<and>
    state spec' = BUILDING \<and> nelements spec' = length ats \<and> length (args spec') = capacity spec' \<and>
    take (length ats) (args spec') = map Some ats \<and>
    (if ats = [] then capacity spec' = 0
     else length ats < capacity spec' \<and> args spec' ! length ats = Some 0) \<and>
    bytes spec' = layout_end 0 ts \<and> max_align spec' = max_alignment ts \<and>
    spec_context spec' = spec_context spec"
proof (cases "ats = []")
  case True
  then show ?thesis
    using assms(1,3) by (auto simp: ctypes_allocate_callspec_def callspec_prototype_def max_alignment_def)
next
  case False
  have "fits P (layout_end 0 ([] @ ts))" using assms(6) by simp
  from add_arguments_ok [OF builds_prototype [OF assms(1)] assms(2-5) this]
  obtain spec' where s: "add_arguments P T spec ats = Inr (spec', map (\<lambda>x. Val_long P (int x)) (layout 0 ts))"
    "builds T spec' ats ts" "spec_context spec' = spec_context spec"
    by auto
  then show ?thesis using False by (intro exI [of _ spec']) (simp add: builds_def)
qed

theorem arguments_built_witness:
  "\<exists>spec'. add_arguments lp64 (static_types (example_libffi lp64)) ex_spec ex_addrs =
      Inr (spec', map (\<lambda>x. Val_long lp64 (int x)) [0, 4, 8, 16]) \<and> bytes spec' = 24"
proof -
  have "fits lp64 (layout_end 0 ex_types)" by (simp add: ex_layout fits_lp64)
  then show ?thesis
    using arguments_built [OF ex_spec_allocated platform_ok_lp64 ex_types_table ex_types_ok ex_addrs_limit]
    unfolding ex_layout by blast
qed

theorem call_buffer_layout_witness:
  "\<exists>spec spec'. builds (static_types (example_libffi lp64)) spec ex_addrs ex_types \<and>
     compute_arg_buffer_size lp64 (example_libffi lp64) spec' = Inr (72, 40) \<and>
     populate_arg_array lp64 (static_types (example_libffi lp64)) spec' 1024 = Inr [1024, 1028, 1032, 1040]"
proof -
  let ?F = "example_libffi lp64" and ?T = "static_types (example_libffi lp64)"
  let ?r = "ffi_type_desc ?F Ft_double" and ?ra = "ffi_type_addr ?F Ft_double"
  have "fits lp64 (layout_end 0 ([] @ ex_types))" by (simp add: ex_layout fits_lp64)
  from add_arguments_ok [OF ex_spec_builds platform_ok_lp64 ex_types_table ex_types_ok ex_addrs_limit this]
  obtain spec where s: "builds ?T spec ex_addrs ex_types" by auto
  have p: "pointer_alignment ?F = 8" "pointer_size ?F = 8" "sizeof_ffi_arg ?F = 8"
    by (simp_all add: pointer_alignment_def pointer_size_def example_libffi_def)
  have r: "ft_alignment ?r = 8" "ft_size ?r = 8" by (simp_all add: example_libffi_def)
  have z: "array_offset ?F ex_types ?r = 40" "buffer_size lp64 ?F ex_types ?r = 72"
    by (simp_all add: ret_offset_def scratch_size_def array_offset_def buffer_size_def ex_layout p r align_up_def)
      (simp add: ex_types_def ex_names_def)
  have T: "?T ?ra = Some ?r" by (rule example_lp64.static_lookup)
  have "set (map ?T ex_addrs) = Some ` set ex_types" by (simp add: ex_types_table)
  then have all: "T \<noteq> None" if "T \<in> ?T ` set ex_addrs" for T using that by auto
  have prep: "ffi_prep_cif ?F ?T 2 (length ex_addrs) ?ra ex_addrs = (?T, FFI_OK)"
    using T all by (force simp: example_libffi_def example_prep_def)
  have a: "?ra < addr_limit lp64" using example_lp64.addr by blast
  have i: "Int_val lp64 (Val_int lp64 2) = Inr 2" by (simp add: Int_val_def Val_long_def swrap_def)
  from call_buffer_layout [OF s platform_ok_lp64 T _ a _ _ _ i prep ex_types_table T, of 1024]
  show ?thesis
    using s by (auto simp: r p z fits_lp64 ex_layout)
qed

section \<open>The life of a specification\<close>

text \<open>
  The stubs are called from OCaml in any order, and a call that raises leaves the specification
  as it was except for a failing \<open>prep_callspec\<close>, whose changes stay.
\<close>

inductive spec_step :: "platform \<Rightarrow> libffi \<Rightarrow> callspec \<times> ffi_types \<Rightarrow> callspec \<times> ffi_types \<Rightarrow> bool"
  for P F where
  add: "ctypes_add_argument P T spec v = Inr (spec', r) \<Longrightarrow> spec_step P F (spec, T) (spec', T)"
| prep: "ctypes_prep_callspec P F T spec vabi rtype = Inr (spec', T', r) \<Longrightarrow>
     spec_step P F (spec, T) (spec', T')"

inductive spec_reach :: "platform \<Rightarrow> libffi \<Rightarrow> callspec \<times> ffi_types \<Rightarrow> bool" for P F where
  new: "ctypes_allocate_callspec P c l t = Inr spec \<Longrightarrow> spec_reach P F (spec, T)"
| step: "spec_reach P F s \<Longrightarrow> spec_step P F s s' \<Longrightarrow> spec_reach P F s'"

inductive_cases spec_stepE: "spec_step P F s s'"

text \<open>The slots in use hold types and are followed by a null pointer inside the array.\<close>

definition args_terminated :: "callspec \<Rightarrow> bool" where
  "args_terminated spec \<longleftrightarrow>
     capacity spec = length (args spec) \<and>
     list_all (\<lambda>x. x \<noteq> None) (take (nelements spec) (args spec)) \<and>
     (if nelements spec = 0 then capacity spec = 0
      else nelements spec < capacity spec \<and> args spec ! nelements spec = Some 0)"

text \<open>A prepared specification has an interface structure for exactly the arguments it holds.\<close>

definition cif_matches :: "callspec \<Rightarrow> bool" where
  "cif_matches spec \<longleftrightarrow>
     (state spec = CALLSPEC \<longrightarrow>
       (\<exists>c. cif spec = Some c \<and> cif_nargs c = nelements spec \<and>
            take (nelements spec) (args spec) = map Some (cif_arg_types c)))"

lemma map_Some_the: "list_all (\<lambda>x. x \<noteq> None) xs \<Longrightarrow> xs = map Some (map the xs)"
  by (induction xs) auto

lemma add_argument_wf:
  assumes "ctypes_add_argument P T spec v = Inr (spec', r)" "args_terminated spec"
  shows "args_terminated spec'" "state spec' = BUILDING" "nelements spec' = nelements spec + 1"
proof -
  let ?n = "nelements spec"
  define xs where "xs = (if ?n + 2 \<ge> capacity spec
    then stat_resize (args spec) (capacity spec + increment_size) else args spec)"
  obtain ats1 ats2 a where s: "state spec = BUILDING"
    "args_set xs ?n a = Inr ats1" "args_set ats1 (?n + 1) 0 = Inr ats2"
    "args spec' = ats2" "nelements spec' = ?n + 1" "state spec' = state spec"
    "capacity spec' = (if ?n + 2 \<ge> capacity spec then capacity spec + increment_size else capacity spec)"
    using assms(1) by (auto simp: ctypes_add_argument_def Let_def xs_def split: if_split_asm)
  then show "state spec' = BUILDING" "nelements spec' = nelements spec + 1" by simp_all
  have c: "capacity spec = length (args spec)" "list_all (\<lambda>x. x \<noteq> None) (take ?n (args spec))"
    "?n \<le> length (args spec)"
    using assms(2) by (auto simp: args_terminated_def split: if_split_asm)
  have len: "capacity spec' = length xs"
    using c s(7) by (simp add: xs_def stat_resize_def)
  have tk: "take ?n xs = take ?n (args spec)"
    using c by (simp add: xs_def stat_resize_def)
  have lt: "?n < length xs" "?n + 1 < length xs" "ats2 = xs[?n := Some a, ?n + 1 := Some 0]"
    using s(2,3) by (auto simp: args_set_def split: if_split_asm)
  have "take (?n + 1) ats2 = take ?n (args spec) @ [Some a]"
    using lt tk by (simp add: take_Suc_conv_app_nth)
  then show "args_terminated spec'"
    using s(4,5) len lt c(2) by (simp add: args_terminated_def)
qed

lemma prep_callspec_wf:
  assumes "ctypes_prep_callspec P F T spec vabi rtype = Inr (spec', T', r)"
  shows "args_terminated spec' = args_terminated spec" "cif_matches spec'"
    "state spec' = (if r = Inr Val_unit then CALLSPEC else state spec)" "nelements spec' = nelements spec"
    "\<exists>c. cif spec' = Some c"
proof -
  note D = ctypes_prep_callspec_def
  obtain ra where 1: "CTYPES_TO_PTR P rtype = Inr ra"
    using assms by (cases "CTYPES_TO_PTR P rtype") (simp_all add: D)
  obtain abi where 2: "Int_val P vabi = Inr abi"
    using assms by (cases "Int_val P vabi") (simp_all add: D 1)
  obtain t where 3: "T ra = Some t"
    using assms by (cases "T ra") (simp_all add: D 1 2)
  obtain b where 4: "prep_layout P F t spec = Inr b"
    using assms by (cases "prep_layout P F t spec") (simp_all add: D 1 2 3)
  obtain ats where 5: "arg_types b = Inr ats"
    using assms by (cases "arg_types b") (simp_all add: D 1 2 3 4)
  obtain T'' st where 6: "ffi_prep_cif F T abi (nelements b) ra ats = (T'', st)"
    by (cases "ffi_prep_cif F T abi (nelements b) ra ats")
  note p = 4 5 and q = assms [unfolded D 1 2 3 4 5 6 need_simps bindR_simps Let_def prod.case]
  have b: "nelements b = nelements spec" "args b = args spec" "capacity b = capacity spec" "state b = state spec"
    using p(1) by (auto simp: prep_layout_def)
  have a: "take (nelements spec) (args spec) = map Some ats"
    using p(2) b map_Some_the by (auto simp: arg_types_def split: if_split_asm)
  show "args_terminated spec' = args_terminated spec" "cif_matches spec'"
    "state spec' = (if r = Inr Val_unit then CALLSPEC else state spec)" "nelements spec' = nelements spec"
    "\<exists>c. cif spec' = Some c"
    using q a b by (auto simp: args_terminated_def cif_matches_def Let_def split: prod.split_asm sum.split_asm)
qed

lemma add_arguments_reach:
  "spec_reach P F (spec, T) \<Longrightarrow> add_arguments P T spec ats = Inr (spec', vs) \<Longrightarrow> spec_reach P F (spec', T)"
proof (induction ats arbitrary: spec vs)
  case (Cons a ats)
  then obtain s1 v ws where s: "ctypes_add_argument P T spec (CTYPES_FROM_PTR P a) = Inr (s1, v)"
    "add_arguments P T s1 ats = Inr (spec', ws)"
    by auto
  show ?case by (rule Cons.IH [OF spec_reach.step [OF Cons.prems(1) spec_step.add [OF s(1)]] s(2)])
qed simp

text \<open>The array is grown in time: an argument of a known type is always stored inside it.\<close>

lemma add_argument_stores:
  assumes "args_terminated spec" "state spec = BUILDING" "T a = Some t" "a < addr_limit P" "0 < ft_alignment t"
  shows "\<exists>spec' r. ctypes_add_argument P T spec (CTYPES_FROM_PTR P a) = Inr (spec', r) \<and> args_terminated spec'"
proof -
  have c: "capacity spec = length (args spec)" "nelements spec \<le> capacity spec"
    using assms(1) by (auto simp: args_terminated_def split: if_split_asm)
  obtain n where n: "aligned_offset P (bytes spec) (ft_alignment t) = Inr n"
    using assms(5) by (cases "bytes spec mod ft_alignment t = 0") (simp_all add: aligned_offset_def Let_def)
  have "\<exists>z. ctypes_add_argument P T spec (CTYPES_FROM_PTR P a) = Inr z"
  proof (cases "nelements spec + 2 \<ge> capacity spec")
    case True
    then show ?thesis
      using assms(2-4) n c by (simp add: ctypes_add_argument_def Let_def args_set_def stat_resize_def increment_size_def)
  next
    case False
    then show ?thesis
      using assms(2-4) n c by (simp add: ctypes_add_argument_def Let_def args_set_def)
  qed
  then obtain spec' r where "ctypes_add_argument P T spec (CTYPES_FROM_PTR P a) = Inr (spec', r)" by auto
  then show ?thesis using add_argument_wf(1) assms(1) by blast
qed

text \<open>
  C8: an invariant of every call specification, whatever sequence of stubs OCaml calls on it and whether
  they succeed or raise: the array of argument types is null-terminated inside its capacity, adding
  an argument of any type libffi knows stores it and a terminator inside the array and never fails, a specification that is ready for calls has an interface
  structure for exactly the arguments it holds, and the two states exclude each other's operations:
  adding an argument to a finished one and calling an unfinished one are stopped by the assertion.
\<close>

theorem callspec_invariant:
  assumes "spec_reach P F (spec, T)"
  shows "args_terminated spec \<and> cif_matches spec \<and>
    (if state spec = CALLSPEC then ctypes_add_argument P T spec (CTYPES_FROM_PTR P a) = Inl Assert_failure
     else compute_arg_buffer_size P F spec = Inl Assert_failure \<and>
       (\<forall>t. T a = Some t \<and> a < addr_limit P \<and> 0 < ft_alignment t \<longrightarrow>
          (\<exists>spec' r. ctypes_add_argument P T spec (CTYPES_FROM_PTR P a) = Inr (spec', r) \<and> args_terminated spec')))"
proof -
  have *: "args_terminated (fst s) \<and> cif_matches (fst s)" if "spec_reach P F s" for s
    using that
  proof induction
    case (new c l t spec T)
    then show ?case
      by (auto simp: ctypes_allocate_callspec_def callspec_prototype_def args_terminated_def cif_matches_def)
  next
    case (step s s')
    from step(2) show ?case
      using step.IH add_argument_wf prep_callspec_wf
      by (cases rule: spec_stepE) (auto simp: cif_matches_def)
  qed
  from * [OF assms] show ?thesis
    using add_argument_stores [of spec T a _ P]
    by (cases "state spec") (auto simp: compute_arg_buffer_size_def ctypes_add_argument_def
        CTYPES_TO_PTR_def CTYPES_FROM_PTR_def caml_copy_nativeint_def)
qed

theorem callspec_invariant_witness:
  "\<exists>spec'. nelements spec' = 4 \<and> bytes spec' = 24 \<and> args_terminated spec' \<and>
     compute_arg_buffer_size lp64 (example_libffi lp64) spec' = Inl Assert_failure \<and>
     (\<exists>spec'' r. ctypes_add_argument lp64 (static_types (example_libffi lp64)) spec'
        (CTYPES_FROM_PTR lp64 (ffi_type_addr (example_libffi lp64) Ft_double)) = Inr (spec'', r))"
proof -
  let ?T = "static_types (example_libffi lp64)"
  have "fits lp64 (layout_end 0 ([] @ ex_types))" by (simp add: ex_layout fits_lp64)
  from add_arguments_ok [OF ex_spec_builds platform_ok_lp64 ex_types_table ex_types_ok ex_addrs_limit this]
  obtain spec' vs where s: "add_arguments lp64 ?T ex_spec ex_addrs = Inr (spec', vs)" "builds ?T spec' ex_addrs ex_types"
    by auto
  have "spec_reach lp64 (example_libffi lp64) (spec', ?T)"
    by (rule add_arguments_reach [OF spec_reach.new [OF ex_spec_allocated] s(1)])
  note C = callspec_invariant [OF this, of "ffi_type_addr (example_libffi lp64) Ft_double"]
  have t: "?T (ffi_type_addr (example_libffi lp64) Ft_double) = Some (ffi_type_desc (example_libffi lp64) Ft_double)"
    "ffi_type_addr (example_libffi lp64) Ft_double < addr_limit lp64"
    "0 < ft_alignment (ffi_type_desc (example_libffi lp64) Ft_double)"
    by (rule example_lp64.static_lookup) (use example_lp64.addr in \<open>auto simp: example_libffi_def\<close>)
  have b: "state spec' = BUILDING" "nelements spec' = 4" "bytes spec' = 24"
    using s(2) by (simp_all add: builds_def ex_layout ex_addrs_def ex_names_def)
  from C t b show ?thesis by auto
qed

end
