(* ===== verification/Ffi_Call.thy ===== *)
theory Ffi_Call
  imports Callspec_Layout Type_Info
begin

text \<open>
  \<open>ctypes_call\<close> of \<open>src/ctypes-foreign/ffi_call_stubs.c\<close>: a call to a C function through
  libffi.  The buffer laid out by the call specification is allocated on the stack, OCaml
  writes the arguments into it, strings are passed by reference, the runtime lock is released
  around the call if the specification says so, \<open>errno\<close> is cleared before and checked after it,
  and OCaml reads the result from the buffer.

  The world is the memory, \<open>errno\<close> and whether this thread holds the runtime lock.  OCaml
  functions, libffi's \<open>ffi_call\<close>, and what the OCaml runtime and the compiler choose (the address of a
  string, the content of fresh stack memory, what releasing the lock does to \<open>errno\<close>) are parameters.
\<close>

section \<open>Actions on the world\<close>

record c_world =
  cmem :: memory
  errno :: int
  lock_held :: bool
  stack_ptr :: nat

text \<open>An exception leaves the world as it was when it was raised.\<close>

type_synonym 'a act = "c_world \<Rightarrow> c_world \<times> 'a result"

definition ret :: "'a \<Rightarrow> 'a act" where
  "ret x w = (w, Inr x)"

definition bindA :: "'a act \<Rightarrow> ('a \<Rightarrow> 'b act) \<Rightarrow> 'b act" where
  "bindA m f w = (case m w of (w', Inl e) \<Rightarrow> (w', Inl e) | (w', Inr x) \<Rightarrow> f x w')"

definition lift :: "'a result \<Rightarrow> 'a act" where
  "lift r w = (w, r)"

definition on_mem :: "(memory \<Rightarrow> memory result) \<Rightarrow> unit act" where
  "on_mem f w = (case f (cmem w) of Inl e \<Rightarrow> (w, Inl e) | Inr m \<Rightarrow> (w\<lparr>cmem := m\<rparr>, Inr ()))"

lemma act_simps [simp]:
  "bindA m f w = (case m w of (w', Inl e) \<Rightarrow> (w', Inl e) | (w', Inr x) \<Rightarrow> f x w')"
  "ret x w = (w, Inr x)"
  "lift r w = (w, r)"
  by (simp_all add: bindA_def ret_def lift_def)

lemma bind_lift [simp]:
  "bindA (lift (Inr x)) f = f x"
  "bindA (ret x) f = f x"
  by (simp_all add: fun_eq_iff)

text \<open>OCaml code may run only under the runtime lock.\<close>

definition caml_callback :: "('a \<Rightarrow> 'b act) \<Rightarrow> 'a \<Rightarrow> 'b act" where
  "caml_callback f x w = (if lock_held w then f x w else (w, Inl Memory_fault))"

record ocaml_runtime =
  string_address :: "value \<Rightarrow> nat"
  stack_limit :: nat
  stack_junk :: "nat \<Rightarrow> byte"
  release_errno :: "int \<Rightarrow> int"
  acquire_errno :: "int \<Rightarrow> int"

definition caml_release_runtime_system :: "ocaml_runtime \<Rightarrow> unit act" where
  "caml_release_runtime_system R w =
     (if lock_held w then (w\<lparr>lock_held := False, errno := release_errno R (errno w)\<rparr>, Inr ())
      else (w, Inl Memory_fault))"

text \<open>A thread that holds the lock and asks for it again waits for ever.\<close>

definition caml_acquire_runtime_system :: "ocaml_runtime \<Rightarrow> unit act" where
  "caml_acquire_runtime_system R w =
     (if lock_held w then (w, Inl Memory_fault)
      else (w\<lparr>lock_held := True, errno := acquire_errno R (errno w)\<rparr>, Inr ()))"

text \<open>
  The stack grows downwards, in multiples of 16 bytes; memory from \<open>alloca\<close> is not initialised.
\<close>

definition alloca :: "ocaml_runtime \<Rightarrow> nat \<Rightarrow> nat act" where
  "alloca R n w =
     (if stack_ptr w < stack_limit R + n + 16 then (w, Inl Memory_fault)
      else
        let a = stack_ptr w - n - (stack_ptr w - n) mod 16
        in (w\<lparr>cmem := (\<lambda>x. if a \<le> x \<and> x < a + n then Some (stack_junk R x) else cmem w x),
              stack_ptr := a\<rparr>, Inr a))"

text \<open>Leaving a function gives its frame back.\<close>

definition in_frame :: "'a act \<Rightarrow> 'a act" where
  "in_frame m w = (case m w of (w', r) \<Rightarrow> (w'\<lparr>stack_ptr := stack_ptr w\<rparr>, r))"

definition store_ptr :: "platform \<Rightarrow> nat \<Rightarrow> nat \<Rightarrow> memory \<Rightarrow> memory result" where
  "store_ptr P a p m = store_int P m a (sizeof_ptr P) (int p)"

text \<open>An array of pointers, stored one after the other.\<close>

primrec store_ptrs :: "platform \<Rightarrow> nat \<Rightarrow> nat list \<Rightarrow> memory \<Rightarrow> memory result" where
  "store_ptrs P a [] m = Inr m"
| "store_ptrs P a (p # ps) m = bindR (store_ptr P a p m) (store_ptrs P (a + sizeof_ptr P) ps)"

section \<open>Strings by reference\<close>

text \<open>
  The loop over the array OCaml filled: an entry that is still \<open>unit\<close> is skipped, any other
  is a pair of a string and an offset.  The address goes to \<open>val_refs\<close>, and the argument's
  pointer is redirected there.
\<close>

primrec pass_references ::
    "platform \<Rightarrow> ocaml_runtime \<Rightarrow> nat \<Rightarrow> nat \<Rightarrow> nat \<Rightarrow> value list \<Rightarrow> unit act" where
  "pass_references P R val_refs arg_array i [] = ret ()"
| "pass_references P R val_refs arg_array i (v # vs) =
     (if v = Val_unit then pass_references P R val_refs arg_array (Suc i) vs
      else
        bindA (lift (Field v 0)) (\<lambda>arg_ptr.
        bindA (lift (Field v 1)) (\<lambda>arg_offset.
        if Is_block arg_ptr \<and> Tag_val arg_ptr = Inr String_tag then
          bindA (lift (Long_val arg_offset)) (\<lambda>off.
          bindA (on_mem (store_ptr P (val_refs + i * sizeof_ptr P)
                   (nat (uwrap (sizeof_ptr P) (int (string_address R arg_ptr) + off))))) (\<lambda>_.
          bindA (on_mem (store_ptr P (arg_array + i * sizeof_ptr P) (val_refs + i * sizeof_ptr P))) (\<lambda>_.
            pass_references P R val_refs arg_array (Suc i) vs)))
        else lift (Inl Assert_failure))))"

section \<open>The call\<close>

type_synonym ffi_caller = "ffi_cif \<Rightarrow> nat \<Rightarrow> nat \<Rightarrow> nat \<Rightarrow> unit act"

text \<open>
  Up to the call: the buffer, the pointers to the argument slots, the arguments.  The result is the
  buffer and the array.  \<open>caml_alloc_tuple\<close> fills the array OCaml sees with \<open>unit\<close>.
\<close>

definition prepare_call ::
    "platform \<Rightarrow> libffi \<Rightarrow> ocaml_runtime \<Rightarrow> ffi_types \<Rightarrow> callspec \<Rightarrow>
       (value \<times> value list \<Rightarrow> value list act) \<Rightarrow> (nat \<times> nat) act" where
  "prepare_call P F R T spec argwriter =
     bindA (lift (compute_arg_buffer_size P F spec)) (\<lambda>(bytes, arg_array_offset).
     bindA (alloca R bytes) (\<lambda>callbuffer.
     bindA (lift (populate_arg_array P T spec callbuffer)) (\<lambda>ptrs.
     bindA (on_mem (store_ptrs P (callbuffer + arg_array_offset) ptrs)) (\<lambda>_.
     bindA (caml_callback argwriter (CTYPES_FROM_PTR P callbuffer, replicate (nelements spec) Val_unit)) (\<lambda>vals.
     bindA (alloca R (sizeof_ptr P * nelements spec)) (\<lambda>val_refs.
     bindA (pass_references P R val_refs (callbuffer + arg_array_offset) 0 vals) (\<lambda>_.
       ret (callbuffer, callbuffer + arg_array_offset))))))))"

text \<open>\<open>strcpy\<close> copies the name up to its first NUL.\<close>

definition perform_call ::
    "ocaml_runtime \<Rightarrow> ffi_caller \<Rightarrow> call_context \<Rightarrow> byte list \<Rightarrow> ffi_cif \<Rightarrow> nat \<Rightarrow> nat \<Rightarrow> nat \<Rightarrow> unit act" where
  "perform_call R ffi_call ctx fnname c cfunction return_write_slot arg_array =
     bindA (if runtime_lock ctx then caml_release_runtime_system R else ret ()) (\<lambda>_.
     bindA (\<lambda>w. (if check_errno ctx then w\<lparr>errno := 0\<rparr> else w, Inr ())) (\<lambda>_.
     bindA (ffi_call c cfunction return_write_slot arg_array) (\<lambda>_.
     bindA (\<lambda>w. (w, Inr (if check_errno ctx then errno w else 0))) (\<lambda>saved_errno.
     bindA (if runtime_lock ctx then caml_acquire_runtime_system R else ret ()) (\<lambda>_.
       if check_errno ctx \<and> saved_errno \<noteq> 0
       then lift (Inl (Unix_error saved_errno (takeWhile (\<lambda>b. b \<noteq> 0) fnname))) else ret ())))))"

text \<open>An offset of type \<open>int\<close> into the buffer.\<close>

definition slot_address :: "platform \<Rightarrow> nat \<Rightarrow> nat \<Rightarrow> nat" where
  "slot_address P callbuffer roff =
     nat (uwrap (sizeof_ptr P) (int callbuffer + swrap (sizeof_int P) (int roff)))"

definition ctypes_call ::
    "platform \<Rightarrow> libffi \<Rightarrow> ocaml_runtime \<Rightarrow> ffi_caller \<Rightarrow> ffi_types \<Rightarrow> value \<Rightarrow> value \<Rightarrow> callspec \<Rightarrow>
       (value \<times> value list \<Rightarrow> value list act) \<Rightarrow> (value \<Rightarrow> value act) \<Rightarrow> value act" where
  "ctypes_call P F R ffi_call T fnname function spec argwriter rvreader =
     in_frame (if state spec \<noteq> CALLSPEC then lift (Inl Assert_failure)
      else
        bindA (prepare_call P F R T spec argwriter) (\<lambda>(callbuffer, arg_array).
        bindA (lift (CTYPES_ADDR_OF_FATPTR P function)) (\<lambda>cfunction.
        bindA (lift (String_val fnname)) (\<lambda>name.
        bindA (lift (need Memory_fault (cif spec))) (\<lambda>c.
        let return_write_slot = slot_address P callbuffer (roffset spec);
            return_read_slot = (return_write_slot + radjustment spec) mod addr_limit P
        in bindA (perform_call R ffi_call (spec_context spec) name c cfunction return_write_slot arg_array) (\<lambda>_.
           caml_callback rvreader (CTYPES_FROM_PTR P return_read_slot)))))))"

end
