(* ===== verification/Ffi_Call_Correct.thy ===== *)
theory Ffi_Call_Correct
  imports Ffi_Call Type_Info_Correct
begin

text \<open>
  Correctness of \<open>ctypes_call\<close>: the lock and \<open>errno\<close> discipline around the call, strings by
  reference, and the end-to-end theorem that the C function is given the bytes OCaml wrote for
  each argument and that OCaml reads the bytes the function returned.
\<close>

section \<open>The lock and errno\<close>

text \<open>
  Releasing and taking the lock may change \<open>errno\<close>; what is checked is the value the C
  function left.
\<close>

lemma perform_call_ok:
  assumes "lock_held w"
    and "ffi_call c fn rv arr
           (w\<lparr>lock_held := \<not> runtime_lock ctx,
              errno := if check_errno ctx then 0 else if runtime_lock ctx then release_errno R (errno w) else errno w\<rparr>)
         = (w1, Inr ())"
    and "lock_held w1 \<longleftrightarrow> \<not> runtime_lock ctx"
  shows "perform_call R ffi_call ctx name c fn rv arr w =
    (w1\<lparr>lock_held := True, errno := if runtime_lock ctx then acquire_errno R (errno w1) else errno w1\<rparr>,
     if check_errno ctx \<and> errno w1 \<noteq> 0
     then Inl (Unix_error (errno w1) (takeWhile (\<lambda>b. b \<noteq> 0) name)) else Inr ())"
proof -
  define w0 where "w0 = w\<lparr>lock_held := \<not> runtime_lock ctx,
      errno := if check_errno ctx then 0 else if runtime_lock ctx then release_errno R (errno w) else errno w\<rparr>"
  have w0: "(if check_errno ctx then (w\<lparr>lock_held := False, errno := release_errno R (errno w)\<rparr>)\<lparr>errno := 0\<rparr>
      else w\<lparr>lock_held := False, errno := release_errno R (errno w)\<rparr>) = w0" if "runtime_lock ctx"
    using that by (simp add: w0_def)
  have w0': "(if check_errno ctx then w\<lparr>errno := 0\<rparr> else w) = w0" if "\<not> runtime_lock ctx"
    using that assms(1) by (simp add: w0_def)
  have c: "ffi_call c fn rv arr w0 = (w1, Inr ())" using assms(2) by (simp only: w0_def)
  have w1: "w1\<lparr>lock_held := True, errno := errno w1\<rparr> = w1" if "\<not> runtime_lock ctx"
    using that assms(3) by simp
  show ?thesis
  proof (cases "runtime_lock ctx")
    case True
    then show ?thesis
      using c assms(1,3) w0 by (simp add: perform_call_def caml_release_runtime_system_def
          caml_acquire_runtime_system_def)
  next
    case False
    then show ?thesis using c w1 w0' by (simp add: perform_call_def)
  qed
qed

section \<open>Memory of a call\<close>

lemma load_bytes_sub:
  assumes "load_bytes m a n = Some bs" "i + k \<le> n"
  shows "load_bytes m (a + i) k = Some (take k (drop i bs))"
proof (rule load_bytesI)
  have l: "length bs = n" using assms(1) by (rule load_bytes_length)
  then show "length (take k (drop i bs)) = k" using assms(2) by simp
  fix j assume "j < k"
  then show "m (a + i + j) = Some (take k (drop i bs) ! j)"
    using load_bytes_nth [OF assms(1), of "i + j"] assms(2) l by (simp add: add.assoc)
qed

lemma store_ptrs_ok:
  "mapped m a (length ps * sizeof_ptr P) \<Longrightarrow>
     \<exists>m'. store_ptrs P a ps m = Inr m' \<and> only_changes a (length ps * sizeof_ptr P) m m' \<and>
       (\<forall>i < length ps. load_u P m' (a + i * sizeof_ptr P) (sizeof_ptr P) =
          Inr (uwrap (sizeof_ptr P) (int (ps ! i))))"
proof (induction ps arbitrary: a m)
  case (Cons p ps)
  let ?k = "sizeof_ptr P"
  have "mapped m a ?k" "mapped m (a + ?k) (length ps * ?k)"
    using Cons.prems by (auto intro: mapped_sub)
  then obtain m1 where m1: "store_ptr P a p m = Inr m1" "only_changes a ?k m m1"
    "load_u P m1 a ?k = Inr (uwrap ?k (int p))" "mapped m1 (a + ?k) (length ps * ?k)"
    using store_int_ok [of m a ?k P "int p"] by (auto simp: store_ptr_def only_changesD)
  obtain m2 where m2: "store_ptrs P (a + ?k) ps m1 = Inr m2" "only_changes (a + ?k) (length ps * ?k) m1 m2"
    "\<forall>i < length ps. load_u P m2 (a + ?k + i * ?k) ?k = Inr (uwrap ?k (int (ps ! i)))"
    using Cons.IH [OF m1(4)] by blast
  have "load_u P m2 a ?k = Inr (uwrap ?k (int p))"
    using load_u_unchanged [OF m2(2), of a ?k P] m1(3) by simp
  then have "load_u P m2 (a + i * ?k) ?k = Inr (uwrap ?k (int ((p # ps) ! i)))" if "i < Suc (length ps)" for i
    using m2(3) that by (cases i) (simp_all add: add.assoc)
  moreover have "only_changes a (length (p # ps) * ?k) m m2"
    by (rule only_changes_trans [OF m1(2) m2(2)]) simp_all
  ultimately show ?case using m1(1) m2(1) by (intro exI [of _ m2]) simp
qed simp

text \<open>
  What OCaml's list of writers does: each argument is stored at its offset, the last one first.
\<close>

primrec store_slots :: "memory \<Rightarrow> (nat \<times> byte list) list \<Rightarrow> memory result" where
  "store_slots m [] = Inr m"
| "store_slots m (x # xs) =
     bindR (store_slots m xs) (\<lambda>m'. need Memory_fault (store_bytes m' (fst x) (snd x)))"

definition slots_apart :: "nat \<times> byte list \<Rightarrow> nat \<times> byte list \<Rightarrow> bool" where
  "slots_apart x y \<longleftrightarrow> fst x + length (snd x) \<le> fst y \<or> fst y + length (snd y) \<le> fst x"

lemma store_slots_ok:
  assumes "\<forall>x \<in> set xs. lo \<le> fst x \<and> fst x + length (snd x) \<le> lo + n" "sorted_wrt slots_apart xs"
    "mapped m lo n"
  shows "\<exists>m'. store_slots m xs = Inr m' \<and> only_changes lo n m m' \<and>
    (\<forall>x \<in> set xs. load_bytes m' (fst x) (length (snd x)) = Some (snd x))"
  using assms
proof (induction xs)
  case (Cons x xs)
  then obtain m1 where m1: "store_slots m xs = Inr m1" "only_changes lo n m m1"
    "\<forall>x \<in> set xs. load_bytes m1 (fst x) (length (snd x)) = Some (snd x)"
    by auto
  have x: "lo \<le> fst x" "fst x + length (snd x) \<le> lo + n" using Cons.prems(1) by auto
  have "mapped m1 (fst x) (length (snd x))"
    using mapped_sub [OF Cons.prems(3) x] only_changesD(2) [OF m1(2)] by simp
  then obtain m2 where m2: "store_bytes m1 (fst x) (snd x) = Some m2"
    using store_bytes_Some_iff by blast
  have oc: "only_changes (fst x) (length (snd x)) m1 m2"
    by (simp add: only_changes_def store_bytes_outside [OF m2] store_bytes_mapped [OF m2])
  have "load_bytes m2 (fst y) (length (snd y)) = Some (snd y)" if y: "y \<in> set xs" for y
  proof -
    have "slots_apart x y" using Cons.prems(2) y by simp
    then show ?thesis
      using load_store_other [OF m2, of "fst y" "length (snd y)"] m1(3) y by (auto simp: slots_apart_def)
  qed
  then have "\<forall>y \<in> set (x # xs). load_bytes m2 (fst y) (length (snd y)) = Some (snd y)"
    using load_store_same [OF m2 refl] by simp
  moreover have "only_changes lo n m m2"
    by (rule only_changes_trans [OF m1(2) oc]) (use x in simp_all)
  ultimately show ?case using m1(1) m2 by (intro exI [of _ m2]) simp
qed simp

lemma alloca_ok:
  assumes "stack_limit R + n + 16 \<le> stack_ptr w"
  shows "\<exists>m a. alloca R n w = (w\<lparr>cmem := m, stack_ptr := a\<rparr>, Inr a) \<and> a + n \<le> stack_ptr w \<and>
    stack_ptr w < a + n + 16 \<and> 16 dvd a \<and> mapped m a n \<and> (\<forall>x. x < a \<or> a + n \<le> x \<longrightarrow> m x = cmem w x)"
proof -
  define b where "b = stack_ptr w - n"
  define m where "m = (\<lambda>x. if b - b mod 16 \<le> x \<and> x < b - b mod 16 + n then Some (stack_junk R x) else cmem w x)"
  have b: "b mod 16 < 16" "b mod 16 \<le> b" "b + n = stack_ptr w" using assms by (simp_all add: b_def)
  have "alloca R n w = (w\<lparr>cmem := m, stack_ptr := b - b mod 16\<rparr>, Inr (b - b mod 16))"
    using assms by (simp add: alloca_def Let_def b_def [symmetric] m_def)
  moreover have "mapped m (b - b mod 16) n" by (auto simp: mapped_iff m_def)
  moreover have "16 dvd b - b mod 16" by (simp add: dvd_minus_mod)
  moreover have "b - b mod 16 + n \<le> stack_ptr w" "stack_ptr w < b - b mod 16 + n + 16" using b by linarith+
  moreover have "\<forall>x. x < b - b mod 16 \<or> b - b mod 16 + n \<le> x \<longrightarrow> m x = cmem w x"
    by (simp add: m_def)
  ultimately show ?thesis by blast
qed

lemma pass_references_units [simp]:
  "pass_references P R refs arr i (replicate n Val_unit) w = (w, Inr ())"
  by (induction n arbitrary: i) simp_all

definition ocaml_writer :: "platform \<Rightarrow> nat list \<Rightarrow> byte list list \<Rightarrow> value \<times> value list \<Rightarrow> value list act" where
  "ocaml_writer P offs bss = (\<lambda>(v, fields) w.
     case bindR (CTYPES_TO_PTR P v) (\<lambda>buf. store_slots (cmem w) (zip (map (\<lambda>p. buf + p) offs) bss)) of
       Inl e \<Rightarrow> (w, Inl e)
     | Inr m \<Rightarrow> (w\<lparr>cmem := m\<rparr>, Inr fields))"

lemma store_layout_ok:
  assumes R: "call_ready P F T spec ats ts ra r" and b: "length bss = length ts" "\<forall>i < length ts. length (bss ! i) \<le> ft_size (ts ! i)"
    and m: "mapped m buf (array_offset F ts r)"
  shows "\<exists>m'. store_slots m (zip (map (\<lambda>p. buf + p) (layout 0 ts)) bss) = Inr m' \<and>
    only_changes buf (array_offset F ts r) m m' \<and>
    (\<forall>i < length ts. load_bytes m' (buf + layout 0 ts ! i) (length (bss ! i)) = Some (bss ! i))"
proof -
  let ?xs = "zip (map (\<lambda>p. buf + p) (layout 0 ts)) bss"
  note l = b(1) and sz = b(2) [rule_format]
  have x: "?xs ! i = (buf + layout 0 ts ! i, bss ! i)" if "i < length ts" for i
    using that l by simp
  have le: "ret_offset ts r \<le> array_offset F ts r" using ready_sizes(2,3) [OF R] by linarith
  have 1: "\<forall>x \<in> set ?xs. buf \<le> fst x \<and> fst x + length (snd x) \<le> buf + array_offset F ts r"
  proof
    fix y assume "y \<in> set ?xs"
    then obtain i where i: "i < length ts" "y = ?xs ! i" by (metis in_set_conv_nth length_zip length_map length_layout l min.idem)
    then show "buf \<le> fst y \<and> fst y + length (snd y) \<le> buf + array_offset F ts r"
      using ready_slots(2) [OF R i(1)] sz [OF i(1)] le by (simp add: x)
  qed
  have 2: "sorted_wrt slots_apart ?xs"
  proof (unfold sorted_wrt_iff_nth_less, intro allI impI)
    fix i j assume ij: "i < j" "j < length ?xs"
    then have "j < length ts" "i < length ts" by simp_all
    then show "slots_apart (?xs ! i) (?xs ! j)"
      using ready_slots(3) [OF R \<open>j < length ts\<close> ij(1)] sz [of i] by (simp add: slots_apart_def x)
  qed
  from store_slots_ok [OF 1 2 m] obtain m' where m': "store_slots m ?xs = Inr m'"
    "only_changes buf (array_offset F ts r) m m'"
    "\<forall>x \<in> set ?xs. load_bytes m' (fst x) (length (snd x)) = Some (snd x)"
    by blast
  have "load_bytes m' (buf + layout 0 ts ! i) (length (bss ! i)) = Some (bss ! i)" if "i < length ts" for i
    using m'(3) [rule_format, of "?xs ! i"] that l by (simp add: x nth_mem [of i ?xs, simplified])
  with m' show ?thesis by blast
qed

section \<open>OCaml strings as arguments\<close>

text \<open>The array OCaml fills: nothing for an argument stored in the buffer, or a string and an offset.\<close>

definition reference_field :: "platform \<Rightarrow> (value \<times> int) option \<Rightarrow> value" where
  "reference_field P x = (case x of None \<Rightarrow> Val_unit | Some (v, off) \<Rightarrow> Block 0 [v, Val_long P off])"

lemma reference_field_simps [simp]:
  "reference_field P None = Val_unit"
  "reference_field P (Some (v, off)) = Block 0 [v, Val_long P off]"
  by (simp_all add: reference_field_def)

definition redirected :: "platform \<Rightarrow> ocaml_runtime \<Rightarrow> nat \<Rightarrow> nat \<Rightarrow> memory \<Rightarrow> memory \<Rightarrow> nat \<Rightarrow> (value \<times> int) option \<Rightarrow> bool" where
  "redirected P R refs arr m m' j x \<longleftrightarrow>
     (case x of
        None \<Rightarrow> load_u P m' (arr + j * sizeof_ptr P) (sizeof_ptr P) = load_u P m (arr + j * sizeof_ptr P) (sizeof_ptr P)
      | Some (v, off) \<Rightarrow>
          load_u P m' (arr + j * sizeof_ptr P) (sizeof_ptr P) = Inr (int (refs + j * sizeof_ptr P)) \<and>
          load_u P m' (refs + j * sizeof_ptr P) (sizeof_ptr P) =
            Inr (uwrap (sizeof_ptr P) (int (string_address R v) + off)))"

lemma redirected_cong:
  assumes "redirected P R refs arr m1 m2 j x"
    and "\<And>a. a = arr + j * sizeof_ptr P \<Longrightarrow> load_u P m1 a (sizeof_ptr P) = load_u P m a (sizeof_ptr P)"
  shows "redirected P R refs arr m m2 j x"
  using assms by (auto simp: redirected_def split: option.splits)

lemma load_u_cong:
  assumes "\<And>x. a \<le> x \<Longrightarrow> x < a + n \<Longrightarrow> m x = m' x"
  shows "load_u P m a n = load_u P m' a n"
  using load_bytes_cong [of a n m m'] assms by (simp add: load_u_def)

text \<open>The two stores that redirect one argument.\<close>

lemma redirect_stores:
  assumes "mapped m r k" "mapped m p k" "r + k \<le> p" "r < 256 ^ k"
  shows "\<exists>m1 m2. store_int P m r k v = Inr m1 \<and> store_int P m1 p k (int r) = Inr m2 \<and>
    (\<forall>a n. mapped m2 a n = mapped m a n) \<and>
    (\<forall>a. a < r \<or> (r + k \<le> a \<and> a < p) \<or> p + k \<le> a \<longrightarrow> m2 a = m a) \<and>
    load_u P m2 r k = Inr (uwrap k v) \<and> load_u P m2 p k = Inr (int r)"
proof -
  from store_int_ok [OF assms(1), of P v] obtain m1 where m1: "store_int P m r k v = Inr m1"
    "only_changes r k m m1" "load_u P m1 r k = Inr (uwrap k v)"
    by auto
  have "mapped m1 p k" using assms(2) only_changesD(2) [OF m1(2)] by simp
  from store_int_ok [OF this, of P "int r"] obtain m2 where m2: "store_int P m1 p k (int r) = Inr m2"
    "only_changes p k m1 m2" "load_u P m2 p k = Inr (uwrap k (int r))"
    by auto
  have "int r < 256 ^ k" using assms(4) by (metis of_nat_less_iff of_nat_numeral of_nat_power)
  then have "uwrap k (int r) = int r" by (simp add: uwrap_id in_urange_def)
  moreover have "load_u P m2 r k = load_u P m1 r k"
    by (rule load_u_unchanged [OF m2(2)]) (use assms(3) in auto)
  moreover have "m2 a = m a" if "a < r \<or> (r + k \<le> a \<and> a < p) \<or> p + k \<le> a" for a
    using only_changesD(1) [OF m1(2), of a] only_changesD(1) [OF m2(2), of a] that assms(3) by auto
  ultimately show ?thesis
    using m1 m2 only_changesD(2) [OF m1(2)] only_changesD(2) [OF m2(2)] by auto
qed

lemma pass_references_ok:
  assumes "\<forall>x \<in> set xs. case x of None \<Rightarrow> True | Some (v, off) \<Rightarrow> (\<exists>s. v = String_block s) \<and> oint_ok P off"
    and "mapped (cmem w) (arr + i * sizeof_ptr P) (length xs * sizeof_ptr P)"
    and "mapped (cmem w) (refs + i * sizeof_ptr P) (length xs * sizeof_ptr P)"
    and "refs + n * sizeof_ptr P \<le> arr" "i + length xs \<le> n" "arr < addr_limit P" "0 < sizeof_ptr P"
  shows "\<exists>m. pass_references P R refs arr i (map (reference_field P) xs) w = (w\<lparr>cmem := m\<rparr>, Inr ()) \<and>
    (\<forall>a k. mapped m a k = mapped (cmem w) a k) \<and>
    (\<forall>a. a < refs + i * sizeof_ptr P \<or> (refs + n * sizeof_ptr P \<le> a \<and> a < arr + i * sizeof_ptr P) \<or>
       arr + n * sizeof_ptr P \<le> a \<longrightarrow> m a = cmem w a) \<and>
    (\<forall>j < length xs. redirected P R refs arr (cmem w) m (i + j) (xs ! j))"
  using assms
proof (induction xs arbitrary: i w)
  case (Cons x xs)
  let ?k = "sizeof_ptr P"
  have next1: "mapped (cmem w) (arr + Suc i * ?k) (length xs * ?k)" "mapped (cmem w) (refs + Suc i * ?k) (length xs * ?k)"
    by (rule mapped_sub [OF Cons.prems(2)], simp, simp, rule mapped_sub [OF Cons.prems(3)], simp_all)
  have low: "refs + (Suc i) * ?k \<le> refs + n * ?k" using Cons.prems(5) by (intro add_left_mono mult_le_mono1) simp
  show ?case
  proof (cases x)
    case None
    obtain m where m: "pass_references P R refs arr (Suc i) (map (reference_field P) xs) w = (w\<lparr>cmem := m\<rparr>, Inr ())"
      "\<forall>a k. mapped m a k = mapped (cmem w) a k"
      "\<forall>a. a < refs + Suc i * ?k \<or> (refs + n * ?k \<le> a \<and> a < arr + Suc i * ?k) \<or> arr + n * ?k \<le> a \<longrightarrow> m a = cmem w a"
      "\<forall>j < length xs. redirected P R refs arr (cmem w) m (Suc i + j) (xs ! j)"
      using Cons.IH [of w "Suc i"] Cons.prems next1 by auto
    have "load_u P m (arr + i * ?k) ?k = load_u P (cmem w) (arr + i * ?k) ?k"
      unfolding load_u_def by (rule arg_cong [where f = "\<lambda>x. map_sum id (dec P) (need Memory_fault x)"], rule load_bytes_cong)
        (use m(3) Cons.prems(4) in auto)
    then have "redirected P R refs arr (cmem w) m (i + j) ((x # xs) ! j)" if "j < length (x # xs)" for j
      using m(4) that None by (cases j) (simp_all add: redirected_def)
    then show ?thesis
      using m(1-3) None by (intro exI [of _ m]) simp
  next
    case (Some y)
    obtain s off where y: "y = (String_block s, off)" "oint_ok P off"
      using Cons.prems(1) Some by (cases y) auto
    let ?v = "uwrap ?k (int (string_address R (String_block s)) + off)"
    have mp: "mapped (cmem w) (refs + i * ?k) ?k" "mapped (cmem w) (arr + i * ?k) ?k"
      by (rule mapped_sub [OF Cons.prems(3)], simp, simp, rule mapped_sub [OF Cons.prems(2)], simp_all)
    have ord: "refs + i * ?k + ?k \<le> arr + i * ?k" "refs + i * ?k < addr_limit P"
      using low Cons.prems(4,6) by simp_all
    from redirect_stores [OF mp ord, of P ?v, unfolded uwrap_uwrap] obtain m1 m2 where st: "store_int P (cmem w) (refs + i * ?k) ?k ?v = Inr m1"
      "store_int P m1 (arr + i * ?k) ?k (int (refs + i * ?k)) = Inr m2" "\<forall>a n. mapped m2 a n = mapped (cmem w) a n"
      "\<forall>a. a < refs + i * ?k \<or> (refs + i * ?k + ?k \<le> a \<and> a < arr + i * ?k) \<or> arr + i * ?k + ?k \<le> a \<longrightarrow> m2 a = cmem w a"
      "load_u P m2 (refs + i * ?k) ?k = Inr ?v" "load_u P m2 (arr + i * ?k) ?k = Inr (int (refs + i * ?k))"
      by (elim exE conjE) (rule that)
    let ?w2 = "w\<lparr>cmem := m2\<rparr>"
    obtain m where m: "pass_references P R refs arr (Suc i) (map (reference_field P) xs) ?w2 = (w\<lparr>cmem := m\<rparr>, Inr ())"
      "\<forall>a k. mapped m a k = mapped m2 a k"
      "\<forall>a. a < refs + Suc i * ?k \<or> (refs + n * ?k \<le> a \<and> a < arr + Suc i * ?k) \<or> arr + n * ?k \<le> a \<longrightarrow> m a = m2 a"
      "\<forall>j < length xs. redirected P R refs arr m2 m (Suc i + j) (xs ! j)"
      using Cons.IH [of ?w2 "Suc i"] Cons.prems next1 st(3) by auto
    have nn: "0 \<le> ?v" by (simp add: uwrap_def)
    have lv: "Long_val (Val_long P off) = Inr off" using y(2) Cons.prems(7) by (simp add: Long_val_Val_long)
    have pr: "pass_references P R refs arr i (map (reference_field P) (x # xs)) w = (w\<lparr>cmem := m\<rparr>, Inr ())"
      using m(1) st(1,2) y(2)
      by (simp add: Some y(1) Val_unit_def on_mem_def store_ptr_def lv nn)
    have high: "arr + Suc i * ?k \<le> arr + n * ?k" using Cons.prems(5) by (intro add_left_mono mult_le_mono1) simp
    have fr: "m a = cmem w a"
      if "a < refs + i * ?k \<or> (refs + n * ?k \<le> a \<and> a < arr + i * ?k) \<or> arr + n * ?k \<le> a" for a
      using m(3) st(4) that low high Cons.prems(4) by auto
    have "redirected P R refs arr (cmem w) m (i + j) ((x # xs) ! j)" if j: "j < length (x # xs)" for j
    proof (cases j)
      case 0
      have "load_u P m a ?k = load_u P m2 a ?k" if "a = refs + i * ?k \<or> a = arr + i * ?k" for a
        using that Cons.prems(4) by (intro load_u_cong m(3) [rule_format]) auto
      with 0 st(5,6) show ?thesis by (simp add: redirected_def Some y(1))
    next
      case (Suc j')
      have "load_u P m2 a ?k = load_u P (cmem w) a ?k" if "a = arr + (Suc i + j') * ?k" for a
        using that by (intro load_u_cong st(4) [rule_format]) (simp add: add_mult_distrib)
      then show ?thesis
        using redirected_cong [of P R refs arr m2 m "Suc i + j'" "xs ! j'" "cmem w"] m(4) j Suc by simp
    qed
    then show ?thesis using pr fr m(2) st(3) by (intro exI [of _ m]) simp
  qed
next
  case Nil
  then show ?case by (intro exI [of _ "cmem w"]) simp
qed

section \<open>Preparing a call\<close>

text \<open>
  What \<open>ctypes_call\<close> asks of the function that writes the arguments: it fills the slots of the
  buffer that belong to arguments passed by value, touches nothing else, and leaves in the array the strings \<open>xs\<close>
  to pass by reference, whose arguments are pointers to their bytes.  What C is given satisfies \<open>B\<close>.
\<close>

definition references_ok ::
    "platform \<Rightarrow> ocaml_runtime \<Rightarrow> ffi_type list \<Rightarrow> (value \<times> int) option list \<Rightarrow> byte list list \<Rightarrow> bool" where
  "references_ok P R ts xs bss \<longleftrightarrow>
     length xs = length ts \<and> length bss = length ts \<and>
     (\<forall>i < length ts. case xs ! i of None \<Rightarrow> True
      | Some (v, off) \<Rightarrow> (\<exists>s. v = String_block s) \<and> oint_ok P off \<and> ft_size (ts ! i) = sizeof_ptr P \<and>
          bss ! i = enc P (sizeof_ptr P) (int (string_address R v) + off))"

definition writes_slots ::
    "platform \<Rightarrow> libffi \<Rightarrow> ocaml_runtime \<Rightarrow> ffi_type list \<Rightarrow> ffi_type \<Rightarrow> (value \<times> int) option list \<Rightarrow>
       (byte list list \<Rightarrow> bool) \<Rightarrow> (value \<times> value list \<Rightarrow> value list act) \<Rightarrow> bool" where
  "writes_slots P F R ts r xs B writer \<longleftrightarrow>
     (\<forall>w buf. buf + array_offset F ts r < addr_limit P \<longrightarrow> mapped (cmem w) buf (array_offset F ts r) \<longrightarrow>
       (\<exists>m bss. writer (CTYPES_FROM_PTR P buf, replicate (length ts) Val_unit) w =
           (w\<lparr>cmem := m\<rparr>, Inr (map (reference_field P) xs)) \<and>
         only_changes buf (array_offset F ts r) (cmem w) m \<and> B bss \<and> references_ok P R ts xs bss \<and>
         (\<forall>i < length ts. xs ! i = None \<longrightarrow> load_bytes m (buf + layout 0 ts ! i) (ft_size (ts ! i)) = Some (bss ! i))))"

text \<open>Where libffi finds an argument: in the buffer, or in the array of addresses of strings.\<close>

definition argument_place :: "platform \<Rightarrow> ffi_type list \<Rightarrow> (value \<times> int) option list \<Rightarrow> nat \<Rightarrow> nat \<Rightarrow> nat \<Rightarrow> nat" where
  "argument_place P ts xs buf refs i =
     (case xs ! i of None \<Rightarrow> buf + layout 0 ts ! i | Some x \<Rightarrow> refs + i * sizeof_ptr P)"

lemma ocaml_writer_writes:
  assumes "call_ready P F T spec ats ts ra r" "map length bss = map ft_size ts"
  shows "writes_slots P F R ts r (replicate (length ts) None) (\<lambda>b. b = bss) (ocaml_writer P (layout 0 ts) bss)"
  unfolding writes_slots_def
proof (intro allI impI)
  have l: "length bss = length ts" using assms(2) by (rule map_eq_imp_length_eq)
  then have sz: "length (bss ! i) = ft_size (ts ! i)" if "i < length ts" for i using assms(2) that by (metis nth_map)
  have X: "references_ok P R ts (replicate (length ts) None) bss"
    using l by (simp add: references_ok_def)
  fix w :: c_world and buf
  assume b: "buf + array_offset F ts r < addr_limit P" "mapped (cmem w) buf (array_offset F ts r)"
  then have "buf < addr_limit P" by simp
  then show "\<exists>m b. ocaml_writer P (layout 0 ts) bss (CTYPES_FROM_PTR P buf, replicate (length ts) Val_unit) w =
        (w\<lparr>cmem := m\<rparr>, Inr (map (reference_field P) (replicate (length ts) None))) \<and>
      only_changes buf (array_offset F ts r) (cmem w) m \<and> b = bss \<and> references_ok P R ts (replicate (length ts) None) b \<and>
      (\<forall>i < length ts. replicate (length ts) None ! i = None \<longrightarrow>
        load_bytes m (buf + layout 0 ts ! i) (ft_size (ts ! i)) = Some (b ! i))"
    using store_layout_ok [OF assms(1) l _ b(2)] sz X by (auto simp: ocaml_writer_def to_from_ptr)
qed

text \<open>Redirecting the arguments that are strings.\<close>

lemma redirect_ok:
  assumes C: "call_ready P F T spec ats ts ra r" and X: "references_ok P R ts xs bss"
    and lim: "buf + array_offset F ts r < addr_limit P" and refs: "refs + length ts * sizeof_ptr P \<le> buf"
    and m: "mapped (cmem w) buf (buffer_size P F ts r)" "mapped (cmem w) refs (length ts * sizeof_ptr P)"
    and ptrs: "\<forall>i < length ts. load_u P (cmem w) (buf + array_offset F ts r + i * sizeof_ptr P) (sizeof_ptr P) =
        Inr (int (buf + layout 0 ts ! i))"
    and slots: "\<forall>i < length ts. xs ! i = None \<longrightarrow>
        load_bytes (cmem w) (buf + layout 0 ts ! i) (ft_size (ts ! i)) = Some (bss ! i)"
  shows "\<exists>m'. pass_references P R refs (buf + array_offset F ts r) 0 (map (reference_field P) xs) w = (w\<lparr>cmem := m'\<rparr>, Inr ()) \<and>
    (\<forall>a k. mapped m' a k = mapped (cmem w) a k) \<and>
    (\<forall>a. a < refs \<or> buf + buffer_size P F ts r \<le> a \<longrightarrow> m' a = cmem w a) \<and>
    (\<forall>i < length ts.
       load_u P m' (buf + array_offset F ts r + i * sizeof_ptr P) (sizeof_ptr P) = Inr (int (argument_place P ts xs buf refs i)) \<and>
       load_bytes m' (argument_place P ts xs buf refs i) (ft_size (ts ! i)) = Some (bss ! i))"
proof -
  let ?A = "array_offset F ts r" and ?k = "sizeof_ptr P" and ?n = "length ts"
  have BA: "buffer_size P F ts r = ?A + ?n * ?k" using ready_sizes(4) [OF C] by simp
  have n: "length xs = ?n" using X by (simp add: references_ok_def)
  have k: "0 < ?k" using C platform_okD [of P] by (simp add: call_ready_def)
  have str: "\<forall>x \<in> set xs. case x of None \<Rightarrow> True | Some (v, off) \<Rightarrow> (\<exists>s. v = String_block s) \<and> oint_ok P off"
    using X n by (fastforce simp: references_ok_def in_set_conv_nth split: option.splits)
  have arr: "mapped (cmem w) (buf + ?A + 0 * ?k) (length xs * ?k)"
    unfolding n by (rule mapped_sub [OF m(1)]) (simp_all add: BA)
  have rf: "mapped (cmem w) (refs + 0 * ?k) (length xs * ?k)" using m(2) n by simp
  have "refs + ?n * ?k \<le> buf + ?A" "0 + length xs \<le> ?n" using refs n by simp_all
  from pass_references_ok [OF str arr rf this lim k, of R] obtain m' where m':
    "pass_references P R refs (buf + ?A) 0 (map (reference_field P) xs) w = (w\<lparr>cmem := m'\<rparr>, Inr ())"
    "\<forall>a k. mapped m' a k = mapped (cmem w) a k"
    "\<forall>a. a < refs \<or> (refs + ?n * ?k \<le> a \<and> a < buf + ?A) \<or> buf + ?A + ?n * ?k \<le> a \<longrightarrow> m' a = cmem w a"
    "\<forall>j < ?n. redirected P R refs (buf + ?A) (cmem w) m' j (xs ! j)"
    using n by auto
  have "load_u P m' (buf + ?A + i * ?k) ?k = Inr (int (argument_place P ts xs buf refs i)) \<and>
      load_bytes m' (argument_place P ts xs buf refs i) (ft_size (ts ! i)) = Some (bss ! i)" if i: "i < ?n" for i
  proof (cases "xs ! i")
    case None
    have "layout 0 ts ! i + ft_size (ts ! i) \<le> ?A"
      using ready_slots(2) [OF C i] ready_sizes(2,3) [OF C] by linarith
    then have "load_bytes m' (buf + layout 0 ts ! i) (ft_size (ts ! i)) = load_bytes (cmem w) (buf + layout 0 ts ! i) (ft_size (ts ! i))"
      using refs by (intro load_bytes_cong m'(3) [rule_format] disjI2 disjI1) simp
    with None show ?thesis
      using m'(4) [rule_format, OF i] i ptrs slots by (simp add: redirected_def argument_place_def)
  next
    case (Some x)
    obtain v off where x: "x = (v, off)" by (cases x)
    have b: "ft_size (ts ! i) = ?k" "bss ! i = enc P ?k (int (string_address R v) + off)"
      using X i Some x by (auto simp: references_ok_def)
    have l: "load_u P m' (buf + ?A + i * ?k) ?k = Inr (int (refs + i * ?k))"
      "load_u P m' (refs + i * ?k) ?k = Inr (uwrap ?k (int (string_address R v) + off))"
      using m'(4) [rule_format, OF i] Some x by (simp_all add: redirected_def)
    from l(2) obtain cs where cs: "load_bytes m' (refs + i * ?k) ?k = Some cs" "uwrap ?k (int (string_address R v) + off) = dec P cs"
      unfolding load_u_Inr by blast
    then have "cs = enc P ?k (uwrap ?k (int (string_address R v) + off))"
      using load_bytes_length [OF cs(1)] by (simp add: enc_dec)
    then show ?thesis using l(1) cs(1) b Some x by (simp add: argument_place_def)
  qed
  then show ?thesis using m'(1-3) refs BA by (intro exI [of _ m']) (auto simp: add.assoc)
qed

text \<open>Filling the buffer: the pointers to the slots, then what the writer stores.\<close>

lemma buffer_filled:
  assumes C: "call_ready P F T spec ats ts ra r" and W: "writes_slots P F R ts r xs B writer"
    and m: "mapped m buf (buffer_size P F ts r)" and lim: "buf + array_offset F ts r < addr_limit P"
  shows "\<exists>m2 m3 bss. B bss \<and> references_ok P R ts xs bss \<and> store_ptrs P (buf + array_offset F ts r) (map (\<lambda>p. buf + p) (layout 0 ts)) m = Inr m2 \<and>
    writer (CTYPES_FROM_PTR P buf, replicate (length ts) Val_unit) (w\<lparr>cmem := m2\<rparr>) =
      (w\<lparr>cmem := m3\<rparr>, Inr (map (reference_field P) xs)) \<and>
    only_changes buf (buffer_size P F ts r) m m3 \<and>
    (\<forall>i < length ts. load_u P m3 (buf + array_offset F ts r + i * sizeof_ptr P) (sizeof_ptr P) =
       Inr (int (buf + layout 0 ts ! i))) \<and>
    (\<forall>i < length ts. xs ! i = None \<longrightarrow> load_bytes m3 (buf + layout 0 ts ! i) (ft_size (ts ! i)) = Some (bss ! i))"
proof -
  let ?B = "buffer_size P F ts r" and ?A = "array_offset F ts r" and ?k = "sizeof_ptr P" and ?n = "length ts"
  let ?ps = "map (\<lambda>p. buf + p) (layout 0 ts)"
  have BA: "?B = ?A + ?n * ?k" using ready_sizes(4) [OF C] by simp
  have "mapped m (buf + ?A) (length ?ps * ?k)" by (rule mapped_sub [OF m]) (simp_all add: BA)
  from store_ptrs_ok [OF this] obtain m2 where m2: "store_ptrs P (buf + ?A) ?ps m = Inr m2"
    "only_changes (buf + ?A) (?n * ?k) m m2"
    "\<forall>i < ?n. load_u P m2 (buf + ?A + i * ?k) ?k = Inr (uwrap ?k (int (buf + layout 0 ts ! i)))"
    by auto
  have "mapped m2 buf ?B" using m only_changesD(2) [OF m2(2)] by simp
  then have "mapped m2 buf ?A" by (rule mapped_sub) (simp_all add: BA)
  with lim obtain m3 bss where bs: "B bss" "references_ok P R ts xs bss" and
    m3: "writer (CTYPES_FROM_PTR P buf, replicate ?n Val_unit) (w\<lparr>cmem := m2\<rparr>) =
      (w\<lparr>cmem := m3\<rparr>, Inr (map (reference_field P) xs))" "only_changes buf ?A m2 m3"
    "\<forall>i < ?n. xs ! i = None \<longrightarrow> load_bytes m3 (buf + layout 0 ts ! i) (ft_size (ts ! i)) = Some (bss ! i)"
    using W [unfolded writes_slots_def, rule_format, of buf "w\<lparr>cmem := m2\<rparr>"] by auto
  have "load_u P m3 (buf + ?A + i * ?k) ?k = Inr (int (buf + layout 0 ts ! i))" if i: "i < ?n" for i
  proof -
    have "buf + layout 0 ts ! i < addr_limit P"
      using ready_slots(2) [OF C i] ready_sizes(2,3) [OF C] lim by linarith
    then have "int (buf + layout 0 ts ! i) < 256 ^ ?k" by (metis of_nat_less_iff of_nat_numeral of_nat_power)
    then have "uwrap ?k (int (buf + layout 0 ts ! i)) = int (buf + layout 0 ts ! i)" by (simp add: uwrap_id in_urange_def)
    moreover have "load_u P m3 (buf + ?A + i * ?k) ?k = load_u P m2 (buf + ?A + i * ?k) ?k"
      by (rule load_u_unchanged [OF m3(2)]) simp
    ultimately show ?thesis using m2(3) i by simp
  qed
  moreover have "only_changes buf ?B m m3"
    by (rule only_changes_trans [OF m2(2) m3(2)]) (simp_all add: BA)
  ultimately show ?thesis using m2(1) m3(1,3) bs by blast
qed

lemma prepare_call_ok:
  assumes C: "call_ready P F T spec ats ts ra r" and W: "writes_slots P F R ts r xs B writer"
    and w: "lock_held w" "stack_ptr w < addr_limit P"
    and st: "stack_limit R + buffer_size P F ts r + length ts * sizeof_ptr P + 32 \<le> stack_ptr w"
  shows "\<exists>m buf refs ps bss. B bss \<and> references_ok P R ts xs bss \<and> prepare_call P F R T spec writer w =
      (w\<lparr>cmem := m, stack_ptr := refs\<rparr>, Inr (buf, buf + array_offset F ts r)) \<and>
    buf + buffer_size P F ts r \<le> stack_ptr w \<and> 16 dvd buf \<and> mapped m buf (buffer_size P F ts r) \<and>
    (\<forall>x. x < stack_limit R \<or> stack_ptr w \<le> x \<longrightarrow> m x = cmem w x) \<and>
    (\<forall>i < length ts.
       load_u P m (buf + array_offset F ts r + i * sizeof_ptr P) (sizeof_ptr P) = Inr (int (ps i)) \<and>
       load_bytes m (ps i) (ft_size (ts ! i)) = Some (bss ! i))"
proof -
  let ?B = "buffer_size P F ts r" and ?A = "array_offset F ts r" and ?k = "sizeof_ptr P" and ?n = "length ts"
  have BA: "?B = ?A + ?n * ?k" using ready_sizes(4) [OF C] by simp
  have nel: "nelements spec = ?n" using C by (simp add: call_ready_def)
  obtain m1 buf where m1: "alloca R ?B w = (w\<lparr>cmem := m1, stack_ptr := buf\<rparr>, Inr buf)"
    "buf + ?B \<le> stack_ptr w" "stack_ptr w < buf + ?B + 16" "16 dvd buf" "mapped m1 buf ?B"
    "\<forall>x. x < buf \<or> buf + ?B \<le> x \<longrightarrow> m1 x = cmem w x"
    using alloca_ok [of R ?B w] st by auto
  have limA: "buf + ?A < addr_limit P" using m1(2) w(2) BA by linarith
  from buffer_filled [OF C W m1(5) limA, of "w\<lparr>stack_ptr := buf\<rparr>"] obtain m2 m3 bss where
    X: "B bss" "references_ok P R ts xs bss" and m2: "store_ptrs P (buf + ?A) (map (\<lambda>p. buf + p) (layout 0 ts)) m1 = Inr m2"
    and m3: "writer (CTYPES_FROM_PTR P buf, replicate ?n Val_unit) (w\<lparr>stack_ptr := buf, cmem := m2\<rparr>) =
      (w\<lparr>stack_ptr := buf, cmem := m3\<rparr>, Inr (map (reference_field P) xs))" "only_changes buf ?B m1 m3"
    "\<And>i. i < ?n \<Longrightarrow> load_u P m3 (buf + ?A + i * ?k) ?k = Inr (int (buf + layout 0 ts ! i))"
    "\<And>i. i < ?n \<Longrightarrow> xs ! i = None \<Longrightarrow> load_bytes m3 (buf + layout 0 ts ! i) (ft_size (ts ! i)) = Some (bss ! i)"
    by auto
  have wr: "caml_callback writer (CTYPES_FROM_PTR P buf, replicate ?n Val_unit) (w\<lparr>stack_ptr := buf, cmem := m2\<rparr>) =
      (w\<lparr>cmem := m3, stack_ptr := buf\<rparr>, Inr (map (reference_field P) xs))"
    using w(1) m3(1) by (simp add: caml_callback_def)
  have "stack_limit R + ?n * ?k + 16 \<le> stack_ptr (w\<lparr>cmem := m3, stack_ptr := buf\<rparr>)" using st m1(3) by simp
  from alloca_ok [OF this] obtain m4 refs where
    m4: "alloca R (?n * ?k) (w\<lparr>cmem := m3, stack_ptr := buf\<rparr>) = (w\<lparr>cmem := m4, stack_ptr := refs\<rparr>, Inr refs)"
    "refs + ?n * ?k \<le> buf" "buf < refs + ?n * ?k + 16" "mapped m4 refs (?n * ?k)" "\<forall>x. x < refs \<or> refs + ?n * ?k \<le> x \<longrightarrow> m4 x = m3 x"
    by auto
  let ?w4 = "w\<lparr>cmem := m4, stack_ptr := refs\<rparr>"
  have up: "m4 x = m3 x" if "buf \<le> x \<or> x < stack_limit R" for x
    using m4(2,3,5) m1(3) st that by auto
  have ptrs: "\<forall>i < ?n. load_u P (cmem ?w4) (buf + ?A + i * ?k) ?k = Inr (int (buf + layout 0 ts ! i))"
    using m3(3) load_u_cong [of _ ?k m4 m3 P] up by simp
  have slots: "\<forall>i < ?n. xs ! i = None \<longrightarrow> load_bytes (cmem ?w4) (buf + layout 0 ts ! i) (ft_size (ts ! i)) = Some (bss ! i)"
    using load_bytes_cong [of "buf + layout 0 ts ! _" "ft_size (ts ! _)" m4 m3] up m3(4) by simp
  have mB: "mapped m4 buf ?B"
    using m1(5) only_changesD(2) [OF m3(2), of buf ?B] up by (simp add: mapped_iff)
  have "mapped (cmem ?w4) buf ?B" "mapped (cmem ?w4) refs (?n * ?k)" using mB m4(4) by simp_all
  from redirect_ok [OF C X(2) limA m4(2) this ptrs slots] obtain m5 where
    m5: "pass_references P R refs (buf + ?A) 0 (map (reference_field P) xs) ?w4 = (?w4\<lparr>cmem := m5\<rparr>, Inr ())"
    "\<forall>a k. mapped m5 a k = mapped m4 a k" "\<forall>a. a < refs \<or> buf + ?B \<le> a \<longrightarrow> m5 a = m4 a"
    "\<forall>i < ?n. load_u P m5 (buf + ?A + i * ?k) ?k = Inr (int (argument_place P ts xs buf refs i)) \<and>
       load_bytes m5 (argument_place P ts xs buf refs i) (ft_size (ts ! i)) = Some (bss ! i)"
    by auto
  have "prepare_call P F R T spec writer w = (w\<lparr>cmem := m5, stack_ptr := refs\<rparr>, Inr (buf, buf + ?A))"
    using wr m1(1) m2 m4(1) m5(1)
    by (simp add: prepare_call_def ready_buffer_size [OF C] ready_populate [OF C] nel on_mem_def mult.commute)
  moreover have "m5 x = cmem w x" if x: "x < stack_limit R \<or> stack_ptr w \<le> x" for x
  proof -
    have out: "x < buf \<or> buf + ?B \<le> x" "buf \<le> x \<or> x < stack_limit R" "x < refs \<or> buf + ?B \<le> x"
      using x m1(2,3) m4(3) st by linarith+
    then show ?thesis using up [OF out(2)] m1(6) only_changesD(1) [OF m3(2) out(1)] m5(3) by metis
  qed
  moreover have "mapped m5 buf ?B" using mB m5(2) by simp
  ultimately show ?thesis using m1(2,4) m5(4) X by blast
qed

text \<open>When the writer raises, so does the preparation, with the buffer on the stack.\<close>

lemma prepare_call_raises:
  assumes C: "call_ready P F T spec ats ts ra r"
    and W: "\<And>buf w'. buf < addr_limit P \<Longrightarrow>
      writer (CTYPES_FROM_PTR P buf, replicate (length ts) Val_unit) w' = (w', Inl e)"
    and w: "lock_held w" "stack_ptr w < addr_limit P" "stack_limit R + buffer_size P F ts r + 16 \<le> stack_ptr w"
  shows "\<exists>m sp. prepare_call P F R T spec writer w = (w\<lparr>cmem := m, stack_ptr := sp\<rparr>, Inl e)"
proof -
  let ?B = "buffer_size P F ts r" and ?A = "array_offset F ts r" and ?k = "sizeof_ptr P" and ?n = "length ts"
  have BA: "?B = ?A + ?n * ?k" using ready_sizes(4) [OF C] by simp
  have nel: "nelements spec = ?n" using C by (simp add: call_ready_def)
  obtain m1 buf where m1: "alloca R ?B w = (w\<lparr>cmem := m1, stack_ptr := buf\<rparr>, Inr buf)"
    "buf + ?B \<le> stack_ptr w" "mapped m1 buf ?B"
    using alloca_ok [of R ?B w] w(3) by auto
  have "mapped m1 (buf + ?A) (length (map (\<lambda>p. buf + p) (layout 0 ts)) * ?k)"
    by (rule mapped_sub [OF m1(3)]) (simp_all add: BA)
  from store_ptrs_ok [OF this] obtain m2 where
    m2: "store_ptrs P (buf + ?A) (map (\<lambda>p. buf + p) (layout 0 ts)) m1 = Inr m2"
    by blast
  have "buf < addr_limit P" using m1(2) w(2) by linarith
  from W [OF this] show ?thesis
    using w(1) m1(1) m2
    by (intro exI [of _ m2] exI [of _ buf])
      (simp add: prepare_call_def caml_callback_def ready_buffer_size [OF C] ready_populate [OF C] nel on_mem_def)
qed

section \<open>The returned value\<close>

text \<open>
  libffi returns integers that are narrower than the register type \<open>ffi_arg\<close> widened to it: sign
  extended for signed types, zero extended for unsigned ones; other results are stored as
  they are.  \<open>bs\<close> is the value in memory, of the size of its type.
\<close>

definition widened :: "libffi \<Rightarrow> ffi_type \<Rightarrow> bool" where
  "widened F t \<longleftrightarrow> ft_size t < sizeof_ffi_arg F \<and>
     ft_type t \<in> {FFI_TYPE_INT, FFI_TYPE_UINT8, FFI_TYPE_SINT8, FFI_TYPE_UINT16, FFI_TYPE_SINT16,
       FFI_TYPE_UINT32, FFI_TYPE_SINT32, FFI_TYPE_UINT64, FFI_TYPE_SINT64}"

definition signed_kind :: "ffi_kind \<Rightarrow> bool" where
  "signed_kind k \<longleftrightarrow> k \<in> {FFI_TYPE_INT, FFI_TYPE_SINT8, FFI_TYPE_SINT16, FFI_TYPE_SINT32, FFI_TYPE_SINT64}"

definition widen :: "platform \<Rightarrow> libffi \<Rightarrow> ffi_type \<Rightarrow> byte list \<Rightarrow> byte list" where
  "widen P F t bs =
     (if widened F t
      then enc P (sizeof_ffi_arg F) (if signed_kind (ft_type t) then swrap (ft_size t) (dec P bs) else dec P bs)
      else bs)"

lemma take_le_bytes: "k \<le> n \<Longrightarrow> take k (le_bytes n x) = le_bytes k x"
proof (induction n arbitrary: k x)
  case (Suc n)
  then show ?case by (cases k) simp_all
qed simp

lemma enc_narrow:
  assumes "k \<le> n"
  shows "take k (drop (if big_endian P then n - k else 0) (enc P n x)) = enc P k x"
proof (cases "big_endian P")
  case True
  have "take k (drop (n - k) (rev (le_bytes n x))) = rev (take k (le_bytes n x))"
    using assms by (simp add: drop_rev)
  with True show ?thesis using assms by (simp add: enc_def take_le_bytes)
qed (use assms in \<open>simp add: enc_def take_le_bytes\<close>)

lemma adjustment_eq: "ffi_return_type_adjustment P F t =
    (if widened F t then if big_endian P then sizeof_ffi_arg F - ft_size t else 0 else 0)"
  by (simp add: ffi_return_type_adjustment_def widened_def)

lemma widen_read:
  assumes "length bs = ft_size t"
  shows "take (ft_size t) (drop (ffi_return_type_adjustment P F t) (widen P F t bs)) = bs"
proof (cases "widened F t")
  case True
  then have le: "ft_size t \<le> sizeof_ffi_arg F" by (simp add: widened_def)
  have "enc P (ft_size t) (if signed_kind (ft_type t) then swrap (ft_size t) (dec P bs) else dec P bs) = bs"
    using enc_dec [OF assms] by simp
  then show ?thesis
    using enc_narrow [OF le, of P] True by (simp only: widen_def adjustment_eq if_True)
qed (use assms in \<open>simp add: widen_def adjustment_eq\<close>)

text \<open>A result of type \<open>void\<close> has no bytes, although libffi gives its descriptor a size.\<close>

definition result_size :: "ffi_type \<Rightarrow> nat" where
  "result_size t = (if ft_type t = FFI_TYPE_VOID then 0 else ft_size t)"

lemma result_size_le: "result_size t \<le> ft_size t"
  by (simp add: result_size_def)

lemma widened_result_size: "widened F t \<Longrightarrow> result_size t = ft_size t"
  by (auto simp: widened_def result_size_def)

text \<open>
  What \<open>ffi_call\<close> promises: given the pointers to the arguments, it calls the function with the
  arguments' bytes and stores the widened result.  \<open>sem\<close> is the meaning of the C functions: what
  the function at an address does to the world and the bytes it returns.
\<close>

type_synonym c_functions = "nat \<Rightarrow> byte list list \<Rightarrow> c_world \<Rightarrow> c_world \<times> byte list"

definition ffi_calls ::
    "platform \<Rightarrow> libffi \<Rightarrow> ffi_types \<Rightarrow> c_functions \<Rightarrow> ffi_caller \<Rightarrow> bool" where
  "ffi_calls P F T sem ffi_call \<longleftrightarrow>
     (\<forall>c fn rv arr w bss ps ts r.
        map T (cif_arg_types c) = map Some ts \<and> T (cif_rtype c) = Some r \<and> length bss = length ts \<and>
        (\<forall>i < length ts.
           load_u P (cmem w) (arr + i * sizeof_ptr P) (sizeof_ptr P) = Inr (int (ps i)) \<and>
           load_bytes (cmem w) (ps i) (ft_size (ts ! i)) = Some (bss ! i)) \<longrightarrow>
        ffi_call c fn rv arr w =
          (case sem fn bss w of (w', bs) \<Rightarrow>
             on_mem (\<lambda>m. need Memory_fault (store_bytes m rv (widen P F r bs))) w'))"

text \<open>A C function, called with the lock released or not, gives it back as it found it and leaves its caller's frame mapped.\<close>

definition well_behaved :: "bool \<Rightarrow> c_functions \<Rightarrow> nat \<Rightarrow> byte list list \<Rightarrow> nat \<Rightarrow> bool" where
  "well_behaved released sem fn bss n \<longleftrightarrow>
     (\<forall>w. lock_held w = (\<not> released) \<longrightarrow> (case sem fn bss w of (w', bs) \<Rightarrow> length bs = n \<and> lock_held w' = lock_held w \<and>
        (\<forall>a k. mapped (cmem w) a k \<longrightarrow> mapped (cmem w') a k)))"

lemma slot_address_eq:
  assumes "call_ready P F T spec ats ts ra r" "buf + buffer_size P F ts r < addr_limit P"
  shows "slot_address P buf (roffset spec) = buf + ret_offset ts r"
    "(buf + ret_offset ts r + radjustment spec) mod addr_limit P = buf + ret_offset ts r + radjustment spec"
proof -
  note le = ready_sizes [OF assms(1)]
  have ro: "roffset spec = ret_offset ts r" using assms(1) by (simp add: call_ready_def)
  have "ret_offset ts r \<le> buffer_size P F ts r" using le by linarith
  then have s: "swrap (sizeof_int P) (int (roffset spec)) = int (ret_offset ts r)"
    using ready_lt(2) [OF assms(1)] ro by simp
  have lt: "buf + ret_offset ts r < addr_limit P" "buf + ret_offset ts r + radjustment spec < addr_limit P"
    using le assms(2) by linarith+
  then have "int (buf + ret_offset ts r) < 256 ^ sizeof_ptr P"
    by (metis of_nat_less_iff of_nat_numeral of_nat_power)
  then have "uwrap (sizeof_ptr P) (int (buf + ret_offset ts r)) = int (buf + ret_offset ts r)"
    by (simp add: uwrap_id in_urange_def)
  then show "slot_address P buf (roffset spec) = buf + ret_offset ts r"
    unfolding slot_address_def s by (metis nat_int of_nat_add)
  show "(buf + ret_offset ts r + radjustment spec) mod addr_limit P = buf + ret_offset ts r + radjustment spec"
    using lt(2) by (rule mod_less)
qed

lemma ffi_call_result:
  assumes C: "call_ready P F T spec ats ts ra r" and ffi: "ffi_calls P F T sem ffi_call"
    and wb: "well_behaved released sem fn bss (result_size r)" "lock_held w = (\<not> released)" and bss: "length bss = length ts"
    and c: "cif spec = Some c" and s: "sem fn bss w = (w', bs)"
    and m: "mapped (cmem w) buf (buffer_size P F ts r)"
    and l: "\<forall>i < length ts. load_u P (cmem w) (arr + i * sizeof_ptr P) (sizeof_ptr P) = Inr (int (ps i)) \<and>
       load_bytes (cmem w) (ps i) (ft_size (ts ! i)) = Some (bss ! i)"
  shows "\<exists>m2. ffi_call c fn (buf + ret_offset ts r) arr w = (w'\<lparr>cmem := m2\<rparr>, Inr ()) \<and>
    load_bytes m2 (buf + ret_offset ts r + radjustment spec) (result_size r) = Some bs \<and> lock_held w' = lock_held w"
proof -
  have cf: "cif_rtype c = ra" "cif_arg_types c = ats"
    "map T ats = map Some ts" "T ra = Some r" "radjustment spec = ffi_return_type_adjustment P F r"
    using C c by (auto simp: call_ready_def)
  note le = ready_sizes [OF C]
  have wb': "length bs = result_size r" "lock_held w' = lock_held w"
    "\<And>a k. mapped (cmem w) a k \<Longrightarrow> mapped (cmem w') a k"
    using wb s by (auto simp: well_behaved_def dest!: spec [of _ w])
  have wl: "length (widen P F r bs) \<le> sizeof_ffi_arg F \<or> length (widen P F r bs) \<le> ft_size r"
    using wb'(1) result_size_le [of r] by (simp add: widen_def)
  have "mapped (cmem w') (buf + ret_offset ts r) (length (widen P F r bs))"
    by (rule mapped_sub [OF wb'(3) [OF m]]) (use wl le in auto)
  then obtain m2 where m2: "store_bytes (cmem w') (buf + ret_offset ts r) (widen P F r bs) = Some m2"
    using store_bytes_Some_iff by blast
  have "ffi_call c fn (buf + ret_offset ts r) arr w = (case sem fn bss w of (w', bs) \<Rightarrow>
      on_mem (\<lambda>m. need Memory_fault (store_bytes m (buf + ret_offset ts r) (widen P F r bs))) w')"
    using l cf bss
    by (intro ffi [unfolded ffi_calls_def, rule_format, where ts = ts and ps = ps]) simp
  then have "ffi_call c fn (buf + ret_offset ts r) arr w = (w'\<lparr>cmem := m2\<rparr>, Inr ())"
    by (simp add: s on_mem_def m2)
  moreover have "load_bytes m2 (buf + ret_offset ts r + radjustment spec) (result_size r) = Some bs"
  proof (cases "widened F r")
    case True
    then have n: "length bs = ft_size r" using wb'(1) by (simp add: widened_result_size)
    then show ?thesis
      using load_bytes_sub [OF load_store_same [OF m2 refl], of "radjustment spec" "ft_size r"]
        widen_read [OF n, of P F] cf(5) True
      by (auto simp: adjustment_eq widen_def widened_result_size) (auto simp: widened_def)
  next
    case False
    then show ?thesis using load_store_same [OF m2 refl] wb'(1) cf(5) by (simp add: adjustment_eq widen_def)
  qed
  ultimately show ?thesis using wb'(2) by blast
qed

lemma call_with_writer:
  assumes C: "call_ready P F T spec ats ts ra r" and ffi: "ffi_calls P F T sem ffi_call"
    and wb: "\<forall>bss. B bss \<longrightarrow> well_behaved (runtime_lock (spec_context spec)) sem fn bss (result_size r)"
    and W: "writes_slots P F R ts r xs B writer"
    and w: "lock_held w" "stack_ptr w < addr_limit P"
    and st: "stack_limit R + buffer_size P F ts r + length ts * sizeof_ptr P + 32 \<le> stack_ptr w"
    and f: "CTYPES_ADDR_OF_FATPTR P function = Inr fn" "String_val fnname = Inr name"
  shows "\<exists>bss w1 w2 slot. B bss \<and>
    lock_held w1 = (\<not> runtime_lock (spec_context spec)) \<and> (check_errno (spec_context spec) \<longrightarrow> errno w1 = 0) \<and>
    (\<forall>x. x < stack_limit R \<or> stack_ptr w \<le> x \<longrightarrow> cmem w1 x = cmem w x) \<and>
    (case sem fn bss w1 of (w1', bs) \<Rightarrow>
       lock_held w2 \<and> slot < addr_limit P \<and> load_bytes (cmem w2) slot (result_size r) = Some bs \<and>
       ctypes_call P F R ffi_call T fnname function spec writer rvreader w =
         (if check_errno (spec_context spec) \<and> errno w1' \<noteq> 0
          then (w2\<lparr>stack_ptr := stack_ptr w\<rparr>, Inl (Unix_error (errno w1') (takeWhile (\<lambda>b. b \<noteq> 0) name)))
          else case rvreader (CTYPES_FROM_PTR P slot) w2 of (w3, v) \<Rightarrow> (w3\<lparr>stack_ptr := stack_ptr w\<rparr>, v)))"
proof -
  let ?ctx = "spec_context spec" and ?A = "array_offset F ts r" and ?B = "buffer_size P F ts r"
  obtain m buf refs ps bss where bs: "B bss" "references_ok P R ts xs bss" and p: "prepare_call P F R T spec writer w =
      (w\<lparr>cmem := m, stack_ptr := refs\<rparr>, Inr (buf, buf + ?A))"
    "buf + ?B \<le> stack_ptr w" "mapped m buf ?B"
    "\<forall>x. x < stack_limit R \<or> stack_ptr w \<le> x \<longrightarrow> m x = cmem w x"
    "\<forall>i < length ts. load_u P m (buf + ?A + i * sizeof_ptr P) (sizeof_ptr P) = Inr (int (ps i)) \<and>
       load_bytes m (ps i) (ft_size (ts ! i)) = Some (bss ! i)"
    using prepare_call_ok [OF C W w st] by blast
  have bssl: "length bss = length ts" using bs(2) by (simp add: references_ok_def)
  note wb' = wb [rule_format, OF bs(1)]
  obtain c where c: "state spec = CALLSPEC" "cif spec = Some c" using C by (auto simp: call_ready_def)
  have lim: "buf + ?B < addr_limit P" using p(2) w(2) by linarith
  note slot = slot_address_eq [OF C lim]
  define rv where "rv = buf + ret_offset ts r"
  define wp where "wp = w\<lparr>cmem := m, stack_ptr := refs\<rparr>"
  define w1 where "w1 = wp\<lparr>lock_held := \<not> runtime_lock ?ctx,
      errno := if check_errno ?ctx then 0 else if runtime_lock ?ctx then release_errno R (errno wp) else errno wp\<rparr>"
  obtain w1' bs where s: "sem fn bss w1 = (w1', bs)" by (cases "sem fn bss w1")
  have cm: "cmem w1 = m" "lock_held w1 = (\<not> runtime_lock ?ctx)" by (simp_all add: w1_def wp_def)
  obtain m2 where call: "ffi_call c fn rv (buf + ?A) w1 = (w1'\<lparr>cmem := m2\<rparr>, Inr ())"
    and rd: "load_bytes m2 (rv + radjustment spec) (result_size r) = Some bs" and lk: "lock_held w1' = lock_held w1"
    using ffi_call_result [OF C ffi wb' cm(2) bssl c(2) s _ p(5) [folded cm(1)]] p(3) cm(1)
    unfolding rv_def by blast
  define w2 where "w2 = w1'\<lparr>cmem := m2\<rparr>"
  define w3 where "w3 = w2\<lparr>lock_held := True, errno := if runtime_lock ?ctx then acquire_errno R (errno w2) else errno w2\<rparr>"
  have perf: "perform_call R ffi_call ?ctx name c fn rv (buf + ?A) wp = (w3,
      if check_errno ?ctx \<and> errno w1' \<noteq> 0 then Inl (Unix_error (errno w1') (takeWhile (\<lambda>b. b \<noteq> 0) name)) else Inr ())"
    using perform_call_ok [of wp ffi_call c fn rv "buf + ?A" ?ctx R w2 name] call w(1) lk
    by (simp add: w1_def w2_def w3_def wp_def)
  have "ctypes_call P F R ffi_call T fnname function spec writer rvreader w =
      (if check_errno ?ctx \<and> errno w1' \<noteq> 0
       then (w3\<lparr>stack_ptr := stack_ptr w\<rparr>, Inl (Unix_error (errno w1') (takeWhile (\<lambda>b. b \<noteq> 0) name)))
       else case rvreader (CTYPES_FROM_PTR P (rv + radjustment spec)) w3 of (w', v) \<Rightarrow> (w'\<lparr>stack_ptr := stack_ptr w\<rparr>, v))"
    using p(1) c(1,2) f slot perf
    by (simp add: ctypes_call_def in_frame_def wp_def [symmetric] rv_def [symmetric] Let_def caml_callback_def)
      (simp add: w3_def)
  moreover have "lock_held w3" "cmem w3 = m2" by (simp_all add: w3_def w2_def)
  moreover have "rv + radjustment spec < addr_limit P"
    using ready_sizes(3-5) [OF C] lim by (simp add: rv_def)
  ultimately show ?thesis
    using rd p(4) cm s bs(1)
    by (intro exI [of _ bss] exI [of _ w1] exI [of _ w3] exI [of _ "rv + radjustment spec"]) (simp add: w1_def)
qed

text \<open>
  C4: a call end to end.  For a finished specification and any argument bytes of the sizes of its
  types, OCaml's writers store the arguments, libffi hands exactly these bytes to the C
  function, and OCaml reads back exactly the bytes the function returned, on either byte
  order and although narrow integers come back widened, and none for \<open>void\<close>; memory outside the stack space
  below the caller is not touched before the function runs.  The function runs without the
  runtime lock exactly when the specification says so and with \<open>errno\<close> cleared when it is
  checked; the lock is held again afterwards, and \<open>Unix_error\<close> is raised exactly when the
  function left a nonzero \<open>errno\<close> that is checked, with the name up to its first NUL.
\<close>

theorem call_passes_and_returns:
  assumes C: "call_ready P F T spec ats ts ra r" and ffi: "ffi_calls P F T sem ffi_call"
    and wb: "well_behaved (runtime_lock (spec_context spec)) sem fn bss (result_size r)" and bss: "map length bss = map ft_size ts"
    and w: "lock_held w" "stack_ptr w < addr_limit P"
    and st: "stack_limit R + buffer_size P F ts r + length ts * sizeof_ptr P + 32 \<le> stack_ptr w"
    and f: "CTYPES_ADDR_OF_FATPTR P function = Inr fn" "String_val fnname = Inr name"
  shows "\<exists>w1 w2 slot.
    lock_held w1 = (\<not> runtime_lock (spec_context spec)) \<and> (check_errno (spec_context spec) \<longrightarrow> errno w1 = 0) \<and>
    (\<forall>x. x < stack_limit R \<or> stack_ptr w \<le> x \<longrightarrow> cmem w1 x = cmem w x) \<and>
    (case sem fn bss w1 of (w1', bs) \<Rightarrow>
       lock_held w2 \<and> slot < addr_limit P \<and> load_bytes (cmem w2) slot (result_size r) = Some bs \<and>
       ctypes_call P F R ffi_call T fnname function spec (ocaml_writer P (layout 0 ts) bss) rvreader w =
         (if check_errno (spec_context spec) \<and> errno w1' \<noteq> 0
          then (w2\<lparr>stack_ptr := stack_ptr w\<rparr>, Inl (Unix_error (errno w1') (takeWhile (\<lambda>b. b \<noteq> 0) name)))
          else case rvreader (CTYPES_FROM_PTR P slot) w2 of (w3, v) \<Rightarrow> (w3\<lparr>stack_ptr := stack_ptr w\<rparr>, v)))"
proof -
  have "\<forall>b. b = bss \<longrightarrow> well_behaved (runtime_lock (spec_context spec)) sem fn b (result_size r)" using wb by simp
  from call_with_writer [OF C ffi this ocaml_writer_writes [OF C bss] w st f, of rvreader]
  show ?thesis by (elim exE conjE) (hypsubst, intro exI conjI, assumption+)
qed

section \<open>A call on lp64\<close>

text \<open>The contract of \<open>ffi_call\<close> read as a program.\<close>

definition reference_ffi_call :: "platform \<Rightarrow> libffi \<Rightarrow> ffi_types \<Rightarrow> c_functions \<Rightarrow> ffi_caller" where
  "reference_ffi_call P F T sem c fn rv arr w =
     (case (those (map T (cif_arg_types c)), T (cif_rtype c)) of
        (Some ts, Some r) \<Rightarrow>
          (case those (map (\<lambda>i. case load_u P (cmem w) (arr + i * sizeof_ptr P) (sizeof_ptr P) of
                       Inl e \<Rightarrow> None
                     | Inr p \<Rightarrow> load_bytes (cmem w) (nat p) (ft_size (ts ! i))) [0..<length ts]) of
             None \<Rightarrow> (w, Inl Memory_fault)
           | Some bss \<Rightarrow>
               (case sem fn bss w of (w', bs) \<Rightarrow>
                  on_mem (\<lambda>m. need Memory_fault (store_bytes m rv (widen P F r bs))) w'))
      | _ \<Rightarrow> (w, Inl Memory_fault))"

lemma those_map_Some: "those (map Some xs) = Some xs"
  by (induction xs) simp_all

lemma reference_ffi_call_ok: "ffi_calls P F T sem (reference_ffi_call P F T sem)"
proof -
  have *: "those (map (\<lambda>i. case load_u P (cmem w) (arr + i * sizeof_ptr P) (sizeof_ptr P) of
        Inl e \<Rightarrow> None | Inr p \<Rightarrow> load_bytes (cmem w) (nat p) (ft_size (ts ! i))) [0..<length ts]) = Some bss"
    if "length bss = length ts" "\<forall>i < length ts.
      load_u P (cmem w) (arr + i * sizeof_ptr P) (sizeof_ptr P) = Inr (int (ps i)) \<and>
      load_bytes (cmem w) (ps i) (ft_size (ts ! i)) = Some (bss ! i)"
    for ts :: "ffi_type list" and bss :: "byte list list" and ps :: "nat \<Rightarrow> nat" and w :: c_world and arr
  proof -
    have "map (\<lambda>i. case load_u P (cmem w) (arr + i * sizeof_ptr P) (sizeof_ptr P) of
        Inl e \<Rightarrow> None | Inr p \<Rightarrow> load_bytes (cmem w) (nat p) (ft_size (ts ! i))) [0..<length ts] = map Some bss"
      using that by (intro nth_equalityI) simp_all
    then show ?thesis by (simp add: those_map_Some)
  qed
  show ?thesis
    unfolding ffi_calls_def
  proof (intro allI impI, elim conjE)
    fix c :: ffi_cif and fn rv arr bss ps ts r and w :: c_world
    assume a: "map T (cif_arg_types c) = map Some ts" "T (cif_rtype c) = Some r" "length bss = length ts"
      "\<forall>i < length ts. load_u P (cmem w) (arr + i * sizeof_ptr P) (sizeof_ptr P) = Inr (int (ps i)) \<and>
         load_bytes (cmem w) (ps i) (ft_size (ts ! i)) = Some (bss ! i)"
    show "reference_ffi_call P F T sem c fn rv arr w = (case sem fn bss w of (w', bs) \<Rightarrow>
             on_mem (\<lambda>m. need Memory_fault (store_bytes m rv (widen P F r bs))) w')"
      using * [OF a(3,4)] by (simp add: reference_ffi_call_def a(1,2) those_map_Some)
  qed
qed

text \<open>A C function \<open>int f(char, int, short, double)\<close> that returns its second argument.\<close>

definition ex_second :: c_functions where
  "ex_second fn bss w = (w, bss ! 1)"

definition ex_runtime :: ocaml_runtime where
  "ex_runtime = \<lparr>string_address = (\<lambda>v. 8192), stack_limit = 1024, stack_junk = (\<lambda>x. 170),
     release_errno = (\<lambda>e. 11), acquire_errno = (\<lambda>e. 12)\<rparr>"

definition ex_world :: c_world where
  "ex_world = \<lparr>cmem = Map.empty, errno = 5, lock_held = True, stack_ptr = 65536\<rparr>"

definition ex_bytes :: "byte list list" where
  "ex_bytes = [[7], [255, 255, 255, 255], [2, 0], replicate 8 0]"

lemma ex_ready:
  "\<exists>spec. call_ready lp64 (example_libffi lp64) (static_types (example_libffi lp64)) spec ex_addrs ex_types
      (ffi_type_addr (example_libffi lp64) Ft_sint) (ffi_type_desc (example_libffi lp64) Ft_sint) \<and>
    buffer_size lp64 (example_libffi lp64) ex_types (ffi_type_desc (example_libffi lp64) Ft_sint) = 72 \<and>
    spec_context spec = spec_context ex_spec"
proof -
  let ?F = "example_libffi lp64" and ?T = "static_types (example_libffi lp64)"
  let ?r = "ffi_type_desc ?F Ft_sint" and ?ra = "ffi_type_addr ?F Ft_sint"
  have "fits lp64 (layout_end 0 ([] @ ex_types))" by (simp add: ex_layout fits_lp64)
  from add_arguments_ok [OF ex_spec_builds platform_ok_lp64 ex_types_table ex_types_ok ex_addrs_limit this]
  obtain spec where s: "builds ?T spec ex_addrs ex_types" "spec_context spec = spec_context ex_spec" by auto
  have p: "pointer_alignment ?F = 8" "pointer_size ?F = 8" "sizeof_ffi_arg ?F = 8"
    by (simp_all add: pointer_alignment_def pointer_size_def example_libffi_def)
  have r: "ft_alignment ?r = 4" "ft_size ?r = 4" by (simp_all add: example_libffi_def)
  have z: "buffer_size lp64 ?F ex_types ?r = 72"
    by (simp add: ret_offset_def scratch_size_def array_offset_def buffer_size_def ex_layout p r align_up_def)
      (simp add: ex_types_def ex_names_def)
  have T: "?T ?ra = Some ?r" by (rule example_lp64.static_lookup)
  have "set (map ?T ex_addrs) = Some ` set ex_types" by (simp add: ex_types_table)
  then have all: "T \<noteq> None" if "T \<in> ?T ` set ex_addrs" for T using that by auto
  have prep: "ffi_prep_cif ?F ?T 2 (length ex_addrs) ?ra ex_addrs = (?T, FFI_OK)"
    using T all by (force simp: example_libffi_def example_prep_def)
  have a: "?ra < addr_limit lp64" using example_lp64.addr by blast
  have i: "Int_val lp64 (Val_int lp64 2) = Inr 2" by (simp add: Int_val_def Val_long_def swrap_def)
  have "0 < ft_alignment ?r" "0 < pointer_alignment ?F" "sizeof_ffi_arg ?F \<le> pointer_size ?F"
    "fits lp64 (buffer_size lp64 ?F ex_types ?r)"
    by (simp_all add: p r z fits_lp64)
  from prep_ready [OF s(1) platform_ok_lp64 T this(1) a this(2-4) i prep ex_types_table T]
  show ?thesis using s(2) z by auto
qed

theorem call_passes_and_returns_witness:
  "\<exists>spec. snd (ctypes_call lp64 (example_libffi lp64) ex_runtime
      (reference_ffi_call lp64 (example_libffi lp64) (static_types (example_libffi lp64)) ex_second)
      (static_types (example_libffi lp64)) (String_block [102]) (fatptr lp64 4096) spec
      (ocaml_writer lp64 (layout 0 ex_types) ex_bytes)
      (\<lambda>v w. (w, bindR (CTYPES_TO_PTR lp64 v) (read_prim lp64 (boxed_integers lp64) Ctypes_Int (cmem w)))) ex_world) =
    Inr (Val_int lp64 (- 1))"
proof -
  let ?F = "example_libffi lp64" and ?T = "static_types (example_libffi lp64)"
  let ?r = "ffi_type_desc ?F Ft_sint" and ?ra = "ffi_type_addr ?F Ft_sint"
  let ?rd = "\<lambda>v w. (w, bindR (CTYPES_TO_PTR lp64 v) (read_prim lp64 (boxed_integers lp64) Ctypes_Int (cmem w)))"
  obtain spec where s: "call_ready lp64 ?F ?T spec ex_addrs ex_types ?ra ?r" "buffer_size lp64 ?F ex_types ?r = 72"
    "spec_context spec = spec_context ex_spec"
    using ex_ready by blast
  have ctx: "check_errno (spec_context spec)" "\<not> runtime_lock (spec_context spec)" by (simp_all add: s(3))
  have b: "map length ex_bytes = map ft_size ex_types"
    by (simp add: ex_bytes_def ex_types_def ex_names_def example_libffi_def)
  have wb: "well_behaved (runtime_lock (spec_context spec)) ex_second 4096 ex_bytes (result_size ?r)"
    by (simp add: result_size_def int_kind_def well_behaved_def ex_second_def ex_bytes_def example_libffi_def)
  have l: "lock_held ex_world" "stack_ptr ex_world < addr_limit lp64"
    "stack_limit ex_runtime + buffer_size lp64 ?F ex_types ?r + length ex_types * sizeof_ptr lp64 + 32 \<le> stack_ptr ex_world"
    unfolding s(2) by (simp_all add: ex_world_def ex_runtime_def ex_types_def ex_names_def)
  have fn: "CTYPES_ADDR_OF_FATPTR lp64 (fatptr lp64 4096) = Inr 4096" by simp
  have e: "ex_second fn ex_bytes w = (w, [255, 255, 255, 255])" for fn w by (simp add: ex_second_def ex_bytes_def)
  have r4: "result_size ?r = 4" by (simp add: result_size_def example_libffi_def int_kind_def)
  have ls: "load_s lp64 m a 4 = Inr (- 1)" if "load_bytes m a 4 = Some [255, 255, 255, 255]" for m a
    using that by (simp add: load_s_def load_u_def dec_def swrap_def)
  from call_passes_and_returns [OF s(1) reference_ffi_call_ok wb b l fn String_val.simps(1), of "[102]" ?rd]
  show ?thesis
    using ctx by (intro exI [of _ spec]) (auto simp: e r4 ls)
qed

section \<open>Arguments by reference\<close>

text \<open>
  C13: arguments passed by reference.  For every entry of the array that OCaml filled with a string and an
  offset, the argument's pointer is redirected to a slot that holds the address of the
  string's bytes plus the offset, and the pointers of the other arguments stay what they were;
  an entry that is a block of another kind stops the program at the assertion.
\<close>

theorem string_arguments_by_reference:
  assumes "\<forall>x \<in> set xs. case x of None \<Rightarrow> True | Some (v, off) \<Rightarrow> (\<exists>s. v = String_block s) \<and> oint_ok P off"
    and "mapped (cmem w) arr (length xs * sizeof_ptr P)" "mapped (cmem w) refs (length xs * sizeof_ptr P)"
    and "refs + length xs * sizeof_ptr P \<le> arr" "arr < addr_limit P" "0 < sizeof_ptr P"
    and "Is_block v" "Tag_val v \<noteq> Inr String_tag"
  shows "(\<exists>m. pass_references P R refs arr 0 (map (reference_field P) xs) w = (w\<lparr>cmem := m\<rparr>, Inr ()) \<and>
      (\<forall>a < refs. m a = cmem w a) \<and> list_all (\<lambda>j. redirected P R refs arr (cmem w) m j (xs ! j)) [0..<length xs]) \<and>
    snd (pass_references P R refs arr i (reference_field P (Some (v, off)) # vs) w) = Inl Assert_failure"
proof
  show "\<exists>m. pass_references P R refs arr 0 (map (reference_field P) xs) w = (w\<lparr>cmem := m\<rparr>, Inr ()) \<and>
      (\<forall>a < refs. m a = cmem w a) \<and> list_all (\<lambda>j. redirected P R refs arr (cmem w) m j (xs ! j)) [0..<length xs]"
    using pass_references_ok [of xs P w arr 0 refs "length xs" R] assms(1-6) by (auto simp: list_all_iff)
  show "snd (pass_references P R refs arr i (reference_field P (Some (v, off)) # vs) w) = Inl Assert_failure"
    using assms(8) by (simp add: Val_unit_def)
qed

definition ex_stack :: c_world where
  "ex_stack = ex_world\<lparr>cmem := (\<lambda>x. if x < 1024 then Some 0 else None)\<rparr>"

theorem string_arguments_by_reference_witness:
  "(\<exists>m. pass_references lp64 ex_runtime 96 128 0
       (map (reference_field lp64) [None, Some (String_block [104, 105], 1)]) ex_stack = (ex_stack\<lparr>cmem := m\<rparr>, Inr ()) \<and>
     load_u lp64 m 136 8 = Inr 104 \<and> load_u lp64 m 104 8 = Inr 8193) \<and>
   snd (pass_references lp64 ex_runtime 96 128 0
     [reference_field lp64 (Some (Double_array_block [0], 8))] ex_stack) = Inl Assert_failure"
proof -
  let ?xs = "[None, Some (String_block [104, 105], 1)]"
  have 1: "\<forall>x \<in> set ?xs. case x of None \<Rightarrow> True | Some (v, off) \<Rightarrow> (\<exists>s. v = String_block s) \<and> oint_ok lp64 off"
    by (simp add: oint_ok_bit)
  have 2: "mapped (cmem ex_stack) 128 (length ?xs * sizeof_ptr lp64)" "mapped (cmem ex_stack) 96 (length ?xs * sizeof_ptr lp64)"
    by (simp_all add: ex_stack_def mapped_iff)
  have 3: "96 + length ?xs * sizeof_ptr lp64 \<le> 128" "128 < addr_limit lp64" "0 < sizeof_ptr lp64"
    "Is_block (Double_array_block [0])" "Tag_val (Double_array_block [0]) \<noteq> Inr String_tag"
    by (simp_all add: String_tag_def Double_array_tag_def)
  show ?thesis
    using string_arguments_by_reference [OF 1 2 3, of ex_runtime 0 8 "[]"]
    by (auto simp: redirected_def ex_runtime_def uwrap_def)
qed

end
