(* ===== verification/Foreign_Function.thy ===== *)
theory Foreign_Function
  imports Ffi_Call_Correct
begin

text \<open>
  The OCaml side of a call, \<open>src/ctypes-foreign/ctypes_ffi.ml\<close> with the readers and writers of
  \<open>src/ctypes/ctypes_memory.ml\<close>, for functions on \<open>void\<close>, primitive types, pointers, function pointers and OCaml
  strings: the specification is built from the function's type, the arguments are collected one by one, and the call reads and
  writes through the stubs of the other theories.  The theorem says what the composition is
  for: the C function finds objects that read as the OCaml arguments, or pointers to the bytes of the strings, and OCaml gets the value
  that the returned bytes represent.  Structs and views are not modelled here.
\<close>

section \<open>Types and fat pointers\<close>

datatype ocaml_type = String | Bytes | FloatArray

datatype c_type = Void | Primitive ctypes_primitive | Pointer | Funptr | OCaml ocaml_type

datatype c_fn = Returns c_type | Function c_type c_fn

primrec fn_args :: "c_fn \<Rightarrow> c_type list" where
  "fn_args (Returns t) = []"
| "fn_args (Function p f) = p # fn_args f"

primrec fn_ret :: "c_fn \<Rightarrow> c_type" where
  "fn_ret (Returns t) = t"
| "fn_ret (Function p f) = fn_ret f"

primrec ocaml_value :: "c_type \<Rightarrow> bool" where
  "ocaml_value Void = False"
| "ocaml_value (Primitive p) = False"
| "ocaml_value Pointer = False"
| "ocaml_value Funptr = False"
| "ocaml_value (OCaml t) = True"

primrec has_ocaml_argument :: "c_fn \<Rightarrow> bool" where
  "has_ocaml_argument (Returns t) = False"
| "has_ocaml_argument (Function t f) = (if ocaml_value t then True else has_ocaml_argument f)"

definition Fat_make :: "value \<Rightarrow> value" where
  "Fat_make raw = Block 0 [Val_unit, raw, Val_unit]"

definition Fat_add_bytes :: "platform \<Rightarrow> value \<Rightarrow> value \<Rightarrow> value result" where
  "Fat_add_bytes P p nbytes =
     bindR (Field p 0) (\<lambda>reftyp.
     bindR (bindR (Field p 1) Nativeint_val) (\<lambda>raw.
     bindR (Field p 2) (\<lambda>managed.
     bindR (Long_val nbytes) (\<lambda>n.
       Inr (Block 0 [reftyp, caml_copy_nativeint P (raw + n), managed])))))"

text \<open>
  \<open>CPointer\<close> and \<open>OCamlRef\<close> are the constructors of one type, \<open>Static_funptr\<close> is the only one of its
  type.  An \<open>OCamlRef\<close> is a displacement in elements, the OCaml object and the type.
\<close>

definition CPointer :: "value \<Rightarrow> value" where
  "CPointer p = Block 0 [p]"

definition Static_funptr :: "value \<Rightarrow> value" where
  "Static_funptr p = Block 0 [p]"

primrec ocaml_type_index :: "ocaml_type \<Rightarrow> int" where
  "ocaml_type_index String = 0" | "ocaml_type_index Bytes = 1" | "ocaml_type_index FloatArray = 2"

definition OCamlRef :: "platform \<Rightarrow> int \<Rightarrow> value \<Rightarrow> ocaml_type \<Rightarrow> value" where
  "OCamlRef P disp obj t = Block 1 [Val_long P disp, obj, Val_int P (ocaml_type_index t)]"

text \<open>Reading an OCaml object back from C is \<open>assert false\<close>.\<close>

primrec build :: "platform \<Rightarrow> integers_lib \<Rightarrow> c_type \<Rightarrow> value \<Rightarrow> memory \<Rightarrow> value result" where
  "build P L Void buf m = Inr Val_unit"
| "build P L (Primitive p) buf m = ctypes_read P L (prim_value P p) buf m"
| "build P L Pointer buf m = bindR (ctypes_read_pointer P buf m) (\<lambda>raw. Inr (CPointer (Fat_make raw)))"
| "build P L Funptr buf m = bindR (ctypes_read_pointer P buf m) (\<lambda>raw. Inr (Static_funptr (Fat_make raw)))"
| "build P L (OCaml t) buf m = Inl Assert_failure"

primrec write_value :: "platform \<Rightarrow> integers_lib \<Rightarrow> c_type \<Rightarrow> value \<Rightarrow> value \<Rightarrow> memory \<Rightarrow> memory result" where
  "write_value P L Void v dst m = Inr m"
| "write_value P L (Primitive p) v dst m = map_sum id fst (ctypes_write P L (prim_value P p) v dst m)"
| "write_value P L Pointer v dst m =
     bindR (Field v 0) (\<lambda>p. map_sum id fst (ctypes_write_pointer P p dst m))"
| "write_value P L Funptr v dst m =
     bindR (Field v 0) (\<lambda>p. map_sum id fst (ctypes_write_pointer P p dst m))"
| "write_value P L (OCaml t) v dst m = Inl IncompleteType"

section \<open>Building a specification\<close>

primrec arg_type :: "platform \<Rightarrow> libffi \<Rightarrow> c_type \<Rightarrow> value result" where
  "arg_type P F Void = Inr (ctypes_void_ffitype P F Val_unit)"
| "arg_type P F (Primitive p) =
     bindR (ctypes_primitive_ffitype P F (prim_value P p)) (\<lambda>ffitype.
       if ffitype = CTYPES_FROM_PTR P 0 then Inl Unsupported else Inr ffitype)"
| "arg_type P F Pointer = Inr (ctypes_pointer_ffitype P F Val_unit)"
| "arg_type P F Funptr = Inr (ctypes_pointer_ffitype P F Val_unit)"
| "arg_type P F (OCaml t) = Inr (ctypes_pointer_ffitype P F Val_unit)"

text \<open>C sees nothing of an argument of type \<open>void\<close>.\<close>

definition add_argument ::
    "platform \<Rightarrow> libffi \<Rightarrow> ffi_types \<Rightarrow> callspec \<Rightarrow> c_type \<Rightarrow> (callspec \<times> value) result" where
  "add_argument P F T spec ty =
     (case ty of Void \<Rightarrow> Inr (spec, Val_int P 0)
      | _ \<Rightarrow> bindR (arg_type P F ty) (ctypes_add_argument P T spec))"

text \<open>A specification whose preparation raises is dropped with the exception.\<close>

definition prep_callspec ::
    "platform \<Rightarrow> libffi \<Rightarrow> ffi_types \<Rightarrow> callspec \<Rightarrow> value \<Rightarrow> c_type \<Rightarrow> (callspec \<times> ffi_types) result" where
  "prep_callspec P F T spec abi ty =
     bindR (arg_type P F ty) (\<lambda>ctype.
     bindR (ctypes_prep_callspec P F T spec abi ctype) (\<lambda>(spec', T', r).
     bindR r (\<lambda>_. Inr (spec', T'))))"

text \<open>The closures of \<open>Call\<close> and \<open>WriteArg\<close> are kept as the values they are closed over.\<close>

datatype ccallspec = Call c_type | WriteArg c_type "value" nat ccallspec

primrec build_ccallspec ::
    "platform \<Rightarrow> libffi \<Rightarrow> ffi_types \<Rightarrow> value \<Rightarrow> nat \<Rightarrow> c_fn \<Rightarrow> callspec \<Rightarrow> (callspec \<times> ffi_types \<times> ccallspec) result" where
  "build_ccallspec P F T abi idx (Returns t) spec =
     bindR (prep_callspec P F T spec abi t) (\<lambda>(spec', T'). Inr (spec', T', Call t))"
| "build_ccallspec P F T abi idx (Function p f) spec =
     bindR (add_argument P F T spec p) (\<lambda>(s1, offset).
     bindR (build_ccallspec P F T abi (idx + 1) f s1) (\<lambda>(s2, T', rest).
       Inr (s2, T', WriteArg p offset idx rest)))"

definition build_function ::
    "platform \<Rightarrow> libffi \<Rightarrow> ffi_types \<Rightarrow> value \<Rightarrow> bool \<Rightarrow> bool \<Rightarrow> c_fn \<Rightarrow> (callspec \<times> ffi_types \<times> ccallspec) result" where
  "build_function P F T abi release_runtime_lock check fn =
     bindR (ctypes_allocate_callspec P (Val_bool P (of_bool check)) (Val_bool P (of_bool release_runtime_lock))
              (Val_bool P 0)) (build_ccallspec P F T abi 0 fn)"

definition function_of_pointer ::
    "platform \<Rightarrow> libffi \<Rightarrow> ffi_types \<Rightarrow> value \<Rightarrow> bool \<Rightarrow> bool \<Rightarrow> c_fn \<Rightarrow> (callspec \<times> ffi_types \<times> ccallspec) result" where
  "function_of_pointer P F T abi release_runtime_lock check fn =
     (if release_runtime_lock \<and> has_ocaml_argument fn then Inl Unsupported
      else build_function P F T abi release_runtime_lock check fn)"

section \<open>Calling\<close>

text \<open>An argument to be written: its type, its offset, its index and its value.\<close>

type_synonym writer = "c_type \<times> value \<times> nat \<times> value"

primrec elt_size :: "platform \<Rightarrow> ocaml_type \<Rightarrow> int" where
  "elt_size P String = 1" | "elt_size P Bytes = 1" | "elt_size P FloatArray = int (prim_bytes P Ctypes_Double)"

text \<open>An OCaml object goes into the array \<open>mov\<close> with its displacement in bytes, everything else into the buffer.\<close>

definition write_arg ::
    "platform \<Rightarrow> integers_lib \<Rightarrow> value \<Rightarrow> writer \<Rightarrow> memory \<times> value list \<Rightarrow> (memory \<times> value list) result" where
  "write_arg P L dst x s =
     (case (x, s) of ((ty, offset, idx, v), (m, mov)) \<Rightarrow>
        (case ty of
           OCaml t \<Rightarrow>
             bindR (bindR (Field v 0) Long_val) (\<lambda>disp.
             bindR (Field v 1) (\<lambda>obj.
               if idx < length mov then Inr (m, mov[idx := reference_field P (Some (obj, disp * elt_size P t))])
               else Inl (Invalid_argument ''index out of bounds'')))
         | _ \<Rightarrow>
             bindR (Fat_add_bytes P (Fat_make dst) offset) (\<lambda>p.
             bindR (write_value P L ty v p m) (\<lambda>m'. Inr (m', mov)))))"

primrec run_writers ::
    "platform \<Rightarrow> integers_lib \<Rightarrow> value \<Rightarrow> writer list \<Rightarrow> memory \<times> value list \<Rightarrow> (memory \<times> value list) result" where
  "run_writers P L dst [] s = Inr s"
| "run_writers P L dst (x # xs) s = bindR (write_arg P L dst x s) (run_writers P L dst xs)"

definition argwriter :: "platform \<Rightarrow> integers_lib \<Rightarrow> writer list \<Rightarrow> value \<times> value list \<Rightarrow> value list act" where
  "argwriter P L writers = (\<lambda>(buf, arr) w.
     case run_writers P L buf writers (cmem w, arr) of
       Inl e \<Rightarrow> (w, Inl e)
     | Inr (m, arr') \<Rightarrow> (w\<lparr>cmem := m\<rparr>, Inr arr'))"

definition rvreader :: "platform \<Rightarrow> integers_lib \<Rightarrow> c_type \<Rightarrow> value \<Rightarrow> value act" where
  "rvreader P L t p w = (w, build P L t (Fat_make p) (cmem w))"

text \<open>The curried function that \<open>invoke\<close> returns is applied to the list of its arguments.\<close>

fun invoke ::
    "platform \<Rightarrow> integers_lib \<Rightarrow> libffi \<Rightarrow> ocaml_runtime \<Rightarrow> ffi_caller \<Rightarrow> ffi_types \<Rightarrow> byte list \<Rightarrow>
       ccallspec \<Rightarrow> writer list \<Rightarrow> callspec \<Rightarrow> value \<Rightarrow> value list \<Rightarrow> value act" where
  "invoke P L F R fc T name (Call t) writers callspec addr [] =
     ctypes_call P F R fc T (String_block name) addr callspec (argwriter P L writers) (rvreader P L t)"
| "invoke P L F R fc T name (WriteArg ty offset idx cc) writers callspec addr (v # vs) =
     invoke P L F R fc T name cc ((ty, offset, idx, v) # writers) callspec addr vs"
| "invoke P L F R fc T name cc writers callspec addr vs = lift (Inl Ill_typed)"

section \<open>Values and their bytes\<close>

text \<open>The types libffi can describe, and those of them that are objects in memory.\<close>

primrec describable :: "platform \<Rightarrow> c_type \<Rightarrow> bool" where
  "describable P Void \<longleftrightarrow> True"
| "describable P (Primitive p) \<longleftrightarrow> \<not> no_ffi_type P p"
| "describable P Pointer \<longleftrightarrow> True"
| "describable P Funptr \<longleftrightarrow> True"
| "describable P (OCaml t) \<longleftrightarrow> True"

definition passable :: "platform \<Rightarrow> c_type \<Rightarrow> bool" where
  "passable P t \<longleftrightarrow> describable P t \<and> \<not> ocaml_value t"

primrec type_bytes :: "platform \<Rightarrow> c_type \<Rightarrow> nat" where
  "type_bytes P Void = 0"
| "type_bytes P (Primitive p) = prim_bytes P p"
| "type_bytes P Pointer = sizeof_ptr P"
| "type_bytes P Funptr = sizeof_ptr P"
| "type_bytes P (OCaml t) = sizeof_ptr P"

primrec type_repr :: "platform \<Rightarrow> integers_lib \<Rightarrow> c_type \<Rightarrow> value \<Rightarrow> bool" where
  "type_repr P L Void v \<longleftrightarrow> v = Val_unit"
| "type_repr P L (Primitive p) v \<longleftrightarrow> prim_repr P L p v"
| "type_repr P L Pointer v \<longleftrightarrow> (\<exists>a < addr_limit P. v = CPointer (fatptr P a))"
| "type_repr P L Funptr v \<longleftrightarrow> (\<exists>a < addr_limit P. v = Static_funptr (fatptr P a))"
| "type_repr P L (OCaml t) v \<longleftrightarrow>
     t \<noteq> FloatArray \<and> (\<exists>disp s. v = OCamlRef P disp (String_block s) t \<and> oint_ok P disp)"

text \<open>The value that some bytes represent: what is read from an object that holds them.\<close>

definition bytes_mem :: "byte list \<Rightarrow> memory" where
  "bytes_mem bs x = (if x < length bs then Some (bs ! x) else None)"

definition value_of_bytes :: "platform \<Rightarrow> integers_lib \<Rightarrow> c_type \<Rightarrow> byte list \<Rightarrow> value result" where
  "value_of_bytes P L t bs = build P L t (fatptr P 0) (bytes_mem bs)"

lemma load_bytes_mem [simp]: "load_bytes (bytes_mem bs) 0 (length bs) = Some bs"
  by (rule load_bytesI) (simp_all add: bytes_mem_def)

lemma read_prim_cong:
  assumes "\<not> no_ffi_type P p" "load_bytes m a (prim_bytes P p) = load_bytes m' b (prim_bytes P p)"
  shows "read_prim P L p m a = read_prim P L p m' b"
  using assms by (cases p) (simp_all add: load_u_def load_s_def load_word_def no_ffi_type_def)

lemma Fat_make_ptr [simp]: "Fat_make (CTYPES_FROM_PTR P a) = fatptr P a"
  by (simp add: Fat_make_def fatptr_def)

lemma build_bytes:
  assumes "platform_ok P" "passable P t" "a < addr_limit P" "load_bytes m a (type_bytes P t) = Some bs"
  shows "build P L t (fatptr P a) m = value_of_bytes P L t bs"
proof -
  have l: "load_bytes m a (type_bytes P t) = load_bytes (bytes_mem bs) 0 (type_bytes P t)"
    using assms(4) load_bytes_length [OF assms(4)] load_bytes_mem [of bs] by simp
  have z: "0 < addr_limit P" by simp
  show ?thesis
    using assms(2,3) l z platform_okD [OF assms(1)] read_prim_cong [of P _ m a "bytes_mem bs" 0 L]
    by (cases t) (simp_all add: passable_def value_of_bytes_def ctypes_read_def ctypes_read_pointer_def load_u_def)
qed

text \<open>A write of one of these types stores some bytes, whatever the place.\<close>

definition stores :: "nat \<Rightarrow> (memory \<Rightarrow> nat \<Rightarrow> memory result) \<Rightarrow> bool" where
  "stores n wr \<longleftrightarrow>
     (\<exists>bs. length bs = n \<and> wr = (\<lambda>m a. need Memory_fault (store_bytes m a bs))) \<or> (\<exists>e. wr = (\<lambda>m a. Inl e))"

lemma storesI:
  assumes "\<And>m a. wr m a = bindR E (\<lambda>x. store_int P m a n (f x))"
  shows "stores n wr"
proof -
  have "wr = (\<lambda>m a. bindR E (\<lambda>x. store_int P m a n (f x)))" using assms by (simp add: fun_eq_iff)
  then show ?thesis
    by (cases E) (auto simp: stores_def store_int_def intro: exI [of _ "enc P n _"])
qed

lemma write_prim_stores:
  assumes "\<not> no_ffi_type P p"
  shows "stores (prim_bytes P p) (write_prim P L p v)"
  using assms
  by (cases p) (simp_all only: prim_bytes.simps,
      (rule storesI, simp only: write_prim.simps store_word_def [abs_def])+, simp_all add: no_ffi_type_def)

text \<open>Pointers of both kinds are stored in the same way.\<close>

lemma write_pointer_bytes:
  assumes t: "t = Pointer \<or> t = Funptr" "type_repr P L t v"
  shows "\<exists>bs. length bs = type_bytes P t \<and> value_of_bytes P L t bs = Inr v \<and>
    (\<forall>m a. a < addr_limit P \<longrightarrow> write_value P L t v (fatptr P a) m = need Memory_fault (store_bytes m a bs))"
proof -
  obtain b where b: "b < addr_limit P" "v = Block 0 [fatptr P b]"
    using t by (auto simp: CPointer_def Static_funptr_def)
  let ?bs = "enc P (sizeof_ptr P) (int b)"
  have "int b < 256 ^ sizeof_ptr P" using b(1) by (metis of_nat_less_iff of_nat_numeral of_nat_power)
  then have u: "uwrap (sizeof_ptr P) (int b) = int b" by (simp add: uwrap_id in_urange_def)
  have "load_bytes (bytes_mem ?bs) 0 (sizeof_ptr P) = Some ?bs" using load_bytes_mem [of ?bs] by simp
  then have "value_of_bytes P L t ?bs = Inr v"
    using t(1) b(2) u
    by (auto simp: value_of_bytes_def ctypes_read_pointer_def load_u_def codec CPointer_def Static_funptr_def)
  moreover have "write_value P L t v (fatptr P a) m = need Memory_fault (store_bytes m a ?bs)" if "a < addr_limit P" for m a
    using that t(1) b by (cases "store_bytes m a ?bs") (auto simp: ctypes_write_pointer_def store_int_def)
  ultimately show ?thesis using t(1) by (intro exI [of _ ?bs]) auto
qed

text \<open>The bytes that represent a value: they are stored at any place, and read back as the value.\<close>

lemma write_value_bytes:
  assumes P: "platform_ok P" "LDOUBLE_VALUE_BYTES P \<le> sizeof_ldouble P" "integers_ok L"
    and t: "passable P t" "type_repr P L t v"
  shows "\<exists>bs. length bs = type_bytes P t \<and> value_of_bytes P L t bs = Inr v \<and>
    (\<forall>m a. a < addr_limit P \<longrightarrow> write_value P L t v (fatptr P a) m = need Memory_fault (store_bytes m a bs))"
proof (cases t)
  case (Primitive p)
  let ?n = "prim_bytes P p" and ?m = "bytes_mem (replicate (prim_bytes P p) 0)"
  note D = platform_okD [OF P(1)]
  have p: "\<not> no_ffi_type P p" "prim_repr P L p v" using t Primitive by (simp_all add: passable_def)
  have "mapped ?m 0 ?n" by (simp add: mapped_iff bytes_mem_def)
  with p(2) have "io_ok P L p v ?m 0" by (intro prim_io_ok [OF P])
  then obtain m' where m': "write_prim P L p v ?m 0 = Inr m'" "read_prim P L p m' 0 = Inr v"
    by (auto simp: io_ok_def)
  have "stores ?n (write_prim P L p v)" using p(1) by (rule write_prim_stores)
  with m'(1) obtain bs where bs: "length bs = ?n" "write_prim P L p v = (\<lambda>m a. need Memory_fault (store_bytes m a bs))"
    by (auto simp: stores_def)
  then have "load_bytes m' 0 ?n = Some bs" using m'(1) load_store_same by simp
  moreover have "build P L t (fatptr P 0) m' = Inr v" using m'(2) D Primitive by (simp add: ctypes_read_def)
  ultimately have "value_of_bytes P L t bs = Inr v"
    using build_bytes [OF P(1) t(1), of 0 m' bs L] Primitive by simp
  moreover have "write_value P L t v (fatptr P a) m = need Memory_fault (store_bytes m a bs)" if "a < addr_limit P" for m a
    using that D Primitive bs(2) by (cases "store_bytes m a bs") (simp_all add: ctypes_write_def)
  ultimately show ?thesis using bs(1) Primitive by auto
next
  case Void
  with t(2) show ?thesis by (intro exI [of _ "[]"]) (simp add: value_of_bytes_def)
next
  case (OCaml u)
  with t(1) show ?thesis by (simp add: passable_def)
qed (rule write_pointer_bytes [OF _ t(2)], simp)+

lemma swrap_add_left: "swrap n (swrap n x + y) = swrap n (x + y)"
  by (rule swrap_cong) (metis mod_add_left_eq uwrap_def uwrap_swrap)

lemma Fat_add_fatptr:
  assumes "platform_ok P" "oint_ok P (int k)"
  shows "Fat_add_bytes P (fatptr P a) (Val_long P (int k)) = Inr (fatptr P (a + k))"
  using assms platform_okD [OF assms(1)]
  by (simp add: Fat_add_bytes_def fatptr_def Long_val_Val_long CTYPES_FROM_PTR_def caml_copy_nativeint_def swrap_add_left)

lemma run_writers_append:
  "run_writers P L dst (xs @ ys) s = bindR (run_writers P L dst xs s) (run_writers P L dst ys)"
proof (induction xs arbitrary: s)
  case (Cons x xs)
  then show ?case by (cases "write_arg P L dst x s") simp_all
qed simp

section \<open>Types and descriptors\<close>

lemma from_ptr_eq:
  assumes "a < addr_limit P" "b < addr_limit P"
  shows "CTYPES_FROM_PTR P a = CTYPES_FROM_PTR P b \<longleftrightarrow> a = b"
proof
  assume "CTYPES_FROM_PTR P a = CTYPES_FROM_PTR P b"
  then have "CTYPES_TO_PTR P (CTYPES_FROM_PTR P a) = CTYPES_TO_PTR P (CTYPES_FROM_PTR P b)" by (rule arg_cong)
  then show "a = b" unfolding to_from_ptr [OF assms(1)] to_from_ptr [OF assms(2)] by (rule sum.inject(2) [THEN iffD1])
qed simp

definition ffi_addr :: "platform \<Rightarrow> libffi \<Rightarrow> c_type \<Rightarrow> nat" where
  "ffi_addr P F t =
     (case bindR (arg_type P F t) (CTYPES_TO_PTR P) of Inl e \<Rightarrow> 0 | Inr a \<Rightarrow> a)"

definition ffi_desc :: "platform \<Rightarrow> libffi \<Rightarrow> c_type \<Rightarrow> ffi_type" where
  "ffi_desc P F t = the (static_types F (ffi_addr P F t))"

definition desc_of :: "platform \<Rightarrow> libffi \<Rightarrow> c_type \<Rightarrow> ffi_type \<Rightarrow> bool" where
  "desc_of P F t d \<longleftrightarrow>
     (case t of Primitive p \<Rightarrow> good_desc P p d | Void \<Rightarrow> d = ffi_type_desc F Ft_void | _ \<Rightarrow> d = ffi_type_desc F Ft_pointer)"

lemma arg_type_ok:
  assumes "libffi_types P F" "platform_ok P" "describable P t"
  shows "arg_type P F t = Inr (CTYPES_FROM_PTR P (ffi_addr P F t))" "ffi_addr P F t < addr_limit P"
    "static_types F (ffi_addr P F t) = Some (ffi_desc P F t)" "result_size (ffi_desc P F t) = type_bytes P t"
    "0 < ft_alignment (ffi_desc P F t)"
    "desc_of P F t (ffi_desc P F t)"
    "t \<noteq> Void \<Longrightarrow> ft_size (ffi_desc P F t) = type_bytes P t"
proof -
  define ok where "ok d \<longleftrightarrow> 0 < ft_alignment d \<and> result_size d = type_bytes P t \<and> (t \<noteq> Void \<longrightarrow> ft_size d = type_bytes P t) \<and>
      desc_of P F t d" for d
  note named = libffi_types.addr [OF assms(1)] libffi_types.static_lookup [OF assms(1)] libffi_types.size [OF assms(1)]
    libffi_types.kind [OF assms(1)] libffi_types.align [OF assms(1)]
  have "\<exists>a d. arg_type P F t = Inr (CTYPES_FROM_PTR P a) \<and> a < addr_limit P \<and> static_types F a = Some d \<and> ok d"
  proof (cases t)
    case (Primitive p)
    then obtain a d where a: "ctypes_primitive_ffitype P F (prim_value P p) = Inr (CTYPES_FROM_PTR P a)"
      "0 < a" "a < addr_limit P" "static_types F a = Some d" "good_desc P p d"
      using primitive_ffitype_ok [OF assms(1,2), of p] assms(3) by auto
    have "CTYPES_FROM_PTR P a \<noteq> CTYPES_FROM_PTR P 0" using from_ptr_eq [OF a(3), of 0] a(2) by simp
    moreover have "ft_type d \<noteq> FFI_TYPE_VOID" using a(5) by (auto simp: good_desc_def int_kind_def split: if_splits)
    ultimately have "ok d" "arg_type P F t = Inr (CTYPES_FROM_PTR P a)"
      using a(1,5) Primitive by (simp_all add: good_desc_def desc_of_def ok_def result_size_def)
    then show ?thesis using a(3,4) by blast
  qed (use named in \<open>auto simp: ctypes_pointer_ffitype_def ctypes_void_ffitype_def desc_of_def ok_def result_size_def\<close>)
  then obtain a d where a: "arg_type P F t = Inr (CTYPES_FROM_PTR P a)" "a < addr_limit P" "static_types F a = Some d" "ok d"
    by blast
  then have e: "ffi_addr P F t = a" by (simp add: ffi_addr_def)
  then have "ffi_desc P F t = d" using a(3) by (simp add: ffi_desc_def)
  with a e show "arg_type P F t = Inr (CTYPES_FROM_PTR P (ffi_addr P F t))" "ffi_addr P F t < addr_limit P"
    "static_types F (ffi_addr P F t) = Some (ffi_desc P F t)" "result_size (ffi_desc P F t) = type_bytes P t"
    "0 < ft_alignment (ffi_desc P F t)"
    "desc_of P F t (ffi_desc P F t)"
    "t \<noteq> Void \<Longrightarrow> ft_size (ffi_desc P F t) = type_bytes P t"
    by (simp_all add: ok_def)
qed

section \<open>The specification of a function type\<close>

text \<open>The arguments C sees, and the values given for them.\<close>

definition c_args :: "c_fn \<Rightarrow> c_type list" where
  "c_args f = filter (\<lambda>t. t \<noteq> Void) (fn_args f)"

definition c_values :: "c_fn \<Rightarrow> value list \<Rightarrow> value list" where
  "c_values f vs = map snd (filter (\<lambda>(t, v). t \<noteq> Void) (zip (fn_args f) vs))"

definition fn_types :: "platform \<Rightarrow> libffi \<Rightarrow> c_fn \<Rightarrow> ffi_type list" where
  "fn_types P F f = map (ffi_desc P F) (c_args f)"

definition fn_addrs :: "platform \<Rightarrow> libffi \<Rightarrow> c_fn \<Rightarrow> nat list" where
  "fn_addrs P F f = map (ffi_addr P F) (c_args f)"

definition fn_describable :: "platform \<Rightarrow> c_fn \<Rightarrow> bool" where
  "fn_describable P f \<longleftrightarrow> passable P (fn_ret f) \<and> (\<forall>t \<in> set (fn_args f). describable P t)"

lemma fn_simps [simp]:
  "c_args (Returns t) = []" "c_args (Function p f) = (if p = Void then c_args f else p # c_args f)"
  "c_values (Returns t) vs = []"
  "c_values (Function p f) (v # vs) = (if p = Void then c_values f vs else v # c_values f vs)"
  "fn_types P F (Returns t) = []"
  "fn_types P F (Function p f) = (if p = Void then fn_types P F f else ffi_desc P F p # fn_types P F f)"
  "fn_addrs P F (Returns t) = []"
  "fn_addrs P F (Function p f) = (if p = Void then fn_addrs P F f else ffi_addr P F p # fn_addrs P F f)"
  "fn_describable P (Returns t) \<longleftrightarrow> passable P t"
  "fn_describable P (Function p f) \<longleftrightarrow> describable P p \<and> fn_describable P f"
  by (auto simp: c_args_def c_values_def fn_types_def fn_addrs_def fn_describable_def)

lemma length_c_values [simp]: "length vs = length (fn_args f) \<Longrightarrow> length (c_values f vs) = length (c_args f)"
proof (induction f arbitrary: vs)
  case (Function p f)
  then show ?case by (cases vs) simp_all
qed simp

lemma c_args_describable: "fn_describable P f \<Longrightarrow> t \<in> set (c_args f) \<Longrightarrow> describable P t \<and> t \<noteq> Void"
  by (simp add: c_args_def fn_describable_def)

text \<open>Each \<open>WriteArg\<close> carries the offset the layout has for its argument.\<close>

primrec layout_ccallspec :: "platform \<Rightarrow> libffi \<Rightarrow> nat \<Rightarrow> nat \<Rightarrow> c_fn \<Rightarrow> ccallspec" where
  "layout_ccallspec P F idx n (Returns t) = Call t"
| "layout_ccallspec P F idx n (Function p f) =
     (if p = Void then WriteArg p (Val_int P 0) idx (layout_ccallspec P F (idx + 1) n f)
      else let o1 = align_up n (ft_alignment (ffi_desc P F p))
        in WriteArg p (Val_long P (int o1)) idx
             (layout_ccallspec P F (idx + 1) (o1 + ft_size (ffi_desc P F p)) f))"

text \<open>libffi accepts every combination of types it has descriptors of, and leaves these alone.\<close>

definition accepts :: "libffi \<Rightarrow> int \<Rightarrow> bool" where
  "accepts F abi \<longleftrightarrow>
     (\<forall>ra ats. static_types F ra \<noteq> None \<and> (\<forall>a \<in> set ats. static_types F a \<noteq> None) \<longrightarrow>
        ffi_prep_cif F (static_types F) abi (length ats) ra ats = (static_types F, FFI_OK))"

lemma build_ccallspec_ok:
  assumes F: "libffi_types P F" and P: "platform_ok P" and A: "accepts F abi" "Int_val P vabi = Inr abi"
    and p: "0 < pointer_alignment F" "sizeof_ffi_arg F \<le> pointer_size F"
  shows "builds (static_types F) spec ats ts \<Longrightarrow> fn_describable P f \<Longrightarrow>
    fits P (buffer_size P F (ts @ fn_types P F f) (ffi_desc P F (fn_ret f))) \<Longrightarrow>
    \<exists>spec'. build_ccallspec P F (static_types F) vabi idx f spec =
        Inr (spec', static_types F, layout_ccallspec P F idx (layout_end 0 ts) f) \<and>
      call_ready P F (static_types F) spec' (ats @ fn_addrs P F f) (ts @ fn_types P F f)
        (ffi_addr P F (fn_ret f)) (ffi_desc P F (fn_ret f)) \<and>
      spec_context spec' = spec_context spec"
proof (induction f arbitrary: spec ats ts idx)
  case (Returns t)
  let ?T = "static_types F" and ?ra = "ffi_addr P F t" and ?r = "ffi_desc P F t"
  have t: "describable P t" using Returns(2) by (simp add: passable_def)
  note a = arg_type_ok [OF F P t]
  have m: "map ?T ats = map Some ts" using Returns(1) by (simp add: builds_def)
  then have all: "\<forall>x \<in> set ats. ?T x \<noteq> None" by (metis in_set_conv_nth length_map nth_map option.distinct(1))
  then have prep: "ffi_prep_cif F ?T abi (length ats) ?ra ats = (?T, FFI_OK)"
    using A(1) a(3) unfolding accepts_def by blast
  have fit: "fits P (buffer_size P F ts ?r)" using Returns(3) by simp
  from prep_ready [OF Returns(1) P a(3,5,2) p fit A(2) prep m a(3)] show ?case
    by (auto simp: prep_callspec_def a(1))
next
  case (Function q f)
  let ?T = "static_types F" and ?d = "ffi_desc P F q"
  have q: "describable P q" "fn_describable P f" using Function.prems(2) by simp_all
  show ?case
  proof (cases "q = Void")
    case True
    then show ?thesis
      using Function.IH [OF Function.prems(1) q(2), of "idx + 1"] Function.prems(3) by (auto simp: add_argument_def)
  next
    case False
  note a = arg_type_ok [OF F P q(1)]
  have tok: "types_ok (fn_types P F f)"
    using c_args_describable [OF q(2)] arg_type_ok(5) [OF F P] by (auto simp: types_ok_def fn_types_def)
  have r: "0 < ft_alignment (ffi_desc P F (fn_ret f))"
    using arg_type_ok(5) [OF F P] q(2) by (simp add: fn_describable_def passable_def)
  have fit: "fits P (buffer_size P F ((ts @ [?d]) @ fn_types P F f) (ffi_desc P F (fn_ret f)))"
    using Function.prems(3) False by simp
  have "layout_end 0 (ts @ [?d]) \<le> layout_end 0 ((ts @ [?d]) @ fn_types P F f)" by (rule layout_prefix_le [OF tok])
  also have "\<dots> \<le> buffer_size P F ((ts @ [?d]) @ fn_types P F f) (ffi_desc P F (fn_ret f))"
    using sizes_le(1-4) [OF r p(1), of "(ts @ [?d]) @ fn_types P F f"]
      sizes_le(5) [OF r p(1), where ts = "(ts @ [?d]) @ fn_types P F f" and P = P] by linarith
  finally have "fits P (layout_end 0 (ts @ [?d]))" by (rule fits_mono [OF fit])
  from add_argument_ok [OF Function.prems(1) P a(2,3,5) this] obtain s1 where
    s1: "ctypes_add_argument P ?T spec (CTYPES_FROM_PTR P (ffi_addr P F q)) =
        Inr (s1, Val_long P (int (align_up (layout_end 0 ts) (ft_alignment ?d))))"
    "builds ?T s1 (ats @ [ffi_addr P F q]) (ts @ [?d])" "spec_context s1 = spec_context spec"
    by blast
  have "add_argument P F ?T spec q = ctypes_add_argument P ?T spec (CTYPES_FROM_PTR P (ffi_addr P F q))"
    using False a(1) by (cases q) (simp_all add: add_argument_def del: arg_type.simps)
  with Function.IH [OF s1(2) q(2) fit, of "idx + 1"] s1(1,3) False show ?thesis
    by (auto simp: Let_def layout_snoc)
  qed
qed

section \<open>The call\<close>

primrec fn_writers :: "platform \<Rightarrow> libffi \<Rightarrow> nat \<Rightarrow> nat \<Rightarrow> c_fn \<Rightarrow> value list \<Rightarrow> writer list" where
  "fn_writers P F idx n (Returns t) vs = []"
| "fn_writers P F idx n (Function p f) vs =
     (if p = Void then (p, Val_int P 0, idx, hd vs) # fn_writers P F (idx + 1) n f (tl vs)
      else let o1 = align_up n (ft_alignment (ffi_desc P F p))
        in (p, Val_long P (int o1), idx, hd vs) # fn_writers P F (idx + 1) (o1 + ft_size (ffi_desc P F p)) f (tl vs))"

lemma invoke_collects:
  "length vs = length (fn_args f) \<Longrightarrow>
     invoke P L F R fc T name (layout_ccallspec P F idx n f) writers spec addr vs =
     ctypes_call P F R fc T (String_block name) addr spec
       (argwriter P L (rev (fn_writers P F idx n f vs) @ writers)) (rvreader P L (fn_ret f))"
proof (induction f arbitrary: idx n writers vs)
  case (Function p f)
  then obtain v vs' where "vs = v # vs'" "length vs' = length (fn_args f)" by (cases vs) simp_all
  then show ?case by (simp add: Let_def Function.IH)
qed simp

text \<open>What an argument leaves in the array of OCaml objects.\<close>

definition arg_ref :: "platform \<Rightarrow> c_type \<Rightarrow> value \<Rightarrow> (value \<times> int) option" where
  "arg_ref P t v =
     (case (t, bindR (Field v 0) Long_val, Field v 1) of
        (OCaml u, Inr disp, Inr obj) \<Rightarrow> Some (obj, disp * elt_size P u)
      | _ \<Rightarrow> None)"

definition arg_refs :: "platform \<Rightarrow> c_type list \<Rightarrow> value list \<Rightarrow> (value \<times> int) option list" where
  "arg_refs P ts vs = map (\<lambda>(t, v). arg_ref P t v) (zip ts vs)"

lemma arg_refs_simps [simp]:
  "arg_refs P [] vs = []" "arg_refs P (t # ts) (v # vs) = arg_ref P t v # arg_refs P ts vs"
  by (simp_all add: arg_refs_def)

lemma length_arg_refs [simp]: "length vs = length ts \<Longrightarrow> length (arg_refs P ts vs) = length ts"
  by (simp add: arg_refs_def)

lemma arg_ref_none: "\<not> ocaml_value t \<Longrightarrow> arg_ref P t v = None"
  by (cases t) (simp_all add: arg_ref_def split: prod.splits)

text \<open>The last argument goes first.\<close>

primrec put_refs :: "platform \<Rightarrow> nat \<Rightarrow> (value \<times> int) option list \<Rightarrow> value list \<Rightarrow> value list result" where
  "put_refs P idx [] mov = Inr mov"
| "put_refs P idx (r # rs) mov =
     bindR (put_refs P (idx + 1) rs mov) (\<lambda>mov'.
       case r of None \<Rightarrow> Inr mov'
       | Some x \<Rightarrow> if idx < length mov' then Inr (mov'[idx := reference_field P (Some x)])
           else Inl (Invalid_argument ''index out of bounds''))"

text \<open>
  The index of an argument counts the arguments of type \<open>void\<close>, the array has places for the others
  only: strings are put in the right places when none of them comes after a \<open>void\<close>.
\<close>

primrec refs_in_place :: "c_fn \<Rightarrow> bool" where
  "refs_in_place (Returns t) \<longleftrightarrow> True"
| "refs_in_place (Function p f) \<longleftrightarrow> (if p = Void then \<not> has_ocaml_argument f else refs_in_place f)"

lemma no_refs:
  "\<not> has_ocaml_argument f \<Longrightarrow> length vs = length (fn_args f) \<Longrightarrow>
     put_refs P idx (arg_refs P (fn_args f) vs) mov = Inr mov \<and>
     arg_refs P (c_args f) (c_values f vs) = replicate (length (c_args f)) None"
proof (induction f arbitrary: idx vs)
  case (Function p f)
  then obtain v vs' where v: "vs = v # vs'" "length vs' = length (fn_args f)" by (cases vs) simp_all
  have "\<not> ocaml_value p" "\<not> has_ocaml_argument f" using Function.prems(1) by (auto split: if_splits)
  with v show ?case using Function.IH [of vs' "idx + 1"] by (simp add: arg_ref_none)
qed simp

lemma put_refs_in_place:
  "refs_in_place f \<Longrightarrow> length vs = length (fn_args f) \<Longrightarrow>
     put_refs P (length pre) (arg_refs P (fn_args f) vs) (pre @ replicate (length (c_args f)) Val_unit) =
     Inr (pre @ map (reference_field P) (arg_refs P (c_args f) (c_values f vs)))"
proof (induction f arbitrary: pre vs)
  case (Function p f)
  then obtain v vs' where v: "vs = v # vs'" "length vs' = length (fn_args f)" by (cases vs) simp_all
  show ?case
  proof (cases "p = Void")
    case True
    then show ?thesis
      using Function.prems(1) no_refs [OF _ v(2)] v by (simp add: arg_ref_none)
  next
    case False
    have "put_refs P (length pre + 1) (arg_refs P (fn_args f) vs') (pre @ Val_unit # replicate (length (c_args f)) Val_unit) =
        Inr (pre @ Val_unit # map (reference_field P) (arg_refs P (c_args f) (c_values f vs')))"
      using Function.IH [of vs' "pre @ [Val_unit]"] Function.prems(1) False v by simp
    with v False show ?thesis by (simp split: option.splits)
  qed
qed simp

text \<open>What the writer of an argument does to its slot: nothing when it is an OCaml object.\<close>

definition written :: "platform \<Rightarrow> integers_lib \<Rightarrow> c_type \<Rightarrow> value \<Rightarrow> byte list \<Rightarrow> bool" where
  "written P L t v bs \<longleftrightarrow>
     (if ocaml_value t then bs = [] \<and> (\<exists>disp obj u. v = OCamlRef P disp obj u \<and> oint_ok P disp)
      else \<forall>m a. a < addr_limit P \<longrightarrow> write_value P L t v (fatptr P a) m = need Memory_fault (store_bytes m a bs))"

lemma OCamlRef_fields:
  assumes "platform_ok P" "oint_ok P disp"
  shows "Field (OCamlRef P disp obj u) 0 = Inr (Val_long P disp)" "Long_val (Val_long P disp) = Inr disp"
    "Field (OCamlRef P disp obj u) 1 = Inr obj" "Field (OCamlRef P disp obj u) (Suc 0) = Inr obj"
  using assms platform_okD [OF assms(1)] by (simp_all add: OCamlRef_def Long_val_Val_long)

text \<open>One argument: its bytes go to its slot, or its object to its place in the array.\<close>

lemma write_arg_ok:
  assumes P: "platform_ok P" and w: "written P L t v bs"
    and o: "buf + off < addr_limit P" "oint_ok P (int off)"
    and m: "store_bytes m (buf + off) bs = Some m'" "put_refs P idx [arg_ref P t v] mov = Inr mov'"
  shows "write_arg P L (CTYPES_FROM_PTR P buf) (t, Val_long P (int off), idx, v) (m, mov) = Inr (m', mov')"
proof (cases "ocaml_value t")
  case True
  then obtain u where t: "t = OCaml u" by (cases t) simp_all
  obtain disp obj u' where v: "v = OCamlRef P disp obj u'" "oint_ok P disp" "bs = []"
    using w True by (auto simp: written_def)
  note fields = OCamlRef_fields [OF P v(2)]
  then have "arg_ref P t v = Some (obj, disp * elt_size P u)" using t v(1) by (simp add: arg_ref_def)
  then show ?thesis
    using m fields t v(1,3) by (auto simp: write_arg_def split: if_splits)
next
  case False
  then have "write_arg P L (CTYPES_FROM_PTR P buf) (t, Val_long P (int off), idx, v) (m, mov) =
      bindR (write_value P L t v (fatptr P (buf + off)) m) (\<lambda>m'. Inr (m', mov))"
    using Fat_add_fatptr [OF P o(2), of buf] by (cases t) (simp_all add: write_arg_def)
  then show ?thesis using False w o(1) m by (simp add: written_def arg_ref_none)
qed

lemma run_fn_writers:
  assumes P: "platform_ok P"
  shows "\<lbrakk>length vs = length (fn_args f); list_all2 (\<lambda>(t, v) bs. written P L t v bs) (zip (c_args f) (c_values f vs)) bss;
      \<forall>k \<in> set (layout n (fn_types P F f)). buf + k < addr_limit P \<and> oint_ok P (int k); buf < addr_limit P;
      store_slots m (zip (map (\<lambda>p. buf + p) (layout n (fn_types P F f))) bss) = Inr m';
      put_refs P idx (arg_refs P (fn_args f) vs) mov = Inr mov'\<rbrakk>
    \<Longrightarrow> run_writers P L (CTYPES_FROM_PTR P buf) (rev (fn_writers P F idx n f vs)) (m, mov) = Inr (m', mov')"
proof (induction f arbitrary: idx n vs bss m' mov')
  case (Function p f)
  then obtain v vs' where v: "vs = v # vs'" "length vs' = length (fn_args f)" by (cases vs) simp_all
  obtain mov1 where mv: "put_refs P (idx + 1) (arg_refs P (fn_args f) vs') mov = Inr mov1"
    "put_refs P idx [arg_ref P p v] mov1 = Inr mov'"
    using Function.prems(6) v(1) by auto
  show ?case
  proof (cases "p = Void")
    case True
    have z: "oint_ok P (int 0)" using oint_ok_bit [of P] platform_okD [OF P] by simp
    have "mov1 = mov'" using mv(2) True by (simp add: arg_ref_none)
    moreover have "write_arg P L (CTYPES_FROM_PTR P buf) (Void, Val_int P (int 0), idx, v) (m', mov1) = Inr (m', mov1)"
      by (rule write_arg_ok [OF P _ _ z, where bs = "[]"])
        (use Function.prems(4) in \<open>simp_all add: written_def arg_ref_none\<close>)
    ultimately show ?thesis
      using Function.IH [of vs' bss n m' "idx + 1" mov1] Function.prems mv(1) v True
      by (simp add: run_writers_append)
  next
    case False
    let ?d = "ffi_desc P F p"
    define o1 where "o1 = align_up n (ft_alignment ?d)"
    obtain bs bss' where b: "bss = bs # bss'" "written P L p v bs"
      "list_all2 (\<lambda>(t, v) bs. written P L t v bs) (zip (c_args f) (c_values f vs')) bss'"
      using Function.prems(2) v False by (cases bss) auto
    have lay: "layout n (fn_types P F (Function p f)) = o1 # layout (o1 + ft_size ?d) (fn_types P F f)"
      using False by (simp add: o1_def Let_def)
    obtain m1 where m1: "store_slots m (zip (map (\<lambda>p. buf + p) (layout (o1 + ft_size ?d) (fn_types P F f))) bss') = Inr m1"
      "store_bytes m1 (buf + o1) bs = Some m'"
      using Function.prems(5) unfolding lay b(1) by auto
    have o: "buf + o1 < addr_limit P" "oint_ok P (int o1)"
      "\<forall>k \<in> set (layout (o1 + ft_size ?d) (fn_types P F f)). buf + k < addr_limit P \<and> oint_ok P (int k)"
      using Function.prems(3) unfolding lay by simp_all
    have "run_writers P L (CTYPES_FROM_PTR P buf) (rev (fn_writers P F (idx + 1) (o1 + ft_size ?d) f vs')) (m, mov) = Inr (m1, mov1)"
      using v(2) b(3) o(3) Function.prems(4) m1(1) mv(1) by (rule Function.IH)
    moreover have "write_arg P L (CTYPES_FROM_PTR P buf) (p, Val_long P (int o1), idx, v) (m1, mov1) = Inr (m', mov')"
      using P b(2) o(1,2) m1(2) mv(2) by (rule write_arg_ok)
    moreover have "fn_writers P F idx n (Function p f) vs =
        (p, Val_long P (int o1), idx, v) # fn_writers P F (idx + 1) (o1 + ft_size ?d) f vs'"
      using v(1) False by (simp add: o1_def Let_def)
    ultimately show ?thesis by (simp add: run_writers_append)
  qed
qed simp

text \<open>
  The bytes \<open>bs\<close> are an object of the type that reads as \<open>v\<close>; C is passed such an object, or a pointer to
  the bytes of an OCaml string.
\<close>

definition encodes :: "platform \<Rightarrow> integers_lib \<Rightarrow> c_type \<Rightarrow> value \<Rightarrow> byte list \<Rightarrow> bool" where
  "encodes P L t v bs \<longleftrightarrow> length bs = type_bytes P t \<and> value_of_bytes P L t bs = Inr v"

definition passes :: "platform \<Rightarrow> integers_lib \<Rightarrow> ocaml_runtime \<Rightarrow> c_type \<Rightarrow> value \<Rightarrow> byte list \<Rightarrow> bool" where
  "passes P L R t v bs \<longleftrightarrow>
     (if ocaml_value t
      then \<exists>disp s u. v = OCamlRef P disp (String_block s) u \<and>
        bs = enc P (sizeof_ptr P) (int (string_address R (String_block s)) + disp)
      else encodes P L t v bs)"

lemma argument_bytes:
  assumes P: "platform_ok P" "LDOUBLE_VALUE_BYTES P \<le> sizeof_ldouble P" "integers_ok L"
    and t: "describable P t" "type_repr P L t v"
  shows "\<exists>bs bs'. length bs = type_bytes P t \<and> passes P L R t v bs \<and> written P L t v bs' \<and>
    (case arg_ref P t v of None \<Rightarrow> bs' = bs
     | Some (obj, off) \<Rightarrow> bs' = [] \<and> (\<exists>s. obj = String_block s) \<and> oint_ok P off \<and> type_bytes P t = sizeof_ptr P \<and>
         bs = enc P (sizeof_ptr P) (int (string_address R obj) + off))"
proof (cases "ocaml_value t")
  case True
  then obtain u where u: "t = OCaml u" by (cases t) simp_all
  then obtain disp s where v: "v = OCamlRef P disp (String_block s) u" "oint_ok P disp" "u \<noteq> FloatArray"
    using t(2) by auto
  note fields = OCamlRef_fields [OF P(1) v(2)]
  have e: "elt_size P u = 1" using v(3) by (cases u) simp_all
  then have "arg_ref P t v = Some (String_block s, disp)" using u v(1) fields by (simp add: arg_ref_def)
  then show ?thesis
    using u v by (intro exI [of _ "enc P (sizeof_ptr P) (int (string_address R (String_block s)) + disp)"] exI [of _ "[]"])
      (auto simp: passes_def written_def)
next
  case False
  then have "passable P t" using t(1) by (simp add: passable_def)
  from write_value_bytes [OF P this t(2)] show ?thesis
    using False by (auto simp: passes_def written_def encodes_def arg_ref_none)
qed

lemma passes_length: "passes P L R t v bs \<Longrightarrow> length bs = type_bytes P t"
  by (cases t) (auto simp: passes_def encodes_def)

text \<open>What C is passed for all the arguments.\<close>

definition all_pass :: "platform \<Rightarrow> integers_lib \<Rightarrow> ocaml_runtime \<Rightarrow> c_fn \<Rightarrow> value list \<Rightarrow> byte list list \<Rightarrow> bool" where
  "all_pass P L R f vs bss \<longleftrightarrow> length bss = length (c_args f) \<and>
     (\<forall>i < length (c_args f). passes P L R (c_args f ! i) (c_values f vs ! i) (bss ! i))"

lemma c_values_typed:
  "list_all2 (type_repr P L) (fn_args f) vs \<Longrightarrow> list_all2 (type_repr P L) (c_args f) (c_values f vs)"
proof (induction f arbitrary: vs)
  case (Function p f)
  then show ?case by (cases vs) auto
qed simp

text \<open>What C finds for each argument, and what the writer of the argument stores.\<close>

lemma arguments_bytes:
  assumes F: "libffi_types P F" and P: "platform_ok P" "LDOUBLE_VALUE_BYTES P \<le> sizeof_ldouble P" "integers_ok L"
    and f: "fn_describable P f" "list_all2 (type_repr P L) (fn_args f) vs"
  defines "ts \<equiv> fn_types P F f" and "xs \<equiv> arg_refs P (c_args f) (c_values f vs)"
  shows "\<exists>bss bss'. references_ok P R ts xs bss \<and> length bss' = length ts \<and>
    (\<forall>i < length ts. passes P L R (c_args f ! i) (c_values f vs ! i) (bss ! i) \<and> length (bss ! i) = ft_size (ts ! i) \<and>
       bss' ! i = (if xs ! i = None then bss ! i else [])) \<and>
    list_all2 (\<lambda>(t, v) bs. written P L t v bs) (zip (c_args f) (c_values f vs)) bss'"
proof -
  let ?n = "length (c_args f)" and ?cs = "c_values f vs"
  have nc: "length ?cs = ?n" using f(2) by (simp add: list_all2_lengthD)
  have n: "length ts = ?n" by (simp add: ts_def fn_types_def)
  have ty: "describable P (c_args f ! i)" "type_repr P L (c_args f ! i) (?cs ! i)"
    "ft_size (ts ! i) = type_bytes P (c_args f ! i)" if "i < ?n" for i
    using c_args_describable [OF f(1), of "c_args f ! i"] c_values_typed [OF f(2)] that nc
      arg_type_ok(7) [OF F P(1), of "c_args f ! i"]
    by (simp_all add: list_all2_conv_all_nth ts_def fn_types_def)
  have x: "xs ! i = arg_ref P (c_args f ! i) (?cs ! i)" if "i < ?n" for i
    using that nc by (simp add: xs_def arg_refs_def)
  define Q where "Q i bs bs' \<longleftrightarrow> length bs = ft_size (ts ! i) \<and> passes P L R (c_args f ! i) (?cs ! i) bs \<and>
      written P L (c_args f ! i) (?cs ! i) bs' \<and>
      (case xs ! i of None \<Rightarrow> bs' = bs
       | Some (obj, off) \<Rightarrow> bs' = [] \<and> (\<exists>s. obj = String_block s) \<and> oint_ok P off \<and> ft_size (ts ! i) = sizeof_ptr P \<and>
           bs = enc P (sizeof_ptr P) (int (string_address R obj) + off))" for i bs bs'
  have "\<exists>bs bs'. Q i bs bs'" if "i < ?n" for i
    unfolding Q_def ty(3) [OF that] x [OF that] using argument_bytes [OF P ty(1,2) [OF that], of R] by blast
  then obtain g g' where Q: "\<And>i. i < ?n \<Longrightarrow> Q i (g i) (g' i)" by metis
  have place: "case xs ! i of None \<Rightarrow> True
      | Some (v, off) \<Rightarrow> (\<exists>s. v = String_block s) \<and> oint_ok P off \<and> ft_size (ts ! i) = sizeof_ptr P \<and>
          g i = enc P (sizeof_ptr P) (int (string_address R v) + off)" "g' i = (if xs ! i = None then g i else [])"
    if "i < ?n" for i
    using Q [OF that] by (cases "xs ! i"; auto simp: Q_def)+
  have "references_ok P R ts xs (map g [0..<?n])"
    unfolding references_ok_def
  proof (intro conjI allI impI)
    fix i assume "i < length ts"
    then have i: "i < ?n" using n by simp
    then show "case xs ! i of None \<Rightarrow> True
      | Some (v, off) \<Rightarrow> (\<exists>s. v = String_block s) \<and> oint_ok P off \<and> ft_size (ts ! i) = sizeof_ptr P \<and>
          map g [0..<?n] ! i = enc P (sizeof_ptr P) (int (string_address R v) + off)"
      using place(1) [OF i] by (cases "xs ! i") auto
  qed (use n nc in \<open>simp_all add: xs_def\<close>)
  moreover have "list_all2 (\<lambda>(t, v) bs. written P L t v bs) (zip (c_args f) ?cs) (map g' [0..<?n])"
    using Q nc by (simp add: list_all2_conv_all_nth Q_def)
  ultimately show ?thesis
    using Q place(2) n by (intro exI [of _ "map g [0..<?n]"] exI [of _ "map g' [0..<?n]"]) (simp add: Q_def)
qed

text \<open>The places of a layout are addresses and OCaml integers.\<close>

lemma layout_places:
  assumes "platform_ok P" "types_ok ts" "fits P (layout_end 0 ts)" "buf + layout_end 0 ts < addr_limit P"
  shows "\<forall>k \<in> set (layout 0 ts). buf + k < addr_limit P \<and> oint_ok P (int k)"
proof
  fix k assume "k \<in> set (layout 0 ts)"
  then obtain i where "i < length ts" "k = layout 0 ts ! i" by (auto simp: in_set_conv_nth)
  then have k: "k \<le> layout_end 0 ts" using layout_within [OF assms(2), of i 0] by simp
  from fits_mono [OF assms(3) k] have "oint_ok P (int k)" using platform_okD(3) [OF assms(1)] by (rule fitsD(4))
  with k assms(4) show "buf + k < addr_limit P \<and> oint_ok P (int k)" by simp
qed

lemma argwriter_runs:
  assumes P: "platform_ok P" and f: "length vs = length (fn_args f)"
      "put_refs P 0 (arg_refs P (fn_args f) vs) (replicate (length (fn_types P F f)) Val_unit) = Inr mov"
    and wr: "list_all2 (\<lambda>(t, v) bs. written P L t v bs) (zip (c_args f) (c_values f vs)) bss"
    and C: "call_ready P F T spec ats (fn_types P F f) ra r"
    and len: "length bss = length (fn_types P F f)" "\<forall>i < length (fn_types P F f). length (bss ! i) \<le> ft_size (fn_types P F f ! i)"
    and b: "buf + array_offset F (fn_types P F f) r < addr_limit P" "mapped (cmem w) buf (array_offset F (fn_types P F f) r)"
  shows "\<exists>m. argwriter P L (rev (fn_writers P F 0 0 f vs)) (CTYPES_FROM_PTR P buf, replicate (length (fn_types P F f)) Val_unit) w =
      (w\<lparr>cmem := m\<rparr>, Inr mov) \<and>
    only_changes buf (array_offset F (fn_types P F f) r) (cmem w) m \<and>
    (\<forall>i < length (fn_types P F f). load_bytes m (buf + layout 0 (fn_types P F f) ! i) (length (bss ! i)) = Some (bss ! i))"
proof -
  let ?ts = "fn_types P F f"
  from store_layout_ok [OF C len b(2)] obtain m where
    m: "store_slots (cmem w) (zip (map (\<lambda>p. buf + p) (layout 0 ?ts)) bss) = Inr m"
    "only_changes buf (array_offset F ?ts r) (cmem w) m"
    "\<forall>i < length ?ts. load_bytes m (buf + layout 0 ?ts ! i) (length (bss ! i)) = Some (bss ! i)"
    by blast
  have e: "layout_end 0 ?ts \<le> array_offset F ?ts r" "array_offset F ?ts r \<le> buffer_size P F ?ts r"
    using ready_sizes(1-4) [OF C] by linarith+
  have "fits P (buffer_size P F ?ts r)" "types_ok ?ts" using C by (simp_all only: call_ready_def)
  then have lay: "\<forall>k \<in> set (layout 0 ?ts). buf + k < addr_limit P \<and> oint_ok P (int k)"
    using e b(1) by (intro layout_places [OF P]) (auto intro: fits_mono)
  have bl: "buf < addr_limit P" using b(1) by simp
  from run_fn_writers [OF P f(1) wr lay bl m(1) f(2)] show ?thesis
    using m(2,3) by (intro exI [of _ m]) (simp add: argwriter_def)
qed

lemma argwriter_writes:
  assumes F: "libffi_types P F" and P: "platform_ok P" "LDOUBLE_VALUE_BYTES P \<le> sizeof_ldouble P" "integers_ok L"
    and f: "fn_describable P f" "refs_in_place f" "list_all2 (type_repr P L) (fn_args f) vs"
    and C: "call_ready P F T spec ats (fn_types P F f) ra r"
  shows "writes_slots P F R (fn_types P F f) r (arg_refs P (c_args f) (c_values f vs)) (all_pass P L R f vs)
    (argwriter P L (rev (fn_writers P F 0 0 f vs)))"
proof -
  let ?ts = "fn_types P F f" and ?xs = "arg_refs P (c_args f) (c_values f vs)"
  have n: "length ?ts = length (c_args f)" "length vs = length (fn_args f)"
    using f(3) by (simp_all add: fn_types_def list_all2_lengthD)
  obtain bss bss' where b: "references_ok P R ?ts ?xs bss" "length bss' = length ?ts"
    "\<And>i. i < length ?ts \<Longrightarrow> passes P L R (c_args f ! i) (c_values f vs ! i) (bss ! i) \<and> length (bss ! i) = ft_size (?ts ! i) \<and>
       bss' ! i = (if ?xs ! i = None then bss ! i else [])"
    "list_all2 (\<lambda>(t, v) bs. written P L t v bs) (zip (c_args f) (c_values f vs)) bss'"
    using arguments_bytes [OF F P f(1,3), of R] by blast
  then have le: "\<forall>i < length ?ts. length (bss' ! i) \<le> ft_size (?ts ! i)" by simp
  have "put_refs P 0 (arg_refs P (fn_args f) vs) (replicate (length ?ts) Val_unit) = Inr (map (reference_field P) ?xs)"
    using put_refs_in_place [OF f(2) n(2), of P "[]"] n(1) by simp
  note runs = argwriter_runs [OF P(1) n(2) this b(4) C b(2) le]
  have ap: "all_pass P L R f vs bss" using b(1,3) n(1) by (simp add: references_ok_def all_pass_def)
  show ?thesis
    unfolding writes_slots_def
  proof (intro allI impI)
    fix w :: c_world and buf
    assume a: "buf + array_offset F ?ts r < addr_limit P" "mapped (cmem w) buf (array_offset F ?ts r)"
    show "\<exists>m b. argwriter P L (rev (fn_writers P F 0 0 f vs)) (CTYPES_FROM_PTR P buf, replicate (length ?ts) Val_unit) w =
          (w\<lparr>cmem := m\<rparr>, Inr (map (reference_field P) ?xs)) \<and> only_changes buf (array_offset F ?ts r) (cmem w) m \<and>
        all_pass P L R f vs b \<and> references_ok P R ?ts ?xs b \<and>
        (\<forall>i < length ?ts. ?xs ! i = None \<longrightarrow> load_bytes m (buf + layout 0 ?ts ! i) (ft_size (?ts ! i)) = Some (b ! i))"
      using runs [OF a] b(1,3) ap by (elim ex_forward) (auto intro!: exI [of _ bss])
  qed
qed

text \<open>The specification that a function type gives.\<close>

lemma allocated_spec_built:
  assumes env: "libffi_types P F" "platform_ok P"
    and ffi: "accepts F abi" "Int_val P vabi = Inr abi" "0 < pointer_alignment F" "sizeof_ffi_arg F \<le> pointer_size F"
    and f: "fn_describable P f" "fits P (buffer_size P F (fn_types P F f) (ffi_desc P F (fn_ret f)))"
  shows "\<exists>c0 spec.
    ctypes_allocate_callspec P (Val_bool P (of_bool check)) (Val_bool P (of_bool lock)) (Val_bool P (of_bool thr)) = Inr c0 \<and>
    build_ccallspec P F (static_types F) vabi idx f c0 = Inr (spec, static_types F, layout_ccallspec P F idx 0 f) \<and>
    call_ready P F (static_types F) spec (fn_addrs P F f) (fn_types P F f) (ffi_addr P F (fn_ret f)) (ffi_desc P F (fn_ret f)) \<and>
    spec_context spec = \<lparr>check_errno = check, runtime_lock = lock, thread_registration = thr\<rparr>"
proof -
  have iv: "Int_val P (Val_bool P x) = Inr (if x \<noteq> 0 then 1 else 0)" for x
    using Int_val_Val_bool [of P x] platform_okD [OF env(2)] by simp
  obtain c0 where c0: "ctypes_allocate_callspec P (Val_bool P (of_bool check)) (Val_bool P (of_bool lock)) (Val_bool P (of_bool thr)) = Inr c0"
    "spec_context c0 = \<lparr>check_errno = check, runtime_lock = lock, thread_registration = thr\<rparr>"
    by (simp add: ctypes_allocate_callspec_def iv)
  have "fits P (buffer_size P F ([] @ fn_types P F f) (ffi_desc P F (fn_ret f)))" using f(2) by simp
  from build_ccallspec_ok [OF env ffi builds_prototype [OF c0(1)] f(1) this, of idx] show ?thesis
    using c0 by auto
qed

lemma build_function_ok:
  assumes env: "libffi_types P F" "platform_ok P"
    and ffi: "accepts F abi" "Int_val P vabi = Inr abi" "0 < pointer_alignment F" "sizeof_ffi_arg F \<le> pointer_size F"
    and f: "fn_describable P f" "fits P (buffer_size P F (fn_types P F f) (ffi_desc P F (fn_ret f)))"
  shows "\<exists>spec. build_function P F (static_types F) vabi lock check f =
      Inr (spec, static_types F, layout_ccallspec P F 0 0 f) \<and>
    call_ready P F (static_types F) spec (fn_addrs P F f) (fn_types P F f) (ffi_addr P F (fn_ret f)) (ffi_desc P F (fn_ret f)) \<and>
    spec_context spec = \<lparr>check_errno = check, runtime_lock = lock, thread_registration = False\<rparr>"
  using allocated_spec_built [OF assms, of check lock False 0] by (auto simp: build_function_def)

text \<open>A call with a finished specification, whose writers hand over bytes that satisfy \<open>B\<close>.\<close>

lemma invoke_with_writers:
  assumes env: "libffi_types P F" "platform_ok P" and ffi: "ffi_calls P F T sem ffi_call"
    and C: "call_ready P F T spec ats (fn_types P F f) ra (ffi_desc P F (fn_ret f))"
      "spec_context spec = \<lparr>check_errno = check, runtime_lock = lock, thread_registration = False\<rparr>"
    and f: "fn_describable P f" "length vs = length (fn_args f)"
    and W: "writes_slots P F R (fn_types P F f) (ffi_desc P F (fn_ret f)) xs B
      (argwriter P L (rev (fn_writers P F 0 0 f vs)))"
    and wb: "\<forall>bss. B bss \<longrightarrow> well_behaved lock sem fn bss (type_bytes P (fn_ret f))"
    and fn: "fn < addr_limit P"
    and w: "lock_held w" "stack_ptr w < addr_limit P"
      "stack_limit R + buffer_size P F (fn_types P F f) (ffi_desc P F (fn_ret f)) + length vs * sizeof_ptr P + 32 \<le> stack_ptr w"
  shows "\<exists>bss w1 w2.
    B bss \<and> lock_held w1 = (\<not> lock) \<and> (check \<longrightarrow> errno w1 = 0) \<and> lock_held w2 \<and> stack_ptr w2 = stack_ptr w \<and>
    (case sem fn bss w1 of (w1', bs) \<Rightarrow>
       invoke P L F R ffi_call T name (layout_ccallspec P F 0 0 f) [] spec (fatptr P fn) vs w =
         (w2, if check \<and> errno w1' \<noteq> 0 then Inl (Unix_error (errno w1') (takeWhile (\<lambda>b. b \<noteq> 0) name))
              else value_of_bytes P L (fn_ret f) bs))"
proof -
  let ?ts = "fn_types P F f" and ?r = "ffi_desc P F (fn_ret f)"
  have pr: "passable P (fn_ret f)" using f(1) by (simp add: fn_describable_def)
  then have a: "result_size ?r = type_bytes P (fn_ret f)" by (intro arg_type_ok(4) [OF env]) (simp add: passable_def)
  have ctx: "check_errno (spec_context spec) = check" "runtime_lock (spec_context spec) = lock" by (simp_all add: C(2))
  have wb': "\<forall>b. B b \<longrightarrow> well_behaved (runtime_lock (spec_context spec)) sem fn b (result_size ?r)"
    using wb unfolding a ctx .
  have "length ?ts * sizeof_ptr P \<le> length vs * sizeof_ptr P"
    unfolding f(2) by (intro mult_le_mono1) (simp add: fn_types_def c_args_def)
  then have st: "stack_limit R + buffer_size P F ?ts ?r + length ?ts * sizeof_ptr P + 32 \<le> stack_ptr w"
    using w(3) by linarith
  have fp: "CTYPES_ADDR_OF_FATPTR P (fatptr P fn) = Inr fn" using fn by simp
  from call_with_writer [OF C(1) ffi wb' W w(1,2) st fp String_val.simps(1), of name "rvreader P L (fn_ret f)"]
  obtain bss w1 w2 slot where *: "B bss" "lock_held w1 = (\<not> lock)" "check \<longrightarrow> errno w1 = 0"
    "case sem fn bss w1 of (w1', bs) \<Rightarrow> lock_held w2 \<and> slot < addr_limit P \<and>
       load_bytes (cmem w2) slot (result_size ?r) = Some bs \<and>
       ctypes_call P F R ffi_call T (String_block name) (fatptr P fn) spec
         (argwriter P L (rev (fn_writers P F 0 0 f vs))) (rvreader P L (fn_ret f)) w =
         (if check \<and> errno w1' \<noteq> 0
          then (w2\<lparr>stack_ptr := stack_ptr w\<rparr>, Inl (Unix_error (errno w1') (takeWhile (\<lambda>b. b \<noteq> 0) name)))
          else case rvreader P L (fn_ret f) (CTYPES_FROM_PTR P slot) w2 of (w3, v) \<Rightarrow> (w3\<lparr>stack_ptr := stack_ptr w\<rparr>, v))"
    unfolding ctx by (elim exE conjE) (rule that)
  obtain w1' bs where s: "sem fn bss w1 = (w1', bs)" by (cases "sem fn bss w1")
  have "build P L (fn_ret f) (fatptr P slot) (cmem w2) = value_of_bytes P L (fn_ret f) bs"
    using *(4) s by (intro build_bytes [OF env(2) pr]) (simp_all add: a)
  with * f(2) s show ?thesis
    by (intro exI [of _ bss] exI [of _ w1] exI [of _ "w2\<lparr>stack_ptr := stack_ptr w\<rparr>"])
      (simp add: invoke_collects rvreader_def)
qed

lemma invoke_ok:
  assumes env: "libffi_types P F" "platform_ok P" "LDOUBLE_VALUE_BYTES P \<le> sizeof_ldouble P" "integers_ok L"
    and ffi: "ffi_calls P F T sem ffi_call"
    and C: "call_ready P F T spec ats (fn_types P F f) ra (ffi_desc P F (fn_ret f))"
      "spec_context spec = \<lparr>check_errno = check, runtime_lock = lock, thread_registration = False\<rparr>"
    and f: "fn_describable P f" "refs_in_place f" "list_all2 (type_repr P L) (fn_args f) vs"
    and wb: "\<forall>bss. all_pass P L R f vs bss \<longrightarrow> well_behaved lock sem fn bss (type_bytes P (fn_ret f))"
    and fn: "fn < addr_limit P"
    and w: "lock_held w" "stack_ptr w < addr_limit P"
      "stack_limit R + buffer_size P F (fn_types P F f) (ffi_desc P F (fn_ret f)) + length vs * sizeof_ptr P + 32 \<le> stack_ptr w"
  shows "\<exists>bss w1 w2.
    all_pass P L R f vs bss \<and> lock_held w1 = (\<not> lock) \<and> (check \<longrightarrow> errno w1 = 0) \<and> lock_held w2 \<and> stack_ptr w2 = stack_ptr w \<and>
    (case sem fn bss w1 of (w1', bs) \<Rightarrow>
       invoke P L F R ffi_call T name (layout_ccallspec P F 0 0 f) [] spec (fatptr P fn) vs w =
         (w2, if check \<and> errno w1' \<noteq> 0 then Inl (Unix_error (errno w1') (takeWhile (\<lambda>b. b \<noteq> 0) name))
              else value_of_bytes P L (fn_ret f) bs))"
proof -
  have "writes_slots P F R (fn_types P F f) (ffi_desc P F (fn_ret f)) (arg_refs P (c_args f) (c_values f vs))
      (all_pass P L R f vs) (argwriter P L (rev (fn_writers P F 0 0 f vs)))"
    by (rule argwriter_writes [OF env f C(1)])
  from invoke_with_writers [OF env(1,2) ffi C f(1) list_all2_lengthD [OF f(3), symmetric] this wb fn w] show ?thesis .
qed

text \<open>
  C1: a call from OCaml to C, end to end.  For every function type over \<open>void\<close>, the passable primitive types,
  pointers, function pointers and OCaml strings whose buffer fits, building the specification succeeds, and calling the C
  function at an address with OCaml values of the argument types hands it, for each argument that is not
  \<open>void\<close>, an object that reads as the value given, or a pointer to the bytes of the string given; if it leaves no error that is checked, the call returns the OCaml
  value that the returned bytes represent, on either byte order.  The function runs with the runtime lock
  released exactly when that was asked for, which a function that takes OCaml strings refuses, and with \<open>errno\<close> cleared if it is checked, in which
  case a nonzero \<open>errno\<close> is raised as \<open>Unix_error\<close>; afterwards the lock is held and the
  stack is as it was.  No string may come after a \<open>void\<close> argument.
\<close>

theorem foreign_call:
  assumes env: "libffi_types P F" "platform_ok P" "LDOUBLE_VALUE_BYTES P \<le> sizeof_ldouble P" "integers_ok L"
    and ffi: "accepts F abi" "Int_val P vabi = Inr abi" "0 < pointer_alignment F" "sizeof_ffi_arg F \<le> pointer_size F"
      "ffi_calls P F (static_types F) sem ffi_call"
    and f: "fn_describable P f" "refs_in_place f" "list_all2 (type_repr P L) (fn_args f) vs"
    and fit: "fits P (buffer_size P F (fn_types P F f) (ffi_desc P F (fn_ret f)))"
    and wb: "\<forall>bss. all_pass P L R f vs bss \<longrightarrow> well_behaved lock sem fn bss (type_bytes P (fn_ret f))"
    and fn: "fn < addr_limit P"
    and w: "lock_held w" "stack_ptr w < addr_limit P"
      "stack_limit R + buffer_size P F (fn_types P F f) (ffi_desc P F (fn_ret f)) + length vs * sizeof_ptr P + 32 \<le> stack_ptr w"
  shows "if lock \<and> has_ocaml_argument f then function_of_pointer P F (static_types F) vabi lock check f = Inl Unsupported
    else \<exists>spec cc bss w1 w2.
      function_of_pointer P F (static_types F) vabi lock check f = Inr (spec, static_types F, cc) \<and>
      all_pass P L R f vs bss \<and>
      lock_held w1 = (\<not> lock) \<and> (check \<longrightarrow> errno w1 = 0) \<and> lock_held w2 \<and> stack_ptr w2 = stack_ptr w \<and>
      (case sem fn bss w1 of (w1', bs) \<Rightarrow>
         invoke P L F R ffi_call (static_types F) name cc [] spec (fatptr P fn) vs w =
           (w2, if check \<and> errno w1' \<noteq> 0 then Inl (Unix_error (errno w1') (takeWhile (\<lambda>b. b \<noteq> 0) name))
                else value_of_bytes P L (fn_ret f) bs))"
proof (cases "lock \<and> has_ocaml_argument f")
  case False
  obtain spec where spec: "build_function P F (static_types F) vabi lock check f =
      Inr (spec, static_types F, layout_ccallspec P F 0 0 f)"
    "call_ready P F (static_types F) spec (fn_addrs P F f) (fn_types P F f) (ffi_addr P F (fn_ret f)) (ffi_desc P F (fn_ret f))"
    "spec_context spec = \<lparr>check_errno = check, runtime_lock = lock, thread_registration = False\<rparr>"
    using build_function_ok [OF env(1,2) ffi(1-4) f(1) fit, of lock check] by blast
  from invoke_ok [OF env ffi(5) spec(2,3) f wb fn w, of name]
  obtain bss w1 w2 where "all_pass P L R f vs bss"
    "lock_held w1 = (\<not> lock)" "check \<longrightarrow> errno w1 = 0" "lock_held w2" "stack_ptr w2 = stack_ptr w"
    "case sem fn bss w1 of (w1', bs) \<Rightarrow>
       invoke P L F R ffi_call (static_types F) name (layout_ccallspec P F 0 0 f) [] spec (fatptr P fn) vs w =
         (w2, if check \<and> errno w1' \<noteq> 0 then Inl (Unix_error (errno w1') (takeWhile (\<lambda>b. b \<noteq> 0) name))
              else value_of_bytes P L (fn_ret f) bs)"
    by (elim exE conjE) (rule that)
  then show ?thesis
    unfolding if_not_P [OF False] function_of_pointer_def
    using spec(1) by (intro exI [of _ spec] exI [of _ "layout_ccallspec P F 0 0 f"] exI [of _ bss] exI [of _ w1] exI [of _ w2]) simp
qed (simp add: function_of_pointer_def)

text \<open>\<open>int f(int, const char *, void)\<close> that returns its first argument, called with \<open>-5\<close> and an OCaml string.\<close>

definition ex_first :: c_functions where
  "ex_first fn bss w = (w, bss ! 0)"

definition ex_fn :: c_fn where
  "ex_fn = Function (Primitive Ctypes_Int) (Function (OCaml String) (Function Void (Returns (Primitive Ctypes_Int))))"

lemma ex_desc:
  "ffi_desc lp64 (example_libffi lp64) (Primitive Ctypes_Int) = ffi_type_desc (example_libffi lp64) Ft_sint"
  "t = Pointer \<or> t = OCaml u \<Longrightarrow> ffi_desc lp64 (example_libffi lp64) t = ffi_type_desc (example_libffi lp64) Ft_pointer"
proof -
  let ?F = "example_libffi lp64"
  have a: "ffi_type_addr ?F x < addr_limit lp64" "ffi_type_addr ?F x \<noteq> 0" for x
    using example_lp64.addr [of x] by simp_all
  have "prim_index Ctypes_Int < length all_prims \<and> all_prims ! prim_index Ctypes_Int = Ctypes_Int"
    by (rule prim_index_nth)
  then have "ctypes_primitive_ffitype lp64 ?F (prim_value lp64 Ctypes_Int) = Inr (CTYPES_FROM_PTR lp64 (ffi_type_addr ?F Ft_sint))"
    by (simp add: ctypes_primitive_ffitype_def Int_val_prim_value)
  moreover have "CTYPES_FROM_PTR lp64 (ffi_type_addr ?F Ft_sint) \<noteq> CTYPES_FROM_PTR lp64 0"
    using from_ptr_eq [OF a(1), of 0] a(2) by simp
  ultimately have "ffi_addr lp64 ?F (Primitive Ctypes_Int) = ffi_type_addr ?F Ft_sint"
    using a(1) by (simp add: ffi_addr_def)
  then show "ffi_desc lp64 ?F (Primitive Ctypes_Int) = ffi_type_desc ?F Ft_sint"
    by (simp add: ffi_desc_def example_lp64.static_lookup)
  show "ffi_desc lp64 ?F t = ffi_type_desc ?F Ft_pointer" if "t = Pointer \<or> t = OCaml u"
    using that a(1) by (auto simp: ffi_desc_def ffi_addr_def ctypes_pointer_ffitype_def example_lp64.static_lookup)
qed

lemma ex_fn_size:
  assumes "fn_types lp64 (example_libffi lp64) f =
      [ffi_type_desc (example_libffi lp64) Ft_sint, ffi_type_desc (example_libffi lp64) Ft_pointer]"
    and "fn_ret f = Primitive Ctypes_Int"
  shows "buffer_size lp64 (example_libffi lp64) (fn_types lp64 (example_libffi lp64) f)
     (ffi_desc lp64 (example_libffi lp64) (fn_ret f)) = 48"
proof -
  have ptr: "pointer_alignment (example_libffi lp64) = 8" "pointer_size (example_libffi lp64) = 8"
    by (simp_all add: pointer_alignment_def pointer_size_def example_libffi_def)
  show ?thesis
    unfolding assms ex_desc
    by (simp add: buffer_size_def array_offset_def scratch_size_def ret_offset_def ptr)
      (simp add: example_libffi_def align_up_def)
qed

lemma ex_env:
  "LDOUBLE_VALUE_BYTES lp64 \<le> sizeof_ldouble lp64" "accepts (example_libffi lp64) 2" "Int_val lp64 (Val_int lp64 2) = Inr 2"
  "0 < pointer_alignment (example_libffi lp64)" "sizeof_ffi_arg (example_libffi lp64) \<le> pointer_size (example_libffi lp64)"
  "sizeof_ffi_arg (example_libffi lp64) = 8"
  by (auto simp: LDOUBLE_VALUE_BYTES_def accepts_def example_libffi_def example_prep_def Int_val_def Val_long_def swrap_def
      pointer_alignment_def pointer_size_def)

theorem foreign_call_witness:
  "\<exists>spec cc. function_of_pointer lp64 (example_libffi lp64) (static_types (example_libffi lp64)) (Val_int lp64 2) False True ex_fn =
       Inr (spec, static_types (example_libffi lp64), cc) \<and>
     snd (invoke lp64 (boxed_integers lp64) (example_libffi lp64) ex_runtime
       (reference_ffi_call lp64 (example_libffi lp64) (static_types (example_libffi lp64)) ex_first)
       (static_types (example_libffi lp64)) [102] cc [] spec (fatptr lp64 4096)
       [Val_int lp64 (- 5), OCamlRef lp64 1 (String_block [104, 105]) String, Val_unit] ex_world) = Inr (Val_int lp64 (- 5))"
proof -
  let ?F = "example_libffi lp64" and ?L = "boxed_integers lp64"
  let ?vs = "[Val_int lp64 (- 5), OCamlRef lp64 1 (String_block [104, 105]) String, Val_unit]"
  have ts: "fn_types lp64 ?F ex_fn = [ffi_type_desc ?F Ft_sint, ffi_type_desc ?F Ft_pointer]"
    using ex_desc(2) [of "OCaml String" String] by (simp add: ex_fn_def ex_desc(1))
  have "fn_ret ex_fn = Primitive Ctypes_Int" by (simp add: ex_fn_def)
  note size = ex_fn_size [OF ts this]
  have pa: "fn_describable lp64 ex_fn" "refs_in_place ex_fn" by (simp_all add: ex_fn_def no_ffi_type_def passable_def)
  have "prim_repr lp64 ?L Ctypes_Int (Val_int lp64 (- 5))"
    by (auto simp: in_srange_def oint_ok_def intro: exI [of _ "- 5"])
  moreover have "type_repr lp64 ?L (OCaml String) (OCamlRef lp64 1 (String_block [104, 105]) String)"
    by (auto simp: oint_ok_bit intro!: exI [of _ 1])
  ultimately have vs: "list_all2 (type_repr lp64 ?L) (fn_args ex_fn) ?vs" by (simp add: ex_fn_def)
  have first: "passes lp64 ?L ex_runtime (Primitive Ctypes_Int) (Val_int lp64 (- 5)) (bss ! 0)"
    if "all_pass lp64 ?L ex_runtime ex_fn ?vs bss" for bss
    using that by (auto simp: all_pass_def ex_fn_def)
  have wb: "\<forall>bss. all_pass lp64 ?L ex_runtime ex_fn ?vs bss \<longrightarrow>
      well_behaved False ex_first 4096 bss (type_bytes lp64 (fn_ret ex_fn))"
    using passes_length [OF first] by (simp add: well_behaved_def ex_first_def ex_fn_def)
  have w: "lock_held ex_world" "stack_ptr ex_world < addr_limit lp64"
    "stack_limit ex_runtime + buffer_size lp64 ?F (fn_types lp64 ?F ex_fn) (ffi_desc lp64 ?F (fn_ret ex_fn)) +
       length ?vs * sizeof_ptr lp64 + 32 \<le> stack_ptr ex_world"
    unfolding size by (simp_all add: ex_world_def ex_runtime_def)
  have fit: "fits lp64 (buffer_size lp64 ?F (fn_types lp64 ?F ex_fn) (ffi_desc lp64 ?F (fn_ret ex_fn)))"
    unfolding size by (simp add: fits_lp64)
  have fn: "4096 < addr_limit lp64" by simp
  have nl: "\<not> (False \<and> has_ocaml_argument ex_fn)" by simp
  from foreign_call [OF example_lp64.libffi_types_axioms platform_ok_lp64 ex_env(1) boxed_lp64.ok ex_env(2-5) reference_ffi_call_ok
      pa vs fit wb fn w, of True "[102]", unfolded if_not_P [OF nl]]
  obtain spec cc bss w1 w2 where *: "function_of_pointer lp64 ?F (static_types ?F) (Val_int lp64 2) False True ex_fn = Inr (spec, static_types ?F, cc)"
    "all_pass lp64 ?L ex_runtime ex_fn ?vs bss"
    "errno w1 = 0"
    "case ex_first 4096 bss w1 of (w1', bs) \<Rightarrow>
       invoke lp64 ?L ?F ex_runtime (reference_ffi_call lp64 ?F (static_types ?F) ex_first) (static_types ?F) [102] cc [] spec
           (fatptr lp64 4096) ?vs ex_world =
         (w2, if True \<and> errno w1' \<noteq> 0 then Inl (Unix_error (errno w1') (takeWhile (\<lambda>b. b \<noteq> 0) [102]))
              else value_of_bytes lp64 ?L (fn_ret ex_fn) bs)"
    by (elim exE conjE) (rule that; (assumption | simp))
  show ?thesis using first [OF *(2)] *(1,3,4) by (auto simp: ex_first_def passes_def encodes_def ex_fn_def)
qed

section \<open>Strings after a void argument\<close>

text \<open>The types of the two cases: the string is the last argument, or another follows.\<close>

lemma last_string_raises:
  assumes "platform_ok P" "oint_ok P disp" "vs = [Val_unit, OCamlRef P disp obj u]"
  shows "argwriter P L (rev (fn_writers P F 0 0 (Function Void (Function (OCaml u) (Returns t))) vs))
      (CTYPES_FROM_PTR P buf, [Val_unit]) w = (w, Inl (Invalid_argument ''index out of bounds''))"
  using OCamlRef_fields [OF assms(1,2)] by (simp add: assms(3) argwriter_def write_arg_def Let_def)

text \<open>What C is given in the second case: something for the string, and the string for the argument after it.\<close>

definition displaced :: "platform \<Rightarrow> ocaml_runtime \<Rightarrow> byte list \<Rightarrow> int \<Rightarrow> byte list list \<Rightarrow> bool" where
  "displaced P R s disp bss \<longleftrightarrow>
     length bss = 2 \<and> length (bss ! 0) = sizeof_ptr P \<and>
     bss ! 1 = enc P (sizeof_ptr P) (int (string_address R (String_block s)) + disp)"

lemma displaced_string_writes:
  assumes env: "libffi_types P F" "platform_ok P" "LDOUBLE_VALUE_BYTES P \<le> sizeof_ldouble P" "integers_ok L"
    and s: "oint_ok P disp" "u \<noteq> FloatArray"
    and q: "passable P q" "q \<noteq> Void" "type_repr P L q x" "type_bytes P q = sizeof_ptr P"
    and f: "f = Function Void (Function (OCaml u) (Function q (Returns t)))"
    and C: "call_ready P F T spec ats (fn_types P F f) ra r"
  shows "writes_slots P F R (fn_types P F f) r [None, Some (String_block s, disp)] (displaced P R s disp)
    (argwriter P L (rev (fn_writers P F 0 0 f [Val_unit, OCamlRef P disp (String_block s) u, x])))"
proof -
  let ?vs = "[Val_unit, OCamlRef P disp (String_block s) u, x]" and ?ts = "fn_types P F f"
  let ?mov = "[Val_unit, reference_field P (Some (String_block s, disp))]"
  have e: "elt_size P u = 1" using s(2) by (cases u) simp_all
  have qn: "\<not> ocaml_value q" "describable P q" using q(1) by (simp_all add: passable_def)
  note d = arg_type_ok [OF env(1,2)]
  have ts: "?ts = [ffi_desc P F (OCaml u), ffi_desc P F q]" using q(2) by (simp add: f)
  have sz: "ft_size (?ts ! 0) = sizeof_ptr P" "ft_size (?ts ! 1) = sizeof_ptr P"
    using d(7) [of "OCaml u"] d(7) [OF qn(2) q(2)] q(4) by (simp_all add: ts)
  obtain bs where bs: "length bs = type_bytes P q"
    "\<forall>m a. a < addr_limit P \<longrightarrow> write_value P L q x (fatptr P a) m = need Memory_fault (store_bytes m a bs)"
    using write_value_bytes [OF env(2-4) q(1,3)] by blast
  have 1: "length ?vs = length (fn_args f)" by (simp add: f)
  have 2: "put_refs P 0 (arg_refs P (fn_args f) ?vs) (replicate (length ?ts) Val_unit) = Inr ?mov"
    using OCamlRef_fields [OF env(2) s(1)] e qn(1) by (simp add: ts) (simp add: f arg_ref_none, simp add: arg_ref_def)
  have 3: "list_all2 (\<lambda>(t, v) bs. written P L t v bs) (zip (c_args f) (c_values f ?vs)) [[], bs]"
    using bs(2) qn(1) q(2) s(1) by (auto simp: f written_def)
  have 4: "length [[], bs] = length ?ts" "\<forall>i < length ?ts. length ([[], bs] ! i) \<le> ft_size (?ts ! i)"
    using sz bs(1) q(4) by (auto simp: ts less_Suc_eq)
  note runs = argwriter_runs [OF env(2) 1 2 3 C 4]
  show ?thesis
    unfolding writes_slots_def
  proof (intro allI impI)
    fix w :: c_world and buf
    assume a: "buf + array_offset F ?ts r < addr_limit P" "mapped (cmem w) buf (array_offset F ?ts r)"
    from runs [OF a] obtain m where m: "argwriter P L (rev (fn_writers P F 0 0 f ?vs))
        (CTYPES_FROM_PTR P buf, replicate (length ?ts) Val_unit) w = (w\<lparr>cmem := m\<rparr>, Inr ?mov)"
      "only_changes buf (array_offset F ?ts r) (cmem w) m"
      by blast
    have n: "0 < length ?ts" by (simp add: ts)
    have "layout 0 ?ts ! 0 + ft_size (?ts ! 0) \<le> array_offset F ?ts r"
      using ready_slots(2) [OF C n] ready_sizes(2,3) [OF C] by linarith
    then have "mapped (cmem w) (buf + layout 0 ?ts ! 0) (ft_size (?ts ! 0))" by (intro mapped_sub [OF a(2)]) simp_all
    then have "mapped m (buf + layout 0 ?ts ! 0) (ft_size (?ts ! 0))" using only_changesD(2) [OF m(2)] by simp
    then obtain b0 where b0: "load_bytes m (buf + layout 0 ?ts ! 0) (ft_size (?ts ! 0)) = Some b0"
      using load_bytes_mapped by blast
    let ?bss = "[b0, enc P (sizeof_ptr P) (int (string_address R (String_block s)) + disp)]"
    have "displaced P R s disp ?bss" using load_bytes_length [OF b0] sz(1) by (simp add: displaced_def)
    moreover have "references_ok P R ?ts [None, Some (String_block s, disp)] ?bss"
      using sz s(1) by (auto simp: references_ok_def ts less_Suc_eq)
    moreover have "\<forall>i < length ?ts. [None, Some (String_block s, disp)] ! i = None \<longrightarrow>
        load_bytes m (buf + layout 0 ?ts ! i) (ft_size (?ts ! i)) = Some (?bss ! i)"
      using b0 by (auto simp: ts less_Suc_eq)
    ultimately show "\<exists>m b. argwriter P L (rev (fn_writers P F 0 0 f ?vs))
          (CTYPES_FROM_PTR P buf, replicate (length ?ts) Val_unit) w =
          (w\<lparr>cmem := m\<rparr>, Inr (map (reference_field P) [None, Some (String_block s, disp)])) \<and>
        only_changes buf (array_offset F ?ts r) (cmem w) m \<and>
        displaced P R s disp b \<and> references_ok P R ?ts [None, Some (String_block s, disp)] b \<and>
        (\<forall>i < length ?ts. [None, Some (String_block s, disp)] ! i = None \<longrightarrow>
           load_bytes m (buf + layout 0 ?ts ! i) (ft_size (?ts ! i)) = Some (b ! i))"
      using m by (intro exI [of _ m] exI [of _ ?bss]) simp
  qed
qed

text \<open>
  C32: a string after a \<open>void\<close> argument.  The index that \<open>build_ccallspec\<close> gives the string counts the
  \<open>void\<close>, for which the array of OCaml objects that \<open>ctypes_call\<close> makes has no place.  Such functions are built without
  complaint; with no further argument every call raises an exception of the array, with the stack as it was, and
  whatever \<open>ffi_call\<close> does C is never reached; with a further argument of a pointer's size C is
  given the string in place of that argument, whose own value it never sees, and in place of the string some
  bytes that are not said.
\<close>

theorem string_after_void:
  assumes env: "libffi_types P F" "platform_ok P" "LDOUBLE_VALUE_BYTES P \<le> sizeof_ldouble P" "integers_ok L"
    and ffi: "accepts F abi" "Int_val P vabi = Inr abi" "0 < pointer_alignment F" "sizeof_ffi_arg F \<le> pointer_size F"
      "ffi_calls P F (static_types F) sem ffi_call"
    and s: "oint_ok P disp" "u \<noteq> FloatArray" "passable P t"
    and q: "passable P q" "q \<noteq> Void" "type_repr P L q x" "type_bytes P q = sizeof_ptr P"
    and f: "f1 = Function Void (Function (OCaml u) (Returns t))"
      "f2 = Function Void (Function (OCaml u) (Function q (Returns t)))"
    and fit: "fits P (buffer_size P F (fn_types P F f1) (ffi_desc P F t))"
      "fits P (buffer_size P F (fn_types P F f2) (ffi_desc P F t))"
    and wb: "\<forall>bss. displaced P R s disp bss \<longrightarrow> well_behaved False sem fn bss (type_bytes P t)"
    and fn: "fn < addr_limit P"
    and w: "lock_held w" "stack_ptr w < addr_limit P"
      "stack_limit R + buffer_size P F (fn_types P F f1) (ffi_desc P F t) + 16 \<le> stack_ptr w"
      "stack_limit R + buffer_size P F (fn_types P F f2) (ffi_desc P F t) + 3 * sizeof_ptr P + 32 \<le> stack_ptr w"
  shows "(\<exists>spec cc w'. function_of_pointer P F (static_types F) vabi False check f1 = Inr (spec, static_types F, cc) \<and>
      stack_ptr w' = stack_ptr w \<and>
      invoke P L F R any_call (static_types F) name cc [] spec (fatptr P fn)
        [Val_unit, OCamlRef P disp (String_block s) u] w = (w', Inl (Invalid_argument ''index out of bounds''))) \<and>
    (\<exists>spec cc bss w1 w2. function_of_pointer P F (static_types F) vabi False check f2 = Inr (spec, static_types F, cc) \<and>
      length bss = 2 \<and> bss ! 1 = enc P (sizeof_ptr P) (int (string_address R (String_block s)) + disp) \<and>
      (case sem fn bss w1 of (w1', bs) \<Rightarrow>
         invoke P L F R ffi_call (static_types F) name cc [] spec (fatptr P fn)
             [Val_unit, OCamlRef P disp (String_block s) u, x] w =
           (w2, if check \<and> errno w1' \<noteq> 0 then Inl (Unix_error (errno w1') (takeWhile (\<lambda>b. b \<noteq> 0) name))
                else value_of_bytes P L t bs)))"
proof
  let ?T = "static_types F"
  have fd: "fn_describable P f1" "fn_describable P f2" "fn_ret f1 = t" "fn_ret f2 = t"
    using s(3) q(1) by (simp_all add: f passable_def)
  note built = build_function_ok [OF env(1,2) ffi(1-4), where lock = False and check = check]
  obtain spec where spec: "build_function P F ?T vabi False check f1 = Inr (spec, ?T, layout_ccallspec P F 0 0 f1)"
    "call_ready P F ?T spec (fn_addrs P F f1) (fn_types P F f1) (ffi_addr P F t) (ffi_desc P F t)"
    using built [OF fd(1)] fit(1) unfolding fd(3) by blast
  let ?vs = "[Val_unit, OCamlRef P disp (String_block s) u]"
  have n: "length (fn_types P F f1) = 1" "length ?vs = length (fn_args f1)" by (simp_all add: f)
  have wr: "argwriter P L (rev (fn_writers P F 0 0 f1 ?vs)) (CTYPES_FROM_PTR P buf, replicate (length (fn_types P F f1)) Val_unit) w' =
      (w', Inl (Invalid_argument ''index out of bounds''))" for buf w'
    using last_string_raises [OF env(2) s(1) refl] n(1) by (simp add: f(1) del: fn_writers.simps rev.simps)
  from prepare_call_raises [where writer = "argwriter P L (rev (fn_writers P F 0 0 f1 ?vs))", OF spec(2) wr w(1-3)] obtain m sp where
    "prepare_call P F R ?T spec (argwriter P L (rev (fn_writers P F 0 0 f1 ?vs))) w =
      (w\<lparr>cmem := m, stack_ptr := sp\<rparr>, Inl (Invalid_argument ''index out of bounds''))"
    by blast
  moreover have "state spec = CALLSPEC" using spec(2) by (simp add: call_ready_def)
  ultimately have "invoke P L F R any_call ?T name (layout_ccallspec P F 0 0 f1) [] spec (fatptr P fn) ?vs w =
      (w\<lparr>cmem := m\<rparr>, Inl (Invalid_argument ''index out of bounds''))"
    unfolding invoke_collects [OF n(2)] by (simp add: ctypes_call_def in_frame_def)
  then show "\<exists>spec cc w'. function_of_pointer P F ?T vabi False check f1 = Inr (spec, ?T, cc) \<and> stack_ptr w' = stack_ptr w \<and>
      invoke P L F R any_call ?T name cc [] spec (fatptr P fn) ?vs w = (w', Inl (Invalid_argument ''index out of bounds''))"
    using spec(1) by (intro exI [of _ spec] exI [of _ "layout_ccallspec P F 0 0 f1"] exI [of _ "w\<lparr>cmem := m\<rparr>"])
      (simp add: function_of_pointer_def)
next
  let ?T = "static_types F" and ?vs = "[Val_unit, OCamlRef P disp (String_block s) u, x]"
  have fd: "fn_describable P f2" "fn_ret f2 = t" "length ?vs = length (fn_args f2)"
    using s(3) q(1) by (simp_all add: f passable_def)
  obtain spec where spec: "build_function P F ?T vabi False check f2 = Inr (spec, ?T, layout_ccallspec P F 0 0 f2)"
    "call_ready P F ?T spec (fn_addrs P F f2) (fn_types P F f2) (ffi_addr P F (fn_ret f2)) (ffi_desc P F (fn_ret f2))"
    "spec_context spec = \<lparr>check_errno = check, runtime_lock = False, thread_registration = False\<rparr>"
    using build_function_ok [OF env(1,2) ffi(1-4) fd(1), of False check] fit(2) unfolding fd(2) by blast
  note W = displaced_string_writes [OF env s(1,2) q f(2) spec(2), of R s]
  have st: "stack_limit R + buffer_size P F (fn_types P F f2) (ffi_desc P F (fn_ret f2)) + length ?vs * sizeof_ptr P + 32 \<le> stack_ptr w"
    using w(4) by (simp add: fd(2))
  from invoke_with_writers [OF env(1,2) ffi(5) spec(2,3) fd(1,3) W wb [folded fd(2)] fn w(1,2) st, of name]
  obtain bss w1 w2 where "displaced P R s disp bss" "case sem fn bss w1 of (w1', bs) \<Rightarrow>
       invoke P L F R ffi_call ?T name (layout_ccallspec P F 0 0 f2) [] spec (fatptr P fn) ?vs w =
         (w2, if check \<and> errno w1' \<noteq> 0 then Inl (Unix_error (errno w1') (takeWhile (\<lambda>b. b \<noteq> 0) name))
              else value_of_bytes P L t bs)"
    unfolding fd(2) by (elim exE conjE) (rule that)
  then show "\<exists>spec cc bss w1 w2. function_of_pointer P F ?T vabi False check f2 = Inr (spec, ?T, cc) \<and>
      length bss = 2 \<and> bss ! 1 = enc P (sizeof_ptr P) (int (string_address R (String_block s)) + disp) \<and>
      (case sem fn bss w1 of (w1', bs) \<Rightarrow>
         invoke P L F R ffi_call ?T name cc [] spec (fatptr P fn) ?vs w =
           (w2, if check \<and> errno w1' \<noteq> 0 then Inl (Unix_error (errno w1') (takeWhile (\<lambda>b. b \<noteq> 0) name))
                else value_of_bytes P L t bs))"
    using spec(1) by (intro exI [of _ spec] exI [of _ "layout_ccallspec P F 0 0 f2"] exI [of _ bss] exI [of _ w1] exI [of _ w2])
      (simp add: function_of_pointer_def displaced_def)
qed

text \<open>A function that returns its last argument, a pointer: the string's address comes back for the pointer 64.\<close>

definition ex_last :: c_functions where
  "ex_last fn bss w = (w, bss ! 1)"

lemma ex_pointers_size:
  assumes "fn_types lp64 (example_libffi lp64) f = replicate n (ffi_type_desc (example_libffi lp64) Ft_pointer)"
    and "n = 1 \<or> n = 2"
  shows "buffer_size lp64 (example_libffi lp64) (fn_types lp64 (example_libffi lp64) f)
     (ffi_desc lp64 (example_libffi lp64) Pointer) = 16 * n + 16"
proof -
  have ptr: "pointer_alignment (example_libffi lp64) = 8" "pointer_size (example_libffi lp64) = 8"
    by (simp_all add: pointer_alignment_def pointer_size_def example_libffi_def)
  have d: "ffi_desc lp64 (example_libffi lp64) Pointer = ffi_type_desc (example_libffi lp64) Ft_pointer"
    by (rule ex_desc(2)) simp
  show ?thesis
    using assms(2) unfolding assms(1) d
    by (auto simp: numeral_2_eq_2 buffer_size_def array_offset_def scratch_size_def ret_offset_def ptr)
      (simp_all add: example_libffi_def align_up_def)
qed

theorem string_after_void_witness:
  "\<exists>spec cc. function_of_pointer lp64 (example_libffi lp64) (static_types (example_libffi lp64)) (Val_int lp64 2) False False
       (Function Void (Function (OCaml String) (Function Pointer (Returns Pointer)))) =
       Inr (spec, static_types (example_libffi lp64), cc) \<and>
     snd (invoke lp64 (boxed_integers lp64) (example_libffi lp64) ex_runtime
       (reference_ffi_call lp64 (example_libffi lp64) (static_types (example_libffi lp64)) ex_last)
       (static_types (example_libffi lp64)) [] cc [] spec (fatptr lp64 4096)
       [Val_unit, OCamlRef lp64 1 (String_block [104, 105]) String, CPointer (fatptr lp64 64)] ex_world) =
       Inr (CPointer (fatptr lp64 8193))"
proof -
  let ?F = "example_libffi lp64" and ?L = "boxed_integers lp64"
  let ?f1 = "Function Void (Function (OCaml String) (Returns Pointer))"
  let ?f2 = "Function Void (Function (OCaml String) (Function Pointer (Returns Pointer)))"
  have z: "oint_ok lp64 1" "String \<noteq> FloatArray" by (simp_all add: oint_ok_bit)
  have p: "passable lp64 Pointer" "Pointer \<noteq> Void" "type_repr lp64 ?L Pointer (CPointer (fatptr lp64 64))"
    "type_bytes lp64 Pointer = sizeof_ptr lp64"
    by (auto simp: passable_def intro!: exI [of _ 64])
  have ts: "fn_types lp64 ?F ?f1 = replicate 1 (ffi_type_desc ?F Ft_pointer)"
    "fn_types lp64 ?F ?f2 = replicate 2 (ffi_type_desc ?F Ft_pointer)"
    using ex_desc(2) [of "OCaml String" String] ex_desc(2) [of Pointer String] by (simp_all add: numeral_2_eq_2)
  have size: "buffer_size lp64 ?F (fn_types lp64 ?F ?f1) (ffi_desc lp64 ?F Pointer) = 32"
    "buffer_size lp64 ?F (fn_types lp64 ?F ?f2) (ffi_desc lp64 ?F Pointer) = 48"
    using ex_pointers_size [OF ts(1)] ex_pointers_size [OF ts(2)] by simp_all
  have fit: "fits lp64 (buffer_size lp64 ?F (fn_types lp64 ?F ?f1) (ffi_desc lp64 ?F Pointer))"
    "fits lp64 (buffer_size lp64 ?F (fn_types lp64 ?F ?f2) (ffi_desc lp64 ?F Pointer))"
    unfolding size by (simp_all add: fits_lp64)
  have wb: "\<forall>bss. displaced lp64 ex_runtime [104, 105] 1 bss \<longrightarrow>
      well_behaved False ex_last 4096 bss (type_bytes lp64 Pointer)"
    by (simp add: displaced_def well_behaved_def ex_last_def)
  have w: "lock_held ex_world" "stack_ptr ex_world < addr_limit lp64"
    "stack_limit ex_runtime + buffer_size lp64 ?F (fn_types lp64 ?F ?f1) (ffi_desc lp64 ?F Pointer) + 16 \<le> stack_ptr ex_world"
    "stack_limit ex_runtime + buffer_size lp64 ?F (fn_types lp64 ?F ?f2) (ffi_desc lp64 ?F Pointer) + 3 * sizeof_ptr lp64 + 32
       \<le> stack_ptr ex_world"
    unfolding size by (simp_all add: ex_world_def ex_runtime_def)
  have fn: "4096 < addr_limit lp64" by simp
  let ?bs = "enc lp64 8 8193"
  have "load_bytes (bytes_mem ?bs) 0 8 = Some ?bs" using load_bytes_mem [of ?bs] by simp
  then have v: "value_of_bytes lp64 ?L Pointer ?bs = Inr (CPointer (fatptr lp64 8193))"
    by (simp add: value_of_bytes_def ctypes_read_pointer_def load_u_def codec uwrap_def)
  have a: "int (string_address ex_runtime (String_block [104, 105])) + 1 = 8193" by (simp add: ex_runtime_def)
  from string_after_void [where check = False and name = "[]", OF example_lp64.libffi_types_axioms platform_ok_lp64 ex_env(1)
      boxed_lp64.ok ex_env(2-5) reference_ffi_call_ok
      z p(1) p refl refl fit wb fn w, THEN conjunct2]
  obtain spec cc bss w1 w2 where *: "function_of_pointer lp64 ?F (static_types ?F) (Val_int lp64 2) False False ?f2 = Inr (spec, static_types ?F, cc)"
    "bss ! 1 = enc lp64 (sizeof_ptr lp64) (int (string_address ex_runtime (String_block [104, 105])) + 1)"
    "case ex_last 4096 bss w1 of (w1', bs) \<Rightarrow>
       invoke lp64 ?L ?F ex_runtime (reference_ffi_call lp64 ?F (static_types ?F) ex_last) (static_types ?F) [] cc [] spec
           (fatptr lp64 4096) [Val_unit, OCamlRef lp64 1 (String_block [104, 105]) String, CPointer (fatptr lp64 64)] ex_world =
         (w2, if False \<and> errno w1' \<noteq> 0 then Inl (Unix_error (errno w1') (takeWhile (\<lambda>b. b \<noteq> 0) []))
              else value_of_bytes lp64 ?L Pointer bs)"
    by (elim exE conjE) (rule that)
  have "bss ! 1 = ?bs" using *(2) unfolding a by simp
  then show ?thesis using *(1,3) v by (auto simp: ex_last_def)
qed

end
