(* ===== verification/Ffi_Closure.thy ===== *)
theory Ffi_Closure
  imports Ffi_Call
begin

text \<open>
  The other half of \<open>src/ctypes-foreign/ffi_call_stubs.c\<close>: OCaml functions as C function pointers.
  A closure holds the key of an OCaml function; when C calls its code, libffi runs
  \<open>callback_handler\<close>, which looks the function up, applies it to the arguments one by one and
  widens the result the way libffi's closures require.
\<close>

section \<open>Boxed functions\<close>

text \<open>\<open>boxedfn\<close> of \<open>ctypes_ffi_stubs.ml\<close>: a function waiting for an argument, or for the place of its result.\<close>

datatype boxedfn =
    Done "value \<Rightarrow> c_world \<Rightarrow> c_world \<times> (fault + value)"
  | Fn "value \<Rightarrow> c_world \<Rightarrow> c_world \<times> (fault + boxedfn)"

section \<open>Looking functions up\<close>

text \<open>The faults that are OCaml exceptions; the others end the program.\<close>

fun is_exception :: "fault \<Rightarrow> bool" where
  "is_exception Memory_fault = False"
| "is_exception Division_trap = False"
| "is_exception Ill_typed = False"
| "is_exception Conversion_trap = False"
| "is_exception Not_compiled = False"
| "is_exception Assert_failure = False"
| "is_exception e = True"

type_synonym retriever = "int \<Rightarrow> boxedfn act"

definition ctypes_set_closure_callback :: "retriever \<Rightarrow> retriever option \<Rightarrow> retriever option \<times> value" where
  "ctypes_set_closure_callback retrieve old = (Some retrieve, Val_unit)"

definition retrieve_closure :: "retriever option \<Rightarrow> int \<Rightarrow> boxedfn act" where
  "retrieve_closure cb key w =
     (case cb of
        None \<Rightarrow> (w, Inl Memory_fault)
      | Some f \<Rightarrow>
          (case caml_callback f key w of
             (w', Inl e) \<Rightarrow> (w', Inl (if is_exception e then CallToExpiredClosure else e))
           | (w', Inr b) \<Rightarrow> (w', Inr b)))"

text \<open>Threads can register only when the threads library is linked.\<close>

definition ctypes_thread_register_fail :: "unit act" where
  "ctypes_thread_register_fail w =
     (w, Inl (Failure ''ctypes_thread_register unavailable: please link with the threads library''))"

section \<open>The callback handler\<close>

fun apply_boxed :: "boxedfn \<Rightarrow> value \<Rightarrow> boxedfn act" where
  "apply_boxed (Fn f) v = caml_callback f v"
| "apply_boxed (Done f) v = lift (Inl Assert_failure)"

definition load_ptr :: "platform \<Rightarrow> nat \<Rightarrow> nat act" where
  "load_ptr P a w = (w, map_sum id nat (load_u P (cmem w) a (sizeof_ptr P)))"

primrec apply_args :: "platform \<Rightarrow> nat \<Rightarrow> nat \<Rightarrow> nat \<Rightarrow> boxedfn \<Rightarrow> boxedfn act" where
  "apply_args P av i 0 b = ret b"
| "apply_args P av i (Suc n) b =
     bindA (load_ptr P (av + i * sizeof_ptr P)) (\<lambda>cvalue.
     bindA (apply_boxed b (CTYPES_FROM_PTR P cvalue)) (apply_args P av (Suc i) n))"

text \<open>The small integer types, read at their own type; \<open>None\<close> is the switch's default.\<close>

fun small_result :: "platform \<Rightarrow> ffi_kind \<Rightarrow> (bool \<times> nat) option" where
  "small_result P FFI_TYPE_INT = Some (True, sizeof_int P)"
| "small_result P FFI_TYPE_UINT8 = Some (False, 1)"
| "small_result P FFI_TYPE_SINT8 = Some (True, 1)"
| "small_result P FFI_TYPE_UINT16 = Some (False, 2)"
| "small_result P FFI_TYPE_SINT16 = Some (True, 2)"
| "small_result P FFI_TYPE_UINT32 = Some (False, 4)"
| "small_result P FFI_TYPE_SINT32 = Some (True, 4)"
| "small_result P FFI_TYPE_UINT64 = Some (False, 8)"
| "small_result P FFI_TYPE_SINT64 = Some (True, 8)"
| "small_result P _ = None"

definition promote_result :: "platform \<Rightarrow> libffi \<Rightarrow> ffi_type \<Rightarrow> nat \<Rightarrow> memory \<Rightarrow> memory result" where
  "promote_result P F r retp m =
     (if ft_size r < sizeof_ffi_arg F then
        (case small_result P (ft_type r) of
           None \<Rightarrow> Inr m
         | Some (s, n) \<Rightarrow>
             bindR (if s then load_s P m retp n else load_u P m retp n) (store_int P m retp (sizeof_ffi_arg F)))
      else Inr m)"

definition callback_handler_with_lock ::
    "platform \<Rightarrow> libffi \<Rightarrow> ffi_types \<Rightarrow> retriever option \<Rightarrow> ffi_cif \<Rightarrow> nat \<Rightarrow> nat \<Rightarrow> int \<Rightarrow> unit act" where
  "callback_handler_with_lock P F T cb c retp av key =
     bindA (retrieve_closure cb key) (\<lambda>b.
     bindA (if cif_nargs c = 0 then apply_boxed b Val_unit else apply_args P av 0 (cif_nargs c) b) (\<lambda>b'.
       case b' of
         Fn f \<Rightarrow> lift (Inl Assert_failure)
       | Done f \<Rightarrow>
           bindA (caml_callback f (CTYPES_FROM_PTR P retp)) (\<lambda>_.
           bindA (lift (need Memory_fault (T (cif_rtype c)))) (\<lambda>r.
             on_mem (promote_result P F r retp)))))"

record closure =
  fnkey :: int
  closure_context :: call_context
  fnptr :: nat

text \<open>An exception leaves the handler at once: the lock is not released.\<close>

definition callback_handler ::
    "platform \<Rightarrow> libffi \<Rightarrow> ocaml_runtime \<Rightarrow> ffi_types \<Rightarrow> retriever option \<Rightarrow> unit act \<Rightarrow> ffi_cif \<Rightarrow> nat \<Rightarrow> nat \<Rightarrow> closure \<Rightarrow> unit act" where
  "callback_handler P F R T cb ctypes_thread_register c retp av cl =
     bindA (if thread_registration (closure_context cl) then ctypes_thread_register else ret ()) (\<lambda>_.
     bindA (if runtime_lock (closure_context cl) then caml_acquire_runtime_system R else ret ()) (\<lambda>_.
     bindA (callback_handler_with_lock P F T cb c retp av (fnkey cl)) (\<lambda>_.
       if runtime_lock (closure_context cl) then caml_release_runtime_system R else ret ())))"

section \<open>Function pointers\<close>

text \<open>
  The closures that are allocated, and the code that \<open>ffi_prep_closure_loc\<close> has bound to one
  with its call interface.  \<open>closure_alloc\<close> gives the addresses of a new closure and its code.
\<close>

record closure_state =
  closures :: "nat \<Rightarrow> closure option"
  bound :: "nat \<Rightarrow> (nat \<times> ffi_cif) option"

record closure_lib =
  closure_alloc :: "closure_state \<Rightarrow> (nat \<times> nat) option"
  prep_closure_loc :: "closure_state \<Rightarrow> nat \<Rightarrow> ffi_cif \<Rightarrow> ffi_status"

definition ctypes_make_function_pointer ::
    "closure_lib \<Rightarrow> callspec \<Rightarrow> value \<Rightarrow> closure_state \<Rightarrow> (closure_state \<times> value result) result" where
  "ctypes_make_function_pointer CL spec fnid st =
     (if state spec \<noteq> CALLSPEC then Inl Assert_failure
      else
        case closure_alloc CL st of
          None \<Rightarrow> Inr (st, Inl Out_of_memory)
        | Some (a, code) \<Rightarrow>
            bindR (Long_val fnid) (\<lambda>key.
            bindR (need Memory_fault (cif spec)) (\<lambda>c.
            let st1 = st\<lparr>closures := (closures st)(a \<mapsto> \<lparr>fnkey = key, closure_context = spec_context spec, fnptr = code\<rparr>)\<rparr>;
                status = prep_closure_loc CL st1 a c;
                st2 = (if status = FFI_OK then st1\<lparr>bound := (bound st1)(code \<mapsto> (a, c))\<rparr> else st1)
            in case ctypes_check_ffi_status status of
                 Inl e \<Rightarrow> Inr (st2, Inl e)
               | Inr u \<Rightarrow> Inr (st2, Inr (Custom_ptr ''ocaml-ctypes:closure'' a)))))"

definition ctypes_raw_address_of_function_pointer :: "platform \<Rightarrow> value \<Rightarrow> closure_state \<Rightarrow> value result" where
  "ctypes_raw_address_of_function_pointer P v st =
     bindR (Custom_addr ''ocaml-ctypes:closure'' v) (\<lambda>a.
     bindR (need Memory_fault (closures st a)) (\<lambda>cl. Inr (CTYPES_FROM_PTR P (fnptr cl))))"

text \<open>\<open>ffi_closure_free\<close> gives back the closure and the code bound to it.\<close>

definition finalize_closure :: "value \<Rightarrow> closure_state \<Rightarrow> closure_state result" where
  "finalize_closure v st =
     bindR (Custom_addr ''ocaml-ctypes:closure'' v) (\<lambda>a.
     bindR (need Memory_fault (closures st a)) (\<lambda>cl.
       Inr (st\<lparr>closures := (closures st)(a := None),
               bound := (\<lambda>x. case bound st x of Some (b, c) \<Rightarrow> if b = a then None else Some (b, c) | None \<Rightarrow> None)\<rparr>)))"

text \<open>C calls the code at an address: libffi runs the handler with the closure bound to it.\<close>

definition call_code ::
    "platform \<Rightarrow> libffi \<Rightarrow> ocaml_runtime \<Rightarrow> ffi_types \<Rightarrow> retriever option \<Rightarrow> unit act \<Rightarrow> closure_state \<Rightarrow> nat \<Rightarrow> nat \<Rightarrow> nat \<Rightarrow> unit act" where
  "call_code P F R T cb reg st code retp av =
     bindA (lift (need Memory_fault (bound st code))) (\<lambda>(a, c).
     bindA (lift (need Memory_fault (closures st a))) (\<lambda>cl.
       callback_handler P F R T cb reg c retp av cl))"

end
