(* ===== verification/Closure_Registry.thy ===== *)
theory Closure_Registry
  imports Ffi_Closure
begin

text \<open>
  The registry of OCaml functions that C can call (\<open>src/ctypes-foreign/ctypes_closure_properties.ml\<close>):
  the interface \<open>closure_registry\<close> that the lookup of \<open>ffi_call_stubs.c\<close> relies on, its provider, and
  what follows for callbacks: a registered function is found under its identifier
  until its finaliser has run, whatever else is registered or finalised meanwhile.
\<close>

section \<open>The registry of functions\<close>

text \<open>
  \<open>ctypes_closure_properties.ml\<close>: \<open>by_id\<close> maps identifiers to boxed functions, \<open>by_function\<close> the
  functions that cannot be finalised to the identifier they were given first.  Identifiers
  are fresh.  \<open>'f\<close> stands for the OCaml functions, compared by address.
\<close>

record ('f, 'b) registry =
  by_id :: "int \<Rightarrow> 'b option"
  by_function :: "'f \<Rightarrow> int option"
  next_id :: int

definition empty_registry :: "('f, 'b) registry" where
  "empty_registry = \<lparr>by_id = Map.empty, by_function = Map.empty, next_id = 0\<rparr>"

text \<open>\<open>record\<close>: a closure (\<open>finalisable\<close>) always gets a new entry, a static function one for ever.\<close>

definition record_function :: "bool \<Rightarrow> 'f \<Rightarrow> 'b \<Rightarrow> ('f, 'b) registry \<Rightarrow> ('f, 'b) registry \<times> int" where
  "record_function finalisable f b s =
     (let key = next_id s; s1 = s\<lparr>next_id := key + 1\<rparr>
      in if finalisable then (s1\<lparr>by_id := (by_id s1)(key \<mapsto> b)\<rparr>, key)
         else case by_function s1 f of
                Some key0 \<Rightarrow> (s1, key0)
              | None \<Rightarrow> (s1\<lparr>by_function := (by_function s1)(f \<mapsto> key), by_id := (by_id s1)(key \<mapsto> b)\<rparr>, key))"

definition retrieve :: "int \<Rightarrow> ('f, 'b) registry \<Rightarrow> 'b result" where
  "retrieve key s = need Not_found (by_id s key)"

definition finalise :: "int \<Rightarrow> ('f, 'b) registry \<Rightarrow> ('f, 'b) registry" where
  "finalise key s = s\<lparr>by_id := (by_id s)(key := None)\<rparr>"

definition registry_ok :: "('f, 'b) registry \<Rightarrow> bool" where
  "registry_ok s \<longleftrightarrow> (\<forall>k. by_id s k \<noteq> None \<longrightarrow> k < next_id s) \<and> (\<forall>f k. by_function s f = Some k \<longrightarrow> k < next_id s)"

section \<open>The interface\<close>

datatype ('f, 'b) registry_op = Record bool 'f 'b | Finalise int

locale closure_registry =
  fixes rec :: "bool \<Rightarrow> 'f \<Rightarrow> 'b \<Rightarrow> 's \<Rightarrow> 's \<times> int"
    and find :: "int \<Rightarrow> 's \<Rightarrow> 'b result"
    and fin :: "int \<Rightarrow> 's \<Rightarrow> 's"
    and ok :: "'s \<Rightarrow> bool"
  assumes ok_rec: "ok s \<Longrightarrow> ok (fst (rec z f b s))"
    and ok_fin: "ok s \<Longrightarrow> ok (fin k s)"
    and find_new: "ok s \<Longrightarrow> find (snd (rec True f b s)) (fst (rec True f b s)) = Inr b"
    and find_old: "ok s \<Longrightarrow> find k s = Inr c \<Longrightarrow> find k (fst (rec z f b s)) = Inr c"
    and find_fin: "find k (fin k s) = Inl Not_found"
    and find_other: "j \<noteq> k \<Longrightarrow> find j (fin k s) = find j s"
    and new_id: "ok s \<Longrightarrow> find k s = Inr c \<Longrightarrow> snd (rec True f b s) \<noteq> k"
begin

primrec run_op :: "('f, 'b) registry_op \<Rightarrow> 's \<Rightarrow> 's" where
  "run_op (Record z f b) s = fst (rec z f b s)"
| "run_op (Finalise k) s = fin k s"

definition run_ops :: "('f, 'b) registry_op list \<Rightarrow> 's \<Rightarrow> 's" where
  "run_ops ops s = fold run_op ops s"

lemma run_ops_simps [simp]: "run_ops [] s = s" "run_ops (x # xs) s = run_ops xs (run_op x s)"
  by (simp_all add: run_ops_def)

lemma ok_run: "ok s \<Longrightarrow> ok (run_ops ops s)"
proof (induction ops arbitrary: s)
  case (Cons x xs)
  then show ?case by (cases x) (simp_all add: ok_rec ok_fin)
qed simp

lemma found_until_finalised:
  "ok s \<Longrightarrow> find k s = Inr c \<Longrightarrow> Finalise k \<notin> set ops \<Longrightarrow> find k (run_ops ops s) = Inr c"
proof (induction ops arbitrary: s)
  case (Cons x xs)
  have "ok (run_op x s)" using Cons.prems(1) by (cases x) (simp_all add: ok_rec ok_fin)
  moreover have "find k (run_op x s) = Inr c"
    using Cons.prems by (cases x) (auto simp: find_old find_other)
  ultimately show ?case using Cons.IH Cons.prems(3) by simp
qed simp

lemma live:
  assumes "ok s" "Finalise (snd (rec True f b s)) \<notin> set ops"
  shows "find (snd (rec True f b s)) (run_ops ops (fst (rec True f b s))) = Inr b"
  by (rule found_until_finalised) (use assms in \<open>simp_all add: ok_rec find_new\<close>)

end

section \<open>The provider\<close>

lemma registry_ok_new: "registry_ok s \<Longrightarrow> by_id s k \<noteq> None \<Longrightarrow> k < next_id s"
  by (simp add: registry_ok_def)

lemma record_function_ok: "registry_ok s \<Longrightarrow> registry_ok (fst (record_function z f b s))"
  by (auto simp: registry_ok_def record_function_def Let_def split: option.splits) fastforce+

interpretation reg: closure_registry record_function retrieve finalise registry_ok
proof
  show "registry_ok s \<Longrightarrow> registry_ok (fst (record_function z f b s))"
    for s :: "('f, 'b) registry" and z f b
    by (rule record_function_ok)
  show "registry_ok s \<Longrightarrow> registry_ok (finalise k s)" for s :: "('f, 'b) registry" and k
    by (auto simp: registry_ok_def finalise_def)
  show "registry_ok s \<Longrightarrow> retrieve k s = Inr c \<Longrightarrow> retrieve k (fst (record_function z f b s)) = Inr c"
    for s :: "('f, 'b) registry" and k c z f b
    by (auto simp: retrieve_def record_function_def Let_def dest!: registry_ok_new split: option.splits)
  show "registry_ok s \<Longrightarrow> retrieve k s = Inr c \<Longrightarrow> snd (record_function True f b s) \<noteq> k"
    for s :: "('f, 'b) registry" and k c f b
    by (auto simp: retrieve_def record_function_def Let_def dest!: registry_ok_new)
qed (simp_all add: retrieve_def record_function_def finalise_def Let_def)

section \<open>Static functions\<close>

lemma by_function_kept: "by_function s f = Some k \<Longrightarrow> by_function (reg.run_ops ops s) f = Some k"
proof (induction ops arbitrary: s)
  case (Cons x xs)
  have "by_function (reg.run_op x s) f = Some k"
    using Cons.prems by (cases x) (auto simp: record_function_def finalise_def Let_def split: option.split)
  then show ?case using Cons.IH by simp
qed simp

text \<open>
  C23: a function that cannot be finalised keeps its first boxing for ever: recording it again, with
  any other boxed function (for another C type), returns the first identifier, under which the
  first boxed function is found, as long as nothing finalises that identifier.
\<close>

theorem static_function_keeps_first_boxing:
  assumes "registry_ok s" "by_function s f = None" "record_function False f b1 s = (s1, k1)"
    and "Finalise k1 \<notin> set ops" "record_function False f b2 (reg.run_ops ops s1) = (s2, k2)"
  shows "k2 = k1 \<and> retrieve k2 s2 = Inr b1"
proof -
  have s1: "registry_ok s1" "by_function s1 f = Some k1" "retrieve k1 s1 = Inr b1"
    using assms(2,3) record_function_ok [OF assms(1), of False f b1]
    by (auto simp: record_function_def retrieve_def Let_def)
  have "retrieve k1 (reg.run_ops ops s1) = Inr b1" by (rule reg.found_until_finalised [OF s1(1,3) assms(4)])
  then show ?thesis
    using by_function_kept [OF s1(2), of ops] assms(5) by (auto simp: record_function_def retrieve_def Let_def)
qed

theorem static_function_keeps_first_boxing_witness:
  "retrieve 0 (fst (record_function False (5 :: nat) ''double'' (fst (record_function False 5 ''int'' empty_registry)))) =
    Inr ''int''"
proof -
  have r: "registry_ok (empty_registry :: (nat, string) registry)" by (simp add: registry_ok_def empty_registry_def)
  have n: "by_function (empty_registry :: (nat, string) registry) 5 = None" by (simp add: empty_registry_def)
  define s1 where "s1 = fst (record_function False (5 :: nat) ''int'' empty_registry)"
  have s1: "record_function False (5 :: nat) ''int'' empty_registry = (s1, 0)"
    by (simp add: s1_def record_function_def empty_registry_def Let_def)
  define s2 k2 where "s2 = fst (record_function False 5 ''double'' s1)" and "k2 = snd (record_function False 5 ''double'' s1)"
  have f: "Finalise 0 \<notin> set []" by simp
  have "record_function False 5 ''double'' (reg.run_ops [] s1) = (s2, k2)" by (simp add: s2_def k2_def)
  from static_function_keeps_first_boxing [OF r n s1 f this] show ?thesis
    by (auto simp: s2_def s1_def)
qed

end
