(* ===== verification/Ffi_Closure_Correct.thy ===== *)
theory Ffi_Closure_Correct
  imports Closure_Registry Ffi_Call_Correct
begin

text \<open>
  Correctness of callbacks: the OCaml function registered for a closure is applied to C's
  arguments in order, a function that is gone raises \<open>CallToExpiredClosure\<close>, the result is
  widened as libffi expects, the runtime lock is balanced unless an exception escapes, and the
  life of a function pointer.
\<close>

section \<open>Calling back\<close>

text \<open>\<open>box_function\<close> of \<open>ctypes_ffi.ml\<close>: collects \<open>n\<close> arguments, then waits for the place of the result.\<close>

primrec box :: "nat \<Rightarrow> (value list \<Rightarrow> value \<Rightarrow> value act) \<Rightarrow> value list \<Rightarrow> boxedfn" where
  "box 0 f acc = Done (f acc)"
| "box (Suc n) f acc = Fn (\<lambda>v w. (w, Inr (box n f (acc @ [v]))))"

text \<open>The array of argument pointers that C passes.\<close>

definition arg_pointers :: "platform \<Rightarrow> memory \<Rightarrow> nat \<Rightarrow> nat list \<Rightarrow> bool" where
  "arg_pointers P m av ps \<longleftrightarrow>
     (\<forall>i < length ps. load_u P m (av + i * sizeof_ptr P) (sizeof_ptr P) = Inr (int (ps ! i)))"

lemma apply_args_box:
  assumes "\<forall>j < length ps. load_u P (cmem w) (av + (i + j) * sizeof_ptr P) (sizeof_ptr P) = Inr (int (ps ! j))"
    "lock_held w"
  shows "apply_args P av i (length ps) (box (length ps) f acc) w =
    (w, Inr (Done (f (acc @ map (CTYPES_FROM_PTR P) ps))))"
  using assms(1)
proof (induction ps arbitrary: i acc)
  case (Cons p ps)
  have "load_u P (cmem w) (av + i * sizeof_ptr P) (sizeof_ptr P) = Inr (int p)"
    using Cons.prems [rule_format, of 0] by simp
  moreover have "\<forall>j < length ps. load_u P (cmem w) (av + (Suc i + j) * sizeof_ptr P) (sizeof_ptr P) = Inr (int (ps ! j))"
    using Cons.prems by (auto dest: spec [of _ "Suc _"])
  ultimately show ?case
    using Cons.IH [of "Suc i" "acc @ [CTYPES_FROM_PTR P p]"] assms(2)
    by (simp add: load_ptr_def caml_callback_def)
qed simp

definition lookup_in :: "('f, boxedfn) registry \<Rightarrow> retriever option" where
  "lookup_in s = Some (\<lambda>key w. (w, retrieve key s))"

lemma handler_live:
  assumes "retrieve key s = Inr (box (max 1 n) f [])" "lock_held w" "arg_pointers P (cmem w) av ps"
    "cif_nargs c = n" "length ps = n" "T (cif_rtype c) = Some r"
  shows "callback_handler_with_lock P F T (lookup_in s) c retp av key w =
    bindA (caml_callback (f (if n = 0 then [Val_unit] else map (CTYPES_FROM_PTR P) ps)) (CTYPES_FROM_PTR P retp))
      (\<lambda>u. on_mem (promote_result P F r retp)) w"
proof -
  have r: "retrieve_closure (lookup_in s) key w = (w, Inr (box (max 1 n) f []))"
    using assms(1,2) by (simp add: retrieve_closure_def lookup_in_def caml_callback_def)
  show ?thesis
  proof (cases n)
    case 0
    then show ?thesis
      using r assms(2,4,6) by (simp add: callback_handler_with_lock_def caml_callback_def)
  next
    case (Suc k)
    then have "max 1 n = length ps" using assms(5) by simp
    moreover have "apply_args P av 0 (length ps) (box (length ps) f []) w =
        (w, Inr (Done (f (map (CTYPES_FROM_PTR P) ps))))"
      using apply_args_box [of ps P w av 0 f "[]"] assms(2,3) by (simp add: arg_pointers_def)
    ultimately show ?thesis
      using r assms(4-6) Suc by (simp add: callback_handler_with_lock_def)
  qed
qed

text \<open>
  C6: a callback runs the function it was made for: after an OCaml closure has been recorded, and
  whatever other functions have been recorded or finalised since, the handler applies exactly
  that function to the pointers of the arguments in C's order (to \<open>unit\<close> when there are none)
  and to the place of the result, and widens the result; once its finaliser has run, the
  handler raises \<open>CallToExpiredClosure\<close> and touches nothing.
\<close>

theorem callback_applies_function:
  assumes "registry_ok s0" "record_function True g (box (max 1 n) f []) s0 = (s1, key)"
    and "Finalise key \<notin> set ops" "reg.run_ops ops s1 = s"
    and "lock_held w" "arg_pointers P (cmem w) av ps" "cif_nargs c = n" "length ps = n" "T (cif_rtype c) = Some r"
  shows "callback_handler_with_lock P F T (lookup_in s) c retp av key w =
      bindA (caml_callback (f (if n = 0 then [Val_unit] else map (CTYPES_FROM_PTR P) ps)) (CTYPES_FROM_PTR P retp))
        (\<lambda>u. on_mem (promote_result P F r retp)) w \<and>
    callback_handler_with_lock P F T (lookup_in (finalise key s)) c retp av key w = (w, Inl CallToExpiredClosure)"
proof
  have "retrieve key s = Inr (box (max 1 n) f [])"
    using reg.live [OF assms(1), of g "box (max 1 n) f []" ops] assms(2-4) by simp
  then show "callback_handler_with_lock P F T (lookup_in s) c retp av key w =
      bindA (caml_callback (f (if n = 0 then [Val_unit] else map (CTYPES_FROM_PTR P) ps)) (CTYPES_FROM_PTR P retp))
        (\<lambda>u. on_mem (promote_result P F r retp)) w"
    using assms(5-9) by (rule handler_live)
  show "callback_handler_with_lock P F T (lookup_in (finalise key s)) c retp av key w = (w, Inl CallToExpiredClosure)"
    using assms(5) by (simp add: callback_handler_with_lock_def retrieve_closure_def lookup_in_def
        caml_callback_def reg.find_fin)
qed

section \<open>The widened result\<close>

lemma promote_result_ok:
  assumes "load_bytes m retp (ft_size r) = Some bs" "mapped m retp (sizeof_ffi_arg F)"
    and "case small_result P (ft_type r) of None \<Rightarrow> True | Some (s, n) \<Rightarrow> n = ft_size r"
  shows "\<exists>m'. promote_result P F r retp m = Inr m' \<and> only_changes retp (sizeof_ffi_arg F) m m' \<and>
    load_bytes m' retp (length (widen P F r bs)) = Some (widen P F r bs) \<and>
    load_bytes m' (retp + ffi_return_type_adjustment P F r) (ft_size r) = Some bs"
proof -
  have lb: "length bs = ft_size r" using assms(1) by (rule load_bytes_length)
  have main: "\<exists>m'. promote_result P F r retp m = Inr m' \<and> only_changes retp (sizeof_ffi_arg F) m m' \<and>
    load_bytes m' retp (length (widen P F r bs)) = Some (widen P F r bs)"
  proof (cases "widened F r")
    case True
    let ?x = "if signed_kind (ft_type r) then swrap (ft_size r) (dec P bs) else dec P bs"
    have sm: "small_result P (ft_type r) = Some (signed_kind (ft_type r), ft_size r)"
      using True assms(3) by (cases "ft_type r") (simp_all add: widened_def signed_kind_def)
    have "(if signed_kind (ft_type r) then load_s P m retp (ft_size r) else load_u P m retp (ft_size r)) = Inr ?x"
      using assms(1) by (simp add: load_s_def load_u_def)
    then have "promote_result P F r retp m = store_int P m retp (sizeof_ffi_arg F) ?x"
      using True sm by (simp add: promote_result_def widened_def)
    moreover obtain m' where m': "store_int P m retp (sizeof_ffi_arg F) ?x = Inr m'"
      "only_changes retp (sizeof_ffi_arg F) m m'"
      using store_int_ok [OF assms(2), of P ?x] by blast
    moreover have "load_bytes m' retp (sizeof_ffi_arg F) = Some (widen P F r bs)"
    proof -
      have "widen P F r bs = enc P (sizeof_ffi_arg F) ?x" using True by (simp only: widen_def if_True)
      then show ?thesis using m'(1) load_store_same by (simp only: store_int_def need_eq_Inr length_enc) 
    qed
    ultimately show ?thesis using True by (simp add: widen_def)
  next
    case False
    then have "promote_result P F r retp m = Inr m"
      by (cases "ft_type r") (simp_all add: promote_result_def widened_def)
    then show ?thesis using False assms(1) lb by (simp add: widen_def)
  qed
  then obtain m' where m': "promote_result P F r retp m = Inr m'" "only_changes retp (sizeof_ffi_arg F) m m'"
    "load_bytes m' retp (length (widen P F r bs)) = Some (widen P F r bs)"
    by blast
  have "load_bytes m' (retp + ffi_return_type_adjustment P F r) (ft_size r) = Some bs"
    using load_bytes_sub [OF m'(3), of "ffi_return_type_adjustment P F r" "ft_size r"] widen_read [OF lb, of P F] lb
    by (auto simp: adjustment_eq widen_def widened_def)
  then show ?thesis using m' by blast
qed

text \<open>
  C10: the result of a callback: whatever bytes OCaml stored as the result of its type, afterwards the
  place of the result holds them widened as libffi's \<open>ffi_call\<close> would return them (sign or zero
  extended to \<open>ffi_arg\<close> for narrow integers, unchanged for other types), so that a caller through
  ctypes reads the same bytes back; nothing else changes.
\<close>

theorem callback_result_widened:
  assumes "load_bytes m retp (ft_size r) = Some bs" "mapped m retp (sizeof_ffi_arg F)"
    and "case small_result P (ft_type r) of None \<Rightarrow> True | Some (s, n) \<Rightarrow> n = ft_size r"
  shows "\<exists>m'. promote_result P F r retp m = Inr m' \<and> only_changes retp (sizeof_ffi_arg F) m m' \<and>
    load_bytes m' retp (length (widen P F r bs)) = Some (widen P F r bs) \<and>
    load_bytes m' (retp + ffi_return_type_adjustment P F r) (ft_size r) = Some bs"
  using assms by (rule promote_result_ok)

section \<open>The runtime lock\<close>

text \<open>Code that gives the lock back as it found it, and raises only while it holds it.\<close>

definition keeps_lock :: "'a act \<Rightarrow> bool" where
  "keeps_lock m \<longleftrightarrow> (\<forall>w. lock_held w \<longrightarrow> lock_held (fst (m w)))"

lemma keeps_lock_bind: "keeps_lock m \<Longrightarrow> (\<And>x. keeps_lock (f x)) \<Longrightarrow> keeps_lock (bindA m f)"
  unfolding keeps_lock_def by (auto split: prod.split sum.split; metis fst_conv)

lemma keeps_lock_simps [simp]:
  "keeps_lock (lift r)" "keeps_lock (ret x)" "keeps_lock (on_mem g)" "keeps_lock (load_ptr P a)"
  by (auto simp: keeps_lock_def on_mem_def load_ptr_def split: sum.split)

lemma keeps_lock_callback: "keeps_lock (f x) \<Longrightarrow> keeps_lock (caml_callback f x)"
  by (simp add: keeps_lock_def caml_callback_def)

text \<open>Boxed functions all of whose stages keep the lock.\<close>

inductive boxed_keeps :: "boxedfn \<Rightarrow> bool" where
  result: "(\<And>v. keeps_lock (f v)) \<Longrightarrow> boxed_keeps (Done f)"
| argument: "(\<And>v. keeps_lock (f v)) \<Longrightarrow> (\<And>v w w' b. f v w = (w', Inr b) \<Longrightarrow> boxed_keeps b) \<Longrightarrow> boxed_keeps (Fn f)"

inductive_cases boxed_keeps_DoneE: "boxed_keeps (Done f)"
inductive_cases boxed_keeps_FnE: "boxed_keeps (Fn f)"

lemma apply_boxed_keeps:
  assumes "boxed_keeps b"
  shows "keeps_lock (apply_boxed b v)" "apply_boxed b v w = (w', Inr b') \<Longrightarrow> boxed_keeps b'"
  using assms
  by (cases b; auto elim!: boxed_keeps_DoneE boxed_keeps_FnE intro: keeps_lock_callback
      simp: caml_callback_def split: if_split_asm)+

lemma apply_args_keeps:
  "boxed_keeps b \<Longrightarrow> lock_held w \<Longrightarrow> apply_args P av i n b w = (w', x) \<Longrightarrow>
     lock_held w' \<and> (\<forall>b'. x = Inr b' \<longrightarrow> boxed_keeps b')"
proof (induction n arbitrary: i b w)
  case (Suc n)
  obtain p where p: "load_ptr P (av + i * sizeof_ptr P) w = (w, p)" by (simp add: load_ptr_def)
  show ?case
  proof (cases p)
    case (Inr a)
    obtain w1 y where y: "apply_boxed b (CTYPES_FROM_PTR P a) w = (w1, y)" by fastforce
    have l1: "lock_held w1"
      using apply_boxed_keeps(1) [OF Suc.prems(1), of "CTYPES_FROM_PTR P a"] y Suc.prems(2)
      by (auto simp: keeps_lock_def dest: spec [of _ w])
    show ?thesis
    proof (cases y)
      case (Inr b1)
      have "boxed_keeps b1" using apply_boxed_keeps(2) [OF Suc.prems(1)] y Inr by blast
      from Suc.IH [OF this l1, of "Suc i"] show ?thesis
        using Suc.prems(3) p \<open>p = Inr a\<close> y Inr by simp
    qed (use Suc.prems(3) p Inr y l1 in auto)
  qed (use Suc.prems p in auto)
qed auto

lemma handler_keeps_lock:
  assumes "\<And>key b. retrieve key s = Inr b \<Longrightarrow> boxed_keeps b"
  shows "keeps_lock (callback_handler_with_lock P F T (lookup_in s) c retp av key)"
  unfolding keeps_lock_def
proof (intro allI impI)
  fix w :: c_world assume w: "lock_held w"
  let ?act = "callback_handler_with_lock P F T (lookup_in s) c retp av key"
  show "lock_held (fst (?act w))"
  proof (cases "retrieve key s")
    case (Inl e)
    then show ?thesis
      using w by (simp add: callback_handler_with_lock_def retrieve_closure_def lookup_in_def caml_callback_def)
  next
    case (Inr b)
    then have r: "retrieve_closure (lookup_in s) key w = (w, Inr b)"
      using w by (simp add: retrieve_closure_def lookup_in_def caml_callback_def)
    have bk: "boxed_keeps b" by (rule assms [OF Inr])
    obtain w1 y where y: "(if cif_nargs c = 0 then apply_boxed b Val_unit else apply_args P av 0 (cif_nargs c) b) w = (w1, y)"
      by fastforce
    have l: "lock_held w1 \<and> (\<forall>b'. y = Inr b' \<longrightarrow> boxed_keeps b')"
    proof (cases "cif_nargs c = 0")
      case True
      then show ?thesis
        using y apply_boxed_keeps(1) [OF bk, of Val_unit] apply_boxed_keeps(2) [OF bk] w
        by (auto simp: keeps_lock_def dest: spec [of _ w])
    qed (use apply_args_keeps [OF bk w] y in auto)
    show ?thesis
    proof (cases y)
      case (Inr b1)
      show ?thesis
      proof (cases b1)
        case (Done f)
        then have "\<And>v. keeps_lock (f v)" using l Inr by (auto elim: boxed_keeps_DoneE)
        then have "keeps_lock (bindA (caml_callback f (CTYPES_FROM_PTR P retp)) (\<lambda>_.
            bindA (lift (need Memory_fault (T (cif_rtype c)))) (\<lambda>r. on_mem (promote_result P F r retp))))"
          by (intro keeps_lock_bind keeps_lock_callback) simp_all
        then have "lock_held (fst (bindA (caml_callback f (CTYPES_FROM_PTR P retp)) (\<lambda>_.
            bindA (lift (need Memory_fault (T (cif_rtype c)))) (\<lambda>r. on_mem (promote_result P F r retp))) w1))"
          using l by (simp only: keeps_lock_def)
        then show ?thesis
          using r y Inr Done by (simp add: callback_handler_with_lock_def del: act_simps(1))
            (simp add: bindA_def)
      qed (use r y Inr l in \<open>simp add: callback_handler_with_lock_def\<close>)
    qed (use r y l in \<open>simp add: callback_handler_with_lock_def\<close>)
  qed
qed

text \<open>
  C16: the runtime lock around a callback.  C calls the handler with the lock held exactly when
  the closure was made without \<open>runtime_lock\<close>; for functions that keep the lock, OCaml code
  runs under it, and when the callback returns normally the lock is as C left it.  When an
  exception escapes (a function that is gone, or one that raises), the lock stays taken.
\<close>

theorem callback_balances_lock:
  assumes "\<And>key b. retrieve key s = Inr b \<Longrightarrow> boxed_keeps b"
    and "runtime_lock (closure_context cl) = (\<not> lock_held w)" "\<not> thread_registration (closure_context cl)"
    and "callback_handler P F R T (lookup_in s) reg c retp av cl w = (w', x)"
  shows "lock_held w' = (if x = Inr () then lock_held w else True)"
proof -
  have K: "lock_held (fst (callback_handler_with_lock P F T (lookup_in s) c retp av (fnkey cl) u))"
    if "lock_held u" for u
    using handler_keeps_lock [of s P F T c retp av "fnkey cl"] assms(1) that by (simp add: keeps_lock_def)
  show ?thesis
  proof (cases "lock_held w")
    case True
    then show ?thesis
      using K [OF True] assms(2-4)
      by (auto simp: callback_handler_def split: prod.split_asm sum.split_asm)
  next
    case False
    have "lock_held (w\<lparr>lock_held := True, errno := acquire_errno R (errno w)\<rparr>)" by simp
    from K [OF this] show ?thesis
      using assms(2-4) False
      by (auto simp: callback_handler_def caml_acquire_runtime_system_def caml_release_runtime_system_def
          split: prod.split_asm sum.split_asm)
  qed
qed

section \<open>Function pointers\<close>

text \<open>
  C17: the life of a function pointer.  Made from a finished specification, it has the code address
  libffi gave; calling that address runs the handler with the key and the context it was made
  with; its finaliser gives the closure back, after which calling the address is a fault and
  the other closures are untouched.  Without memory \<open>Out_of_memory\<close> is raised and nothing
  changes; when libffi refuses the closure the exception of its status is raised and the closure
  that was allocated is never given back.
\<close>

theorem function_pointer_life:
  assumes "state spec = CALLSPEC" "cif spec = Some c" "Long_val fnid = Inr key"
    and "closure_alloc CL st = Some (a, code)" "closures st a = None" "closure_alloc CL0 st = None"
    and "cl = \<lparr>fnkey = key, closure_context = spec_context spec, fnptr = code\<rparr>"
    and "st1 = st\<lparr>closures := (closures st)(a \<mapsto> cl)\<rparr>"
    and "ctypes_check_ffi_status (prep_closure_loc CL st1 a c) = (if prep_closure_loc CL st1 a c = FFI_OK then Inr () else Inl e)"
  shows "ctypes_make_function_pointer CL0 spec fnid st = Inr (st, Inl Out_of_memory) \<and>
    (if prep_closure_loc CL st1 a c \<noteq> FFI_OK
     then ctypes_make_function_pointer CL spec fnid st = Inr (st1, Inl e)
     else \<exists>st2. ctypes_make_function_pointer CL spec fnid st = Inr (st2, Inr (Custom_ptr ''ocaml-ctypes:closure'' a)) \<and>
       ctypes_raw_address_of_function_pointer P (Custom_ptr ''ocaml-ctypes:closure'' a) st2 = Inr (CTYPES_FROM_PTR P code) \<and>
       call_code P F R T cb reg st2 code retp av w = callback_handler P F R T cb reg c retp av cl w \<and>
       (\<exists>st3. finalize_closure (Custom_ptr ''ocaml-ctypes:closure'' a) st2 = Inr st3 \<and> closures st3 = closures st \<and>
          call_code P F R T cb reg st3 code retp av w = (w, Inl Memory_fault)))"
proof -
  have 0: "ctypes_make_function_pointer CL0 spec fnid st = Inr (st, Inl Out_of_memory)"
    using assms(1,6) by (simp add: ctypes_make_function_pointer_def)
  show ?thesis
  proof (cases "prep_closure_loc CL st1 a c = FFI_OK")
    case True
    define st2 where "st2 = st1\<lparr>bound := (bound st1)(code \<mapsto> (a, c))\<rparr>"
    define st3 where "st3 = st2\<lparr>closures := (closures st2)(a := None),
       bound := (\<lambda>x. case bound st2 x of Some (b, c) \<Rightarrow> if b = a then None else Some (b, c) | None \<Rightarrow> None)\<rparr>"
    have st2: "closures st2 a = Some cl" "bound st2 code = Some (a, c)" by (simp_all add: st2_def assms(8))
    have "ctypes_make_function_pointer CL spec fnid st = Inr (st2, Inr (Custom_ptr ''ocaml-ctypes:closure'' a))"
      using assms(1-4,9) True
      by (simp add: ctypes_make_function_pointer_def assms(7) [symmetric] assms(8) [symmetric] st2_def)
    moreover have "finalize_closure (Custom_ptr ''ocaml-ctypes:closure'' a) st2 = Inr st3"
      using st2 by (simp add: finalize_closure_def st3_def)
    moreover have "closures st3 = closures st" "bound st3 code = None"
      using assms(5) st2(2) by (auto simp: st3_def st2_def assms(8) fun_eq_iff)
    moreover have "ctypes_raw_address_of_function_pointer P (Custom_ptr ''ocaml-ctypes:closure'' a) st2 =
        Inr (CTYPES_FROM_PTR P code)"
      using st2 by (simp add: ctypes_raw_address_of_function_pointer_def assms(7))
    moreover have "call_code P F R T cb reg st2 code retp av w = callback_handler P F R T cb reg c retp av cl w"
      using st2 by (simp add: call_code_def)
    ultimately show ?thesis using 0 True by (auto simp: call_code_def)
  next
    case False
    then show ?thesis
      using 0 assms(1-4,9)
      by (simp add: ctypes_make_function_pointer_def assms(7) [symmetric] assms(8) [symmetric])
  qed
qed

section \<open>Examples on lp64 and s390x\<close>

text \<open>A function of two arguments that notes in \<open>errno\<close> how many it was given.\<close>

definition ex_count :: "value list \<Rightarrow> value \<Rightarrow> value act" where
  "ex_count vs p w = (w\<lparr>errno := int (length vs)\<rparr>, Inr Val_unit)"

definition ex_cif :: "nat \<Rightarrow> ffi_cif" where
  "ex_cif n = \<lparr>cif_abi = 2, cif_nargs = n, cif_rtype = ffi_type_addr (example_libffi lp64) Ft_void, cif_arg_types = []\<rparr>"

definition ex_registry :: "(nat, boxedfn) registry" where
  "ex_registry = fst (record_function True 7 (box 2 ex_count []) empty_registry)"

lemma registry_ok_empty: "registry_ok empty_registry"
  by (simp add: registry_ok_def empty_registry_def)

lemma ex_record: "record_function True 7 (box 2 ex_count []) empty_registry = (ex_registry, 0)"
  by (simp add: ex_registry_def record_function_def empty_registry_def Let_def)

theorem callback_applies_function_witness:
  "callback_handler_with_lock lp64 (example_libffi lp64) (static_types (example_libffi lp64))
      (lookup_in (reg.run_ops [Record True 8 (box 0 ex_count [])] ex_registry)) (ex_cif 2) 512 0 0 ex_stack =
     (ex_stack\<lparr>errno := 2\<rparr>, Inr ()) \<and>
   callback_handler_with_lock lp64 (example_libffi lp64) (static_types (example_libffi lp64))
      (lookup_in (finalise 0 (reg.run_ops [Record True 8 (box 0 ex_count [])] ex_registry))) (ex_cif 2) 512 0 0 ex_stack =
     (ex_stack, Inl CallToExpiredClosure)"
proof -
  let ?F = "example_libffi lp64" and ?T = "static_types (example_libffi lp64)"
  have 1: "record_function True 7 (box (max 1 2) ex_count []) empty_registry = (ex_registry, 0)"
    using ex_record by (simp only: max.absorb2 [of 1 "2 :: nat"] one_le_numeral)
  have m: "cmem ex_stack = (\<lambda>x. if x < 1024 then Some 0 else None)" by (simp add: ex_stack_def)
  have z: "dec lp64 (replicate 8 0) = 0" by (simp add: dec_def eval_nat_numeral)
  have "load_bytes (cmem ex_stack) a 8 = Some (replicate 8 0)" if "a < 512" for a
    by (rule load_bytesI) (use that in \<open>simp_all add: m\<close>)
  then have "load_u lp64 (cmem ex_stack) a 8 = Inr 0" if "a < 512" for a
    using that z by (simp add: load_u_def)
  then have 2: "arg_pointers lp64 (cmem ex_stack) 0 [0, 0]"
    by (simp add: arg_pointers_def less_Suc_eq)
  have 3: "?T (cif_rtype (ex_cif 2)) = Some (ffi_type_desc ?F Ft_void)"
    by (simp add: ex_cif_def example_lp64.static_lookup)
  have 4: "lock_held ex_stack" by (simp add: ex_stack_def ex_world_def)
  have pr: "promote_result lp64 ?F (ffi_type_desc ?F Ft_void) 512 x = Inr x" for x
    by (simp add: promote_result_def example_libffi_def)
  have n: "cif_nargs (ex_cif 2) = 2" "length [0::nat, 0] = 2" by (simp_all add: ex_cif_def)
  have f: "Finalise 0 \<notin> set [Record True (8 :: nat) (box 0 ex_count [])]" by simp
  have g: "reg.run_ops [Record True 8 (box 0 ex_count [])] ex_registry =
      reg.run_ops [Record True 8 (box 0 ex_count [])] ex_registry" by (rule refl)
  show ?thesis
    using callback_applies_function [where T = ?T and c = "ex_cif 2" and r = "ffi_type_desc ?F Ft_void", OF registry_ok_empty 1 f g 4 2 n 3, of ?F 512]
    by (simp add: caml_callback_def ex_count_def on_mem_def pr 4)
qed

theorem callback_result_widened_witness:
  "\<exists>m'. promote_result s390x (example_libffi s390x) (int_desc True 2) 0
      (\<lambda>x. if x < 16 then Some (if x = 0 then 255 else 254) else None) = Inr m' \<and>
    load_bytes m' 0 8 = Some [255, 255, 255, 255, 255, 255, 255, 254] \<and> load_bytes m' 6 2 = Some [255, 254]"
proof -
  let ?F = "example_libffi s390x" and ?m = "\<lambda>x::nat. if x < 16 then Some (if x = 0 then 255 else 254 :: byte) else None"
  have a: "sizeof_ffi_arg ?F = 8" by (simp add: example_libffi_def)
  have r: "ft_size (int_desc True 2) = 2" "ft_type (int_desc True 2) = FFI_TYPE_SINT16"
    by (simp_all add: int_desc_def int_kind_def)
  have 1: "load_bytes ?m 0 (ft_size (int_desc True 2)) = Some [255, 254]"
    unfolding r(1) by (simp add: numeral_2_eq_2)
  have 2: "mapped ?m 0 (sizeof_ffi_arg ?F)" by (simp add: a mapped_iff)
  have w: "widen s390x ?F (int_desc True 2) [255, 254] = [255, 255, 255, 255, 255, 255, 255, 254]"
  proof -
    have "le_bytes (Suc (Suc (Suc (Suc (Suc (Suc (Suc (Suc 0)))))))) (- 2) = [254, 255, 255, 255, 255, 255, 255, 255]"
      by simp
    moreover have "(8 :: nat) = Suc (Suc (Suc (Suc (Suc (Suc (Suc (Suc 0)))))))" by simp
    ultimately have "le_bytes 8 (- 2) = [254, 255, 255, 255, 255, 255, 255, 255]" by metis
    moreover have "swrap 2 (dec s390x [255, 254]) = - 2" by (simp add: dec_def swrap_def)
    ultimately show ?thesis by (simp add: widen_def widened_def r a signed_kind_def enc_def)
  qed
  have 3: "case small_result s390x (ft_type (int_desc True 2)) of None \<Rightarrow> True | Some (s, n) \<Rightarrow> n = ft_size (int_desc True 2)"
    by (simp add: r)
  have d: "ffi_return_type_adjustment s390x ?F (int_desc True 2) = 6" by (simp add: ffi_return_type_adjustment_def a r)
  have l: "length [255, 255, 255, 255, 255, 255, 255, 254 :: byte] = 8" by simp
  from callback_result_widened [OF 1 2 3] show ?thesis
    unfolding w d r(1) l add_0 by blast
qed

definition ex_context :: call_context where
  "ex_context = \<lparr>check_errno = False, runtime_lock = True, thread_registration = False\<rparr>"

theorem callback_balances_lock_witness:
  "\<exists>w'. callback_handler lp64 (example_libffi lp64) ex_runtime (static_types (example_libffi lp64))
      (lookup_in (empty_registry :: (nat, boxedfn) registry)) ctypes_thread_register_fail (ex_cif 0) 512 0
      \<lparr>fnkey = 3, closure_context = ex_context, fnptr = 4096\<rparr> (ex_stack\<lparr>lock_held := False\<rparr>) =
      (w', Inl CallToExpiredClosure) \<and> lock_held w'"
proof -
  let ?s = "empty_registry :: (nat, boxedfn) registry" and ?w = "ex_stack\<lparr>lock_held := False\<rparr>"
  let ?cl = "\<lparr>fnkey = 3, closure_context = ex_context, fnptr = 4096\<rparr>"
  have e: "\<And>key b. retrieve key ?s = Inr b \<Longrightarrow> boxed_keeps b"
    by (simp add: retrieve_def empty_registry_def)
  have c: "runtime_lock (closure_context ?cl) = (\<not> lock_held ?w)" "\<not> thread_registration (closure_context ?cl)"
    by (simp_all add: ex_context_def)
  obtain w' x where x: "callback_handler lp64 (example_libffi lp64) ex_runtime (static_types (example_libffi lp64))
      (lookup_in ?s) ctypes_thread_register_fail (ex_cif 0) 512 0 ?cl ?w = (w', x)"
    by fastforce
  then have "x = Inl CallToExpiredClosure"
    by (auto simp: callback_handler_def ex_context_def caml_acquire_runtime_system_def lookup_in_def retrieve_def
        empty_registry_def callback_handler_with_lock_def retrieve_closure_def caml_callback_def)
  then show ?thesis using callback_balances_lock [OF e c x] x by auto
qed

definition ex_closures :: closure_lib where
  "ex_closures = \<lparr>closure_alloc = (\<lambda>st. if closures st 64 = None then Some (64, 128) else None),
     prep_closure_loc = (\<lambda>st a c. FFI_OK)\<rparr>"

definition ex_closure_state :: closure_state where
  "ex_closure_state = \<lparr>closures = Map.empty, bound = Map.empty\<rparr>"

theorem function_pointer_life_witness:
  "\<exists>st2. ctypes_make_function_pointer ex_closures ((callspec_prototype lp64)\<lparr>state := CALLSPEC, cif := Some (ex_cif 0)\<rparr>)
      (Imm 7) ex_closure_state = Inr (st2, Inr (Custom_ptr ''ocaml-ctypes:closure'' 64)) \<and>
    ctypes_raw_address_of_function_pointer lp64 (Custom_ptr ''ocaml-ctypes:closure'' 64) st2 = Inr (CTYPES_FROM_PTR lp64 128)"
proof -
  let ?spec = "(callspec_prototype lp64)\<lparr>state := CALLSPEC, cif := Some (ex_cif 0)\<rparr>"
  let ?full = "ex_closures\<lparr>closure_alloc := (\<lambda>st. None)\<rparr>"
  let ?cl = "\<lparr>fnkey = 3, closure_context = spec_context ?spec, fnptr = 128\<rparr>"
  let ?st1 = "ex_closure_state\<lparr>closures := (closures ex_closure_state)(64 \<mapsto> ?cl)\<rparr>"
  have s: "state ?spec = CALLSPEC" "cif ?spec = Some (ex_cif 0)" by simp_all
  have k: "Long_val (Imm 7) = Inr 3" by simp
  have a: "closure_alloc ex_closures ex_closure_state = Some (64, 128)" "closures ex_closure_state 64 = None"
    "closure_alloc ?full ex_closure_state = None"
    by (simp_all add: ex_closures_def ex_closure_state_def)
  have p: "prep_closure_loc ex_closures st x c = FFI_OK" for st x c by (simp add: ex_closures_def)
  have e: "ctypes_check_ffi_status (prep_closure_loc ex_closures ?st1 64 (ex_cif 0)) =
      (if prep_closure_loc ex_closures ?st1 64 (ex_cif 0) = FFI_OK then Inr () else Inl Out_of_memory)"
    by (simp add: p ctypes_check_ffi_status_def)
  from function_pointer_life [OF s k a refl refl e, of lp64] show ?thesis
    unfolding p if_False simp_thms by blast
qed

end
