(* ===== verification/Foreign_Callback.thy ===== *)
theory Foreign_Callback
  imports Foreign_Function Ffi_Closure_Correct
begin

text \<open>
  The OCaml side of a callback, \<open>box_function\<close> and \<open>pointer_of_function_internal\<close> of
  \<open>src/ctypes-foreign/ctypes_ffi.ml\<close>, for functions on \<open>void\<close>, primitive types, pointers and function pointers: from an OCaml
  function to a C function pointer, and from a call of that pointer by C back to the function.
  The theorem composes the specification, the registry, the closure, the handler, the readers
  and writers and the widening of the result.
\<close>

section \<open>OCaml functions\<close>

text \<open>An OCaml function applied to one argument after the other; the last application runs its body.\<close>

datatype ocaml_fn = Result "value" | Closure "value \<Rightarrow> c_world \<Rightarrow> c_world \<times> (fault + ocaml_fn)"

primrec curry_fn :: "nat \<Rightarrow> (value list \<Rightarrow> value act) \<Rightarrow> value list \<Rightarrow> ocaml_fn" where
  "curry_fn 0 body acc = Closure (\<lambda>v. bindA (body (acc @ [v])) (\<lambda>r. ret (Result r)))"
| "curry_fn (Suc n) body acc = Closure (\<lambda>v w. (w, Inr (curry_fn n body (acc @ [v]))))"

section \<open>Boxing\<close>

text \<open>
  The function is behind a weak reference, which may have been emptied by the time it is read: when
  it is applied, inside the handler that turns this into \<open>CallToExpiredClosure\<close>, or, for the result, when the
  function is boxed, outside it.  The results of partial applications are kept alive.
\<close>

definition put_result :: "platform \<Rightarrow> integers_lib \<Rightarrow> c_type \<Rightarrow> ocaml_fn \<Rightarrow> value \<Rightarrow> value act" where
  "put_result P L ty r p w =
     (case r of
        Result v \<Rightarrow>
          (case write_value P L ty v (Fat_make p) (cmem w) of
             Inl e \<Rightarrow> (w, Inl e)
           | Inr m \<Rightarrow> (w\<lparr>cmem := m\<rparr>, Inr Val_unit))
      | Closure g \<Rightarrow> (w, Inl Ill_typed))"

definition try_expired :: "'a act \<Rightarrow> 'a act" where
  "try_expired m w =
     (case m w of (w', r) \<Rightarrow> (w', if r = Inl EmptyWeakReference then Inl CallToExpiredClosure else r))"

primrec box_function ::
    "platform \<Rightarrow> integers_lib \<Rightarrow> c_fn \<Rightarrow> (c_world \<Rightarrow> ocaml_fn option) \<Rightarrow> c_world \<Rightarrow> boxedfn result" where
  "box_function P L (Returns ty) f w = bindR (need EmptyWeakReference (f w)) (\<lambda>r. Inr (Done (put_result P L ty r)))"
| "box_function P L (Function p r) f w =
     Inr (Fn (\<lambda>buf.
       bindA (try_expired
         (\<lambda>w1. case build P L p (Fat_make buf) (cmem w1) of
            Inl e \<Rightarrow> (w1, Inl e)
          | Inr v \<Rightarrow>
              (case f w1 of
                 None \<Rightarrow> (w1, Inl EmptyWeakReference)
               | Some (Result u) \<Rightarrow> (w1, Inl Ill_typed)
               | Some (Closure g) \<Rightarrow> g v w1)))
       (\<lambda>f' w2. (w2, box_function P L r (\<lambda>_. Some f') w2))))"

text \<open>The specification that \<open>box_function\<close> builds on the way.\<close>

primrec box_callspec ::
    "platform \<Rightarrow> libffi \<Rightarrow> ffi_types \<Rightarrow> value \<Rightarrow> c_fn \<Rightarrow> callspec \<Rightarrow> (callspec \<times> ffi_types) result" where
  "box_callspec P F T abi (Returns t) spec = prep_callspec P F T spec abi t"
| "box_callspec P F T abi (Function p f) spec =
     bindR (add_argument P F T spec p) (\<lambda>(s1, offset). box_callspec P F T abi f s1)"

text \<open>\<open>pointer_of_function_internal\<close>, applied to its function in the world \<open>w\<close>; \<open>finalisable\<close> and \<open>fid\<close> describe the OCaml function to the registry.\<close>

definition pointer_of_function_internal ::
    "platform \<Rightarrow> integers_lib \<Rightarrow> libffi \<Rightarrow> ffi_types \<Rightarrow> closure_lib \<Rightarrow> value \<Rightarrow> bool \<Rightarrow> bool \<Rightarrow> c_fn \<Rightarrow>
       bool \<Rightarrow> 'f \<Rightarrow> (c_world \<Rightarrow> ocaml_fn option) \<Rightarrow> c_world \<Rightarrow> ('f, boxedfn) registry \<Rightarrow> closure_state \<Rightarrow>
       (('f, boxedfn) registry \<times> closure_state \<times> ffi_types \<times> value result) result" where
  "pointer_of_function_internal P L F T CL abi acquire_runtime_lock thread fn finalisable fid f w reg st =
     bindR (ctypes_allocate_callspec P (Val_bool P 0) (Val_bool P (of_bool acquire_runtime_lock))
              (Val_bool P (of_bool thread))) (\<lambda>cs.
     bindR (box_callspec P F T abi fn cs) (\<lambda>(cs', T').
     bindR (box_function P L fn f w) (\<lambda>boxed.
       case record_function finalisable fid boxed reg of (reg', key) \<Rightarrow>
         bindR (ctypes_make_function_pointer CL cs' (Val_long P key) st) (\<lambda>(st', r). Inr (reg', st', T', r)))))"

section \<open>The specification\<close>

lemma box_callspec_build:
  "box_callspec P F T abi f spec = map_sum id (\<lambda>(s, T', cc). (s, T')) (build_ccallspec P F T abi idx f spec)"
proof (induction f arbitrary: spec idx)
  case (Returns t)
  then show ?case by (cases "prep_callspec P F T spec abi t") auto
next
  case (Function p f)
  show ?case
  proof (cases "add_argument P F T spec p")
    case (Inr x)
    then show ?thesis
      using Function [of "fst x" "idx + 1"]
      by (cases "build_ccallspec P F T abi (idx + 1) f (fst x)") (auto split: prod.splits)
  qed simp
qed

section \<open>Applying\<close>

text \<open>The objects that C's argument pointers point to.\<close>

definition objects_at :: "platform \<Rightarrow> integers_lib \<Rightarrow> memory \<Rightarrow> c_type list \<Rightarrow> value list \<Rightarrow> nat list \<Rightarrow> bool" where
  "objects_at P L m ts vs ps \<longleftrightarrow>
     length ps = length ts \<and> length vs = length ts \<and>
     (\<forall>i < length ts. ps ! i < addr_limit P \<and>
        (\<exists>bs. load_bytes m (ps ! i) (type_bytes P (ts ! i)) = Some bs \<and> encodes P L (ts ! i) (vs ! i) bs))"

lemma apply_args_box_function:
  assumes "platform_ok P" "lock_held w"
  shows "\<lbrakk>length (fn_args f) = Suc k; \<forall>t \<in> set (fn_args f). passable P t;
      objects_at P L (cmem w) (fn_args f) vs ps;
      \<forall>j < length ps. load_u P (cmem w) (av + (i + j) * sizeof_ptr P) (sizeof_ptr P) = Inr (int (ps ! j));
      body (acc @ vs) w = (w1, Inr v); g w = Some (curry_fn k body acc); box_function P L f g w0 = Inr bf\<rbrakk>
    \<Longrightarrow> apply_args P av i (Suc k) bf w = (w1, Inr (Done (put_result P L (fn_ret f) (Result v))))"
proof (induction f arbitrary: k i vs ps acc g w0 bf)
  case (Function t f)
  obtain u us q qs where vp: "vs = u # us" "ps = q # qs"
    using Function.prems(3) by (cases vs; cases ps) (auto simp: objects_at_def)
  have q: "load_u P (cmem w) (av + i * sizeof_ptr P) (sizeof_ptr P) = Inr (int q)"
    using Function.prems(4) [rule_format, of 0] vp by simp
  obtain bs where bs: "q < addr_limit P" "load_bytes (cmem w) q (type_bytes P t) = Some bs" "encodes P L t u bs"
    using Function.prems(3) vp by (auto simp: objects_at_def dest!: spec [of _ 0])
  have "passable P t" using Function.prems(2) by simp
  from build_bytes [OF assms(1) this bs(1,2), of L] have b: "build P L t (fatptr P q) (cmem w) = Inr u"
    using bs(3) by (simp add: encodes_def)
  show ?case
  proof (cases k)
    case 0
    then obtain t' where f: "f = Returns t'" using Function.prems(1) by (cases f) simp_all
    then have "us = []" using Function.prems(3) vp by (auto simp: objects_at_def)
    then show ?thesis
      using q b assms(2) Function.prems(5-7) 0 f vp by (auto simp: load_ptr_def caml_callback_def try_expired_def need_def)
  next
    case (Suc j)
    have o: "objects_at P L (cmem w) (fn_args f) us qs"
      using Function.prems(3) vp by (auto simp: objects_at_def dest: spec [of _ "Suc _"])
    have l: "\<forall>j < length qs. load_u P (cmem w) (av + (Suc i + j) * sizeof_ptr P) (sizeof_ptr P) = Inr (int (qs ! j))"
      using Function.prems(4) vp by (auto dest: spec [of _ "Suc _"])
    obtain c where c: "box_function P L f (\<lambda>_. Some (curry_fn j body (acc @ [u]))) w = Inr c"
      using Function.prems(1) Suc by (cases f) simp_all
    have "apply_args P av (Suc i) (Suc j) c w = (w1, Inr (Done (put_result P L (fn_ret f) (Result v))))"
      using Function.IH [OF _ _ o l _ _ c, of j "acc @ [u]"] Function.prems(1,2,5) Suc vp
      by (simp del: apply_args.simps)
    moreover have "apply_args P av i (Suc k) c w = bindA (apply_boxed c (CTYPES_FROM_PTR P q)) (apply_args P av (Suc i) k) w" for c
      using q by (simp add: load_ptr_def)
    ultimately show ?thesis
      using b c assms(2) Function.prems(6,7) Suc
      by (auto simp: caml_callback_def try_expired_def simp del: apply_args.simps)
  qed
qed simp

section \<open>The result\<close>

lemma desc_small_result:
  assumes "libffi_types P F" "platform_ok P" "passable P t"
  shows "case small_result P (ft_type (ffi_desc P F t)) of None \<Rightarrow> True | Some (s, n) \<Rightarrow> n = ft_size (ffi_desc P F t)"
proof -
  have "describable P t" using assms(3) by (simp add: passable_def)
  from arg_type_ok(6) [OF assms(1,2) this] have d: "desc_of P F t (ffi_desc P F t)" .
  show ?thesis
  proof (cases t)
    case (Primitive p)
    let ?n = "prim_bytes P p"
    have g: "good_desc P p (ffi_desc P F t)" using d Primitive by (simp add: desc_of_def)
    show ?thesis
    proof (cases "is_int_prim p")
      case True
      have "?n \<in> {1, 2, 4, 8}"
        using assms(2,3) True Primitive by (cases p) (auto simp: passable_def platform_ok_def no_ffi_type_def is_int_prim_def)
      then show ?thesis using g True by (auto simp: good_desc_def int_kind_def)
    qed (use g in \<open>auto simp: good_desc_def\<close>)
  qed (use d libffi_types.kind [OF assms(1), of Ft_pointer] libffi_types.kind [OF assms(1), of Ft_void]
      in \<open>simp_all add: desc_of_def\<close>)
qed

text \<open>Storing a result and widening it leaves what \<open>ffi_call\<close> would have stored.\<close>

lemma result_stored:
  assumes env: "libffi_types P F" "platform_ok P" "LDOUBLE_VALUE_BYTES P \<le> sizeof_ldouble P" "integers_ok L"
    and t: "passable P t" "type_repr P L t v"
    and m: "retp < addr_limit P" "mapped m retp (max (sizeof_ffi_arg F) (type_bytes P t))"
  shows "\<exists>m1 m2 bs. write_value P L t v (fatptr P retp) m = Inr m1 \<and>
    promote_result P F (ffi_desc P F t) retp m1 = Inr m2 \<and> encodes P L t v bs \<and>
    only_changes retp (max (sizeof_ffi_arg F) (type_bytes P t)) m m2 \<and>
    load_bytes m2 retp (length (widen P F (ffi_desc P F t) bs)) = Some (widen P F (ffi_desc P F t) bs)"
proof (cases "t = Void")
  case True
  have "ft_type (ffi_desc P F t) = FFI_TYPE_VOID"
    using arg_type_ok(6) [OF env(1,2), of t] libffi_types.kind [OF env(1), of Ft_void] True by (simp add: desc_of_def)
  then show ?thesis
    using True t(2) by (intro exI [of _ m] exI [of _ "[]"])
      (simp add: promote_result_def encodes_def value_of_bytes_def widen_def widened_def only_changes_def)
next
  case False
  let ?n = "type_bytes P t" and ?N = "max (sizeof_ffi_arg F) (type_bytes P t)" and ?r = "ffi_desc P F t"
  have "describable P t" using t(1) by (simp add: passable_def)
  from arg_type_ok(7) [OF env(1,2) this False] have sz: "ft_size ?r = ?n" .
  obtain bs where bs: "length bs = ?n" "value_of_bytes P L t bs = Inr v"
    "write_value P L t v (fatptr P retp) m = need Memory_fault (store_bytes m retp bs)"
    using write_value_bytes [OF env(2-4) t] m(1) by blast
  have "mapped m retp (length bs)" unfolding bs(1) using m(2) by (rule mapped_sub) simp_all
  then obtain m1 where m1: "store_bytes m retp bs = Some m1" unfolding store_bytes_Some_iff [symmetric] by blast
  have oc: "only_changes retp ?n m m1"
    unfolding only_changes_def bs(1) [symmetric]
    using store_bytes_outside [OF m1] store_bytes_mapped [OF m1] by blast
  have ld: "load_bytes m1 retp (ft_size ?r) = Some bs" using load_store_same [OF m1] bs(1) sz by simp
  have "mapped m1 retp ?N" using m(2) only_changesD(2) [OF oc] by simp
  then have "mapped m1 retp (sizeof_ffi_arg F)" by (rule mapped_sub) simp_all
  from promote_result_ok [OF ld this desc_small_result [OF env(1,2) t(1)]] obtain m2 where
    m2: "promote_result P F ?r retp m1 = Inr m2" "only_changes retp (sizeof_ffi_arg F) m1 m2"
    "load_bytes m2 retp (length (widen P F ?r bs)) = Some (widen P F ?r bs)"
    by blast
  have "only_changes retp ?N m m2" by (rule only_changes_trans [OF oc m2(2)]) simp_all
  then show ?thesis using bs m1 m2 by (intro exI [of _ m1] exI [of _ m2] exI [of _ bs]) (simp add: encodes_def)
qed

section \<open>The callback\<close>

text \<open>
  The functions C can call: their argument is \<open>void\<close>, for which the handler applies the function to the unit, or none of
  their arguments is.
\<close>

definition callable :: "platform \<Rightarrow> c_fn \<Rightarrow> value list \<Rightarrow> bool" where
  "callable P f vs \<longleftrightarrow> fn_describable P f \<and> \<not> has_ocaml_argument f \<and> length vs = length (fn_args f) \<and>
     (fn_args f = [Void] \<and> vs = [Val_unit] \<or> fn_args f \<noteq> [] \<and> Void \<notin> set (fn_args f))"

lemma no_void:
  "Void \<notin> set (fn_args f) \<Longrightarrow> length vs = length (fn_args f) \<Longrightarrow> c_args f = fn_args f \<and> c_values f vs = vs"
proof (induction f arbitrary: vs)
  case (Function p f)
  then show ?case by (cases vs) auto
qed simp

lemma args_passable: "fn_describable P f \<Longrightarrow> \<not> has_ocaml_argument f \<Longrightarrow> \<forall>t \<in> set (fn_args f). passable P t"
  by (induction f) (auto simp: passable_def split: if_splits)

text \<open>Applying the boxed function to what C passes.\<close>

lemma apply_boxed_function:
  assumes P: "platform_ok P" and w: "lock_held w" "arg_pointers P (cmem w) av ps"
    "objects_at P L (cmem w) (c_args f) (c_values f vs) ps"
    and f: "callable P f vs" and n: "n = length (c_args f)" "length (fn_args f) = Suc k"
    and b: "body vs w = (w1, Inr v)" and g: "g w = Some (curry_fn k body [])" "box_function P L f g w0 = Inr bf"
  shows "(if n = 0 then apply_boxed bf Val_unit else apply_args P av 0 n bf) w =
    (w1, Inr (Done (put_result P L (fn_ret f) (Result v))))"
proof (cases "fn_args f = [Void]")
  case True
  then obtain r where r: "f = Function Void r" "fn_args r = []" by (cases f) simp_all
  then obtain t where t: "f = Function Void (Returns t)" by (cases r) simp_all
  then show ?thesis using f n b g w(1) by (auto simp: callable_def caml_callback_def try_expired_def need_def)
next
  case False
  then have nv: "Void \<notin> set (fn_args f)" "fn_args f \<noteq> []" using f by (auto simp: callable_def)
  then have c: "c_args f = fn_args f" "c_values f vs = vs" using no_void f by (auto simp: callable_def)
  have pas: "\<forall>t \<in> set (fn_args f). passable P t" using f by (intro args_passable) (simp_all add: callable_def)
  have ob: "objects_at P L (cmem w) (fn_args f) vs ps" using w(3) unfolding c .
  have "apply_args P av 0 (Suc k) bf w = (w1, Inr (Done (put_result P L (fn_ret f) (Result v))))"
    using apply_args_box_function [OF P w(1) n(2) pas ob, where av = av and i = 0 and acc = "[]" and body = body] w(2) b g
    by (simp add: arg_pointers_def del: apply_args.simps)
  then show ?thesis using n c by (simp del: apply_args.simps)
qed

lemma handler_typed:
  assumes env: "libffi_types P F" "platform_ok P" "LDOUBLE_VALUE_BYTES P \<le> sizeof_ldouble P" "integers_ok L"
    and f: "callable P f vs" "length (fn_args f) = Suc k"
    and g: "retrieve key s = Inr bf" "g w = Some (curry_fn k body [])" "box_function P L f g w0 = Inr bf"
    and w: "lock_held w" "arg_pointers P (cmem w) av ps" "objects_at P L (cmem w) (c_args f) (c_values f vs) ps"
    and b: "body vs w = (w1, Inr v)" "lock_held w1" "type_repr P L (fn_ret f) v"
    and m: "retp < addr_limit P" "mapped (cmem w1) retp (max (sizeof_ffi_arg F) (type_bytes P (fn_ret f)))"
    and c: "cif_nargs c = length (c_args f)" "T (cif_rtype c) = Some (ffi_desc P F (fn_ret f))"
  shows "\<exists>m2 bs. callback_handler_with_lock P F T (lookup_in s) c retp av key w = (w1\<lparr>cmem := m2\<rparr>, Inr ()) \<and>
    encodes P L (fn_ret f) v bs \<and> only_changes retp (max (sizeof_ffi_arg F) (type_bytes P (fn_ret f))) (cmem w1) m2 \<and>
    load_bytes m2 retp (length (widen P F (ffi_desc P F (fn_ret f)) bs)) = Some (widen P F (ffi_desc P F (fn_ret f)) bs)"
proof -
  let ?t = "fn_ret f"
  have pas: "passable P ?t" using f(1) by (simp add: callable_def fn_describable_def)
  have r: "retrieve_closure (lookup_in s) key w = (w, Inr bf)"
    using g(1) w(1) by (simp add: retrieve_closure_def lookup_in_def caml_callback_def)
  from apply_boxed_function [where body = body and g = g, OF env(2) w f(1) c(1) f(2) b(1) g(2,3)]
  have h: "callback_handler_with_lock P F T (lookup_in s) c retp av key w =
      bindA (put_result P L ?t (Result v) (CTYPES_FROM_PTR P retp)) (\<lambda>_. on_mem (promote_result P F (ffi_desc P F ?t) retp)) w1"
    using r c(2) b(2) by (simp add: callback_handler_with_lock_def caml_callback_def del: apply_args.simps)
  from result_stored [OF env pas b(3) m] obtain m1 m2 bs where *:
    "write_value P L ?t v (fatptr P retp) (cmem w1) = Inr m1" "promote_result P F (ffi_desc P F ?t) retp m1 = Inr m2"
    "encodes P L ?t v bs" "only_changes retp (max (sizeof_ffi_arg F) (type_bytes P ?t)) (cmem w1) m2"
    "load_bytes m2 retp (length (widen P F (ffi_desc P F ?t) bs)) = Some (widen P F (ffi_desc P F ?t) bs)"
    by blast
  have "callback_handler_with_lock P F T (lookup_in s) c retp av key w = (w1\<lparr>cmem := m2\<rparr>, Inr ())"
    unfolding h using *(1,2) by (simp add: put_result_def on_mem_def)
  with * show ?thesis by blast
qed

text \<open>
  A \<open>void\<close> before another argument: C passes one argument, which the handler takes for the \<open>void\<close>,
  and the function that still waits for its argument stops the program at the assertion.
\<close>

lemma callback_void_among_arguments:
  assumes g: "box_function P L (Function Void (Function q (Returns t))) g w0 = Inr bf" "retrieve key s = Inr bf"
      "g w = Some (curry_fn 1 body [])"
    and w: "lock_held w" "load_u P (cmem w) av (sizeof_ptr P) = Inr a"
    and c: "cif_nargs c = length (c_args (Function Void (Function q (Returns t))))" "q \<noteq> Void"
  shows "callback_handler_with_lock P F T (lookup_in s) c retp av key w = (w, Inl Assert_failure)"
  using assms
  by (auto simp: callback_handler_with_lock_def retrieve_closure_def lookup_in_def caml_callback_def load_ptr_def try_expired_def)

definition entered :: "ocaml_runtime \<Rightarrow> bool \<Rightarrow> c_world \<Rightarrow> c_world" where
  "entered R acquire w = (if acquire then w\<lparr>lock_held := True, errno := acquire_errno R (errno w)\<rparr> else w)"

definition left :: "ocaml_runtime \<Rightarrow> bool \<Rightarrow> c_world \<Rightarrow> c_world" where
  "left R acquire w = (if acquire then w\<lparr>lock_held := False, errno := release_errno R (errno w)\<rparr> else w)"

text \<open>Making the pointer: the specification is built, the function registered and the closure bound to its code.\<close>

lemma pointer_made:
  assumes env: "libffi_types P F" "platform_ok P"
    and ffi: "accepts F abi" "Int_val P vabi = Inr abi" "0 < pointer_alignment F" "sizeof_ffi_arg F \<le> pointer_size F"
    and f: "fn_describable P f" "fits P (buffer_size P F (fn_types P F f) (ffi_desc P F (fn_ret f)))"
    and id: "oint_ok P (next_id s0)"
    and cl: "closure_alloc CL st = Some (a, code)" "\<forall>st' c. prep_closure_loc CL st' a c = FFI_OK"
    and bf: "box_function P L f g w0 = Inr bf"
  shows "\<exists>s1 st1 c.
    pointer_of_function_internal P L F (static_types F) CL vabi acquire thread f True fid g w0 s0 st =
      Inr (s1, st1, static_types F, Inr (Custom_ptr ''ocaml-ctypes:closure'' a)) \<and>
    record_function True fid bf s0 = (s1, next_id s0) \<and>
    closures st1 a = Some \<lparr>fnkey = next_id s0,
      closure_context = \<lparr>check_errno = False, runtime_lock = acquire, thread_registration = thread\<rparr>, fnptr = code\<rparr> \<and>
    bound st1 code = Some (a, c) \<and>
    cif_nargs c = length (c_args f) \<and> static_types F (cif_rtype c) = Some (ffi_desc P F (fn_ret f))"
proof -
  let ?T = "static_types F" and ?ctx = "\<lparr>check_errno = False, runtime_lock = acquire, thread_registration = thread\<rparr>"
  obtain c0 spec where sp: "ctypes_allocate_callspec P (Val_bool P 0) (Val_bool P (of_bool acquire)) (Val_bool P (of_bool thread)) = Inr c0"
    "build_ccallspec P F ?T vabi 0 f c0 = Inr (spec, ?T, layout_ccallspec P F 0 0 f)"
    "call_ready P F ?T spec (fn_addrs P F f) (fn_types P F f) (ffi_addr P F (fn_ret f)) (ffi_desc P F (fn_ret f))"
    "spec_context spec = ?ctx"
    using allocated_spec_built [OF env ffi f, of False acquire thread 0] by auto
  then have bc: "box_callspec P F ?T vabi f c0 = Inr (spec, ?T)" by (simp add: box_callspec_build [where idx = 0])
  have n: "length (fn_types P F f) = length (c_args f)" by (simp add: fn_types_def)
  obtain c where c: "cif spec = Some c" "cif_nargs c = length (c_args f)" "?T (cif_rtype c) = Some (ffi_desc P F (fn_ret f))"
    and rd: "state spec = CALLSPEC"
    using sp(3) n by (auto simp: call_ready_def)
  define s1 where "s1 = fst (record_function True fid bf s0)"
  have rec: "record_function True fid bf s0 = (s1, next_id s0)"
    by (simp add: s1_def record_function_def Let_def)
  define clo where "clo = \<lparr>fnkey = next_id s0, closure_context = ?ctx, fnptr = code\<rparr>"
  define st1 where "st1 = st\<lparr>closures := (closures st)(a \<mapsto> clo), bound := (bound st)(code \<mapsto> (a, c))\<rparr>"
  have lv: "Long_val (Val_long P (next_id s0)) = Inr (next_id s0)"
    using id platform_okD [OF env(2)] by (simp add: Long_val_Val_long)
  have "ctypes_make_function_pointer CL spec (Val_long P (next_id s0)) st =
      Inr (st1, Inr (Custom_ptr ''ocaml-ctypes:closure'' a))"
    using cl by (simp add: ctypes_make_function_pointer_def rd lv c(1) sp(4) Let_def ctypes_check_ffi_status_def
        st1_def clo_def)
  then have "pointer_of_function_internal P L F ?T CL vabi acquire thread f True fid g w0 s0 st =
      Inr (s1, st1, ?T, Inr (Custom_ptr ''ocaml-ctypes:closure'' a))"
    by (simp add: pointer_of_function_internal_def sp(1) bc rec bf del: of_bool_eq)
  then show ?thesis
    using rec c(2,3) by (intro exI [of _ s1] exI [of _ st1] exI [of _ c]) (simp add: st1_def clo_def)
qed

text \<open>A C call of the code of a closure whose function is registered.\<close>

lemma called_back:
  assumes env: "libffi_types P F" "platform_ok P" "LDOUBLE_VALUE_BYTES P \<le> sizeof_ldouble P" "integers_ok L"
    and f: "callable P f vs" "length (fn_args f) = Suc k"
    and clo: "closures st a = Some \<lparr>fnkey = key,
      closure_context = \<lparr>check_errno = False, runtime_lock = acquire, thread_registration = False\<rparr>, fnptr = code\<rparr>"
      "bound st code = Some (a, c)"
    and c: "cif_nargs c = length (c_args f)" "T (cif_rtype c) = Some (ffi_desc P F (fn_ret f))"
    and live: "retrieve key s = Inr bf" and bf: "box_function P L f g w0 = Inr bf"
    and w: "lock_held w = (\<not> acquire)" "arg_pointers P (cmem w) av ps" "objects_at P L (cmem w) (c_args f) (c_values f vs) ps"
    and g: "g (entered R acquire w) = Some (curry_fn k body [])"
    and b: "body vs (entered R acquire w) = (w1, Inr v)" "lock_held w1" "type_repr P L (fn_ret f) v"
    and m: "retp < addr_limit P" "mapped (cmem w1) retp (max (sizeof_ffi_arg F) (type_bytes P (fn_ret f)))"
  shows "\<exists>m2 bs. call_code P F R T (lookup_in s) thr st code retp av w = (left R acquire (w1\<lparr>cmem := m2\<rparr>), Inr ()) \<and>
    encodes P L (fn_ret f) v bs \<and> only_changes retp (max (sizeof_ffi_arg F) (type_bytes P (fn_ret f))) (cmem w1) m2 \<and>
    load_bytes m2 retp (length (widen P F (ffi_desc P F (fn_ret f)) bs)) = Some (widen P F (ffi_desc P F (fn_ret f)) bs)"
proof -
  let ?r = "ffi_desc P F (fn_ret f)"
  have e: "lock_held (entered R acquire w)" "cmem (entered R acquire w) = cmem w" using w(1) by (simp_all add: entered_def)
  have wa: "arg_pointers P (cmem (entered R acquire w)) av ps"
    "objects_at P L (cmem (entered R acquire w)) (c_args f) (c_values f vs) ps"
    unfolding e(2) by (rule w(2), rule w(3))
  from handler_typed [where g = g and w = "entered R acquire w" and body = body and vs = vs and T = T,
      OF env f live g bf e(1) wa b m c] obtain m2 bs where h:
    "callback_handler_with_lock P F T (lookup_in s) c retp av key (entered R acquire w) = (w1\<lparr>cmem := m2\<rparr>, Inr ())"
    "encodes P L (fn_ret f) v bs" "only_changes retp (max (sizeof_ffi_arg F) (type_bytes P (fn_ret f))) (cmem w1) m2"
    "load_bytes m2 retp (length (widen P F ?r bs)) = Some (widen P F ?r bs)"
    by blast
  have "call_code P F R T (lookup_in s) thr st code retp av w = (left R acquire (w1\<lparr>cmem := m2\<rparr>), Inr ())"
    using h(1) w(1) b(2)
    by (cases acquire) (simp_all add: call_code_def clo callback_handler_def entered_def left_def
        caml_acquire_runtime_system_def caml_release_runtime_system_def)
  then show ?thesis using h(2-4) by blast
qed

text \<open>
  C2: an OCaml function as a C function, end to end.  For every function type over the passable
  primitive types, pointers and function pointers with at least one argument, or with \<open>void\<close> as its only argument, and a result of
  these types or \<open>void\<close>, making a function pointer succeeds
  when libffi has a closure to give, and as long as the function's registration has not been
  finalised, whatever else is registered or finalised meanwhile, a C caller that passes objects
  gets the function applied to the OCaml values these objects read as, in the world the caller left with
  the runtime lock taken if that was asked for; the place of the result then holds the bytes of the
  function's result, widened as \<open>ffi_call\<close> widens them, no other memory is
  changed after the function has returned, and the lock is given back.
\<close>

theorem foreign_callback:
  assumes env: "libffi_types P F" "platform_ok P" "LDOUBLE_VALUE_BYTES P \<le> sizeof_ldouble P" "integers_ok L"
    and ffi: "accepts F abi" "Int_val P vabi = Inr abi" "0 < pointer_alignment F" "sizeof_ffi_arg F \<le> pointer_size F"
    and f: "callable P f vs" "length (fn_args f) = Suc k"
    and fit: "fits P (buffer_size P F (fn_types P F f) (ffi_desc P F (fn_ret f)))"
    and reg: "registry_ok s0" "oint_ok P (next_id s0)" "Finalise (next_id s0) \<notin> set ops"
    and cl: "closure_alloc CL st = Some (a, code)" "\<forall>st' c. prep_closure_loc CL st' a c = FFI_OK"
    and w: "lock_held w = (\<not> acquire)" "arg_pointers P (cmem w) av ps" "objects_at P L (cmem w) (c_args f) (c_values f vs) ps"
    and g: "g (entered R acquire w) = Some (curry_fn k body [])"
    and b: "body vs (entered R acquire w) = (w1, Inr v)" "lock_held w1" "type_repr P L (fn_ret f) v"
    and m: "retp < addr_limit P" "mapped (cmem w1) retp (max (sizeof_ffi_arg F) (type_bytes P (fn_ret f)))"
  shows "\<exists>s1 st1 m2 bs.
    pointer_of_function_internal P L F (static_types F) CL vabi acquire False f True fid g w0 s0 st =
      Inr (s1, st1, static_types F, Inr (Custom_ptr ''ocaml-ctypes:closure'' a)) \<and>
    ctypes_raw_address_of_function_pointer P (Custom_ptr ''ocaml-ctypes:closure'' a) st1 = Inr (CTYPES_FROM_PTR P code) \<and>
    call_code P F R (static_types F) (lookup_in (reg.run_ops ops s1)) thr st1 code retp av w =
      (left R acquire (w1\<lparr>cmem := m2\<rparr>), Inr ()) \<and>
    encodes P L (fn_ret f) v bs \<and> only_changes retp (max (sizeof_ffi_arg F) (type_bytes P (fn_ret f))) (cmem w1) m2 \<and>
    load_bytes m2 retp (length (widen P F (ffi_desc P F (fn_ret f)) bs)) = Some (widen P F (ffi_desc P F (fn_ret f)) bs)"
proof -
  let ?T = "static_types F" and ?r = "ffi_desc P F (fn_ret f)"
  have fd: "fn_describable P f" using f(1) by (simp add: callable_def)
  obtain bf where bf: "box_function P L f g w0 = Inr bf" using f(2) by (cases f) simp_all
  obtain s1 st1 c where pf: "pointer_of_function_internal P L F ?T CL vabi acquire False f True fid g w0 s0 st =
      Inr (s1, st1, ?T, Inr (Custom_ptr ''ocaml-ctypes:closure'' a))"
    and rec: "record_function True fid bf s0 = (s1, next_id s0)"
    and clo: "closures st1 a = Some \<lparr>fnkey = next_id s0,
      closure_context = \<lparr>check_errno = False, runtime_lock = acquire, thread_registration = False\<rparr>, fnptr = code\<rparr>"
      "bound st1 code = Some (a, c)"
    and c: "cif_nargs c = length (c_args f)" "?T (cif_rtype c) = Some ?r"
    using pointer_made [OF env(1,2) ffi fd fit reg(2) cl bf, of acquire False fid] by blast
  have live: "retrieve (next_id s0) (reg.run_ops ops s1) = Inr bf"
    using reg.live [OF reg(1), of fid bf ops] rec reg(3) by simp
  from called_back [where T = ?T and thr = thr, OF env f clo c live bf w g b m] obtain m2 bs where h:
    "call_code P F R ?T (lookup_in (reg.run_ops ops s1)) thr st1 code retp av w = (left R acquire (w1\<lparr>cmem := m2\<rparr>), Inr ())"
    "encodes P L (fn_ret f) v bs" "only_changes retp (max (sizeof_ffi_arg F) (type_bytes P (fn_ret f))) (cmem w1) m2"
    "load_bytes m2 retp (length (widen P F ?r bs)) = Some (widen P F ?r bs)"
    by blast
  moreover have "ctypes_raw_address_of_function_pointer P (Custom_ptr ''ocaml-ctypes:closure'' a) st1 = Inr (CTYPES_FROM_PTR P code)"
    by (simp add: ctypes_raw_address_of_function_pointer_def clo)
  ultimately show ?thesis using pf by blast
qed

text \<open>The function that returns its first argument, called by C without the lock on two objects full of zeros.\<close>

definition ex_cb :: c_fn where
  "ex_cb = Function (Primitive Ctypes_Int) (Function Pointer (Returns (Primitive Ctypes_Int)))"

definition ex_fst :: "value list \<Rightarrow> value act" where
  "ex_fst vs w = (w, Inr (vs ! 0))"

lemma ex_stack_zeros: "a + n \<le> 1024 \<Longrightarrow> load_bytes (cmem ex_stack) a n = Some (replicate n 0)"
  by (rule load_bytesI) (simp_all add: ex_stack_def)

lemma dec_zeros: "dec lp64 (replicate n 0) = 0"
proof -
  have "of_le (replicate n 0) = 0" by (induction n) simp_all
  then show ?thesis by (simp add: dec_def)
qed

lemma ex_cb_ok:
  "fn_types lp64 (example_libffi lp64) ex_cb =
     [ffi_type_desc (example_libffi lp64) Ft_sint, ffi_type_desc (example_libffi lp64) Ft_pointer]"
  "fn_ret ex_cb = Primitive Ctypes_Int" "callable lp64 ex_cb [x, y]" "length (fn_args ex_cb) = Suc 1"
  "buffer_size lp64 (example_libffi lp64) (fn_types lp64 (example_libffi lp64) ex_cb)
     (ffi_desc lp64 (example_libffi lp64) (fn_ret ex_cb)) = 48"
proof -
  show t: "fn_types lp64 (example_libffi lp64) ex_cb =
     [ffi_type_desc (example_libffi lp64) Ft_sint, ffi_type_desc (example_libffi lp64) Ft_pointer]"
    "fn_ret ex_cb = Primitive Ctypes_Int"
    using ex_desc(2) [of Pointer String] by (simp_all add: ex_cb_def ex_desc(1))
  show "callable lp64 ex_cb [x, y]" "length (fn_args ex_cb) = Suc 1"
    by (simp_all add: callable_def ex_cb_def no_ffi_type_def passable_def)
  show "buffer_size lp64 (example_libffi lp64) (fn_types lp64 (example_libffi lp64) ex_cb)
     (ffi_desc lp64 (example_libffi lp64) (fn_ret ex_cb)) = 48"
    by (rule ex_fn_size [OF t])
qed

lemma ex_closures_ok:
  "registry_ok (empty_registry :: (nat, boxedfn) registry)"
  "oint_ok lp64 (next_id (empty_registry :: (nat, boxedfn) registry))"
  "closure_alloc ex_closures ex_closure_state = Some (64, 128)" "\<forall>st c. prep_closure_loc ex_closures st 64 c = FFI_OK"
  using registry_ok_empty by (simp_all add: empty_registry_def oint_ok_def in_srange_def ex_closures_def ex_closure_state_def)

theorem foreign_callback_witness:
  "\<exists>s1 st1 w'. pointer_of_function_internal lp64 (boxed_integers lp64) (example_libffi lp64) (static_types (example_libffi lp64)) ex_closures
       (Val_int lp64 2) True False ex_cb True (7 :: nat) (\<lambda>w. Some (curry_fn 1 ex_fst [])) ex_world empty_registry ex_closure_state =
       Inr (s1, st1, static_types (example_libffi lp64), Inr (Custom_ptr ''ocaml-ctypes:closure'' 64)) \<and>
     call_code lp64 (example_libffi lp64) ex_runtime (static_types (example_libffi lp64)) (lookup_in s1)
       ctypes_thread_register_fail st1 128 512 0 (ex_stack\<lparr>lock_held := False\<rparr>) = (w', Inr ()) \<and> \<not> lock_held w'"
proof -
  let ?F = "example_libffi lp64" and ?L = "boxed_integers lp64" and ?w = "ex_stack\<lparr>lock_held := False\<rparr>"
  let ?vs = "[Val_int lp64 0, CPointer (fatptr lp64 0)]" and ?ops = "[] :: (nat, boxedfn) registry_op list"
  have fit: "fits lp64 (buffer_size lp64 ?F (fn_types lp64 ?F ex_cb) (ffi_desc lp64 ?F (fn_ret ex_cb)))"
    unfolding ex_cb_ok(5) by (simp add: fits_lp64)
  have ops: "Finalise (next_id (empty_registry :: (nat, boxedfn) registry)) \<notin> set ?ops" by simp
  have lw: "lock_held ?w = (\<not> True)" by simp
  have av: "arg_pointers lp64 (cmem ?w) 0 [0, 0]"
    by (auto simp: arg_pointers_def load_u_def ex_stack_zeros dec_zeros less_Suc_eq)
  have enc: "encodes lp64 ?L (Primitive Ctypes_Int) (Val_int lp64 0) (replicate 4 0)"
    "encodes lp64 ?L Pointer (CPointer (fatptr lp64 0)) (replicate 8 0)"
    using load_bytes_mem [of "replicate 4 0"] load_bytes_mem [of "replicate 8 0"]
    by (simp_all add: encodes_def value_of_bytes_def ctypes_read_def ctypes_read_pointer_def load_s_def load_u_def dec_zeros
        swrap_def del: load_bytes_mem)
  then have ob: "objects_at lp64 ?L (cmem ?w) (c_args ex_cb) (c_values ex_cb ?vs) [0, 0]"
    by (auto simp: objects_at_def ex_cb_def less_Suc_eq ex_stack_zeros)
  let ?w1 = "entered ex_runtime True ?w"
  have b: "ex_fst ?vs ?w1 = (?w1, Inr (Val_int lp64 0))" "lock_held ?w1"
    by (simp_all add: ex_fst_def entered_def)
  have ty: "type_repr lp64 ?L (fn_ret ex_cb) (Val_int lp64 0)"
    by (auto simp: ex_cb_def in_srange_def oint_ok_def intro: exI [of _ 0])
  have m: "512 < addr_limit lp64" "mapped (cmem ?w1) 512 (max (sizeof_ffi_arg ?F) (type_bytes lp64 (fn_ret ex_cb)))"
    by (simp_all add: entered_def ex_env(6) mapped_iff ex_stack_def ex_cb_def)
  have g: "(\<lambda>w. Some (curry_fn 1 ex_fst [])) ?w1 = Some (curry_fn 1 ex_fst [])" by simp
  from foreign_callback [where fid = "7 :: nat" and thr = ctypes_thread_register_fail and ?w0.0 = ex_world,
      OF example_lp64.libffi_types_axioms platform_ok_lp64 ex_env(1) boxed_lp64.ok ex_env(2-5) ex_cb_ok(3,4) fit
      ex_closures_ok(1,2) ops ex_closures_ok(3,4) lw av ob g b ty m]
  show ?thesis by (auto simp: left_def)
qed

end
