(* ===== verification/Foreign_Roundtrip.thy ===== *)
theory Foreign_Roundtrip
  imports Foreign_Callback
begin

text \<open>
  Calls and callbacks together: an OCaml function that is made a C function pointer by
  \<open>pointer_of_function\<close> and called through that pointer by \<open>function_of_pointer\<close>, as
  \<open>src/ctypes-foreign/ctypes_ffi.ml\<close> does for every \<open>Foreign.funptr\<close>.  Between the two stands the code that libffi
  generates for a closure; its contract is the definition \<open>trampoline\<close>.
\<close>

section \<open>The code of a closure\<close>

text \<open>
  The code at \<open>code\<close>, called with arguments of these bytes, puts them and an array of pointers to them into memory,
  makes room for the result, runs the handler of the closure and returns the result that it left
  there, without the widening.
\<close>

definition trampoline ::
    "platform \<Rightarrow> libffi \<Rightarrow> ocaml_runtime \<Rightarrow> ffi_types \<Rightarrow> retriever option \<Rightarrow> unit act \<Rightarrow> closure_state \<Rightarrow> c_functions \<Rightarrow>
       nat \<Rightarrow> ffi_type list \<Rightarrow> ffi_type \<Rightarrow> bool" where
  "trampoline P F R T cb thr st sem code ts r \<longleftrightarrow>
     (\<forall>bss w. map length bss = map ft_size ts \<longrightarrow>
        (\<exists>m av ps retp.
           length ps = length bss \<and> arg_pointers P m av ps \<and>
           (\<forall>i < length bss. ps ! i < addr_limit P \<and> load_bytes m (ps ! i) (length (bss ! i)) = Some (bss ! i)) \<and>
           retp < addr_limit P \<and> mapped m retp (max (sizeof_ffi_arg F) (result_size r)) \<and>
           (\<forall>a k. mapped (cmem w) a k \<longrightarrow> mapped m a k) \<and>
           (\<forall>w' bs. call_code P F R T cb thr st code retp av (w\<lparr>cmem := m\<rparr>) = (w', Inr ()) \<and> length bs = result_size r \<and>
              load_bytes (cmem w') retp (length (widen P F r bs)) = Some (widen P F r bs) \<longrightarrow>
              sem code bss w = (w', bs))))"

text \<open>An OCaml function that returns \<open>v\<close> for the arguments \<open>vs\<close> in every world in which OCaml may run.\<close>

definition returns_always :: "(value list \<Rightarrow> value act) \<Rightarrow> value list \<Rightarrow> value \<Rightarrow> bool" where
  "returns_always body vs v \<longleftrightarrow>
     (\<forall>w. lock_held w \<longrightarrow> (\<exists>w'. body vs w = (w', Inr v) \<and> lock_held w' \<and>
        (\<forall>a k. mapped (cmem w) a k \<longrightarrow> mapped (cmem w') a k)))"

lemma entered_left [simp]:
  "lock_held w = (\<not> acquire) \<Longrightarrow> lock_held (entered R acquire w)" "cmem (entered R acquire w) = cmem w"
  "lock_held w \<Longrightarrow> lock_held (left R acquire w) = (\<not> acquire)" "cmem (left R acquire w) = cmem w"
  by (simp_all add: entered_def left_def)

text \<open>The arguments that reach the trampoline read as the OCaml values.\<close>

lemma passed_objects:
  assumes P: "platform_ok P" "libffi_types P F" and f: "callable P f vs"
    and b: "all_pass P L R f vs bss"
  shows "map length bss = map ft_size (fn_types P F f)"
    "\<lbrakk>length ps = length bss; \<forall>i < length bss. ps ! i < addr_limit P \<and> load_bytes m (ps ! i) (length (bss ! i)) = Some (bss ! i)\<rbrakk>
      \<Longrightarrow> objects_at P L m (c_args f) (c_values f vs) ps"
proof -
  have fd: "fn_describable P f" "length vs = length (fn_args f)" "\<not> has_ocaml_argument f"
    using f by (simp_all add: callable_def)
  have n: "length bss = length (c_args f)" using b by (simp add: all_pass_def)
  have d: "describable P (c_args f ! i) \<and> c_args f ! i \<noteq> Void \<and> \<not> ocaml_value (c_args f ! i)" if "i < length (c_args f)" for i
  proof -
    have t: "c_args f ! i \<in> set (c_args f)" using that by simp
    then have "c_args f ! i \<in> set (fn_args f)" by (simp add: c_args_def)
    then show ?thesis using c_args_describable [OF fd(1) t] args_passable [OF fd(1,3)] by (simp add: passable_def)
  qed
  have e: "encodes P L (c_args f ! i) (c_values f vs ! i) (bss ! i)" if "i < length (c_args f)" for i
    using b d [OF that] that by (simp add: all_pass_def passes_def)
  show "map length bss = map ft_size (fn_types P F f)"
    using n d e arg_type_ok(7) [OF P(2,1)] by (intro nth_equalityI) (simp_all add: fn_types_def encodes_def)
  show "objects_at P L m (c_args f) (c_values f vs) ps"
    if "length ps = length bss" "\<forall>i < length bss. ps ! i < addr_limit P \<and> load_bytes m (ps ! i) (length (bss ! i)) = Some (bss ! i)"
    using that e n fd(2) unfolding objects_at_def encodes_def by auto
qed

section \<open>Through the pointer and back\<close>

text \<open>What the trampoline returns is an object that reads as the result of the OCaml function.\<close>

lemma trampoline_returns:
  assumes env: "libffi_types P F" "platform_ok P" "LDOUBLE_VALUE_BYTES P \<le> sizeof_ldouble P" "integers_ok L"
    and f: "callable P f vs" "length (fn_args f) = Suc k"
    and clo: "closures st a = Some \<lparr>fnkey = key,
      closure_context = \<lparr>check_errno = False, runtime_lock = acquire, thread_registration = False\<rparr>, fnptr = code\<rparr>"
      "bound st code = Some (a, c)"
    and c: "cif_nargs c = length (c_args f)" "T (cif_rtype c) = Some (ffi_desc P F (fn_ret f))"
    and live: "retrieve key s = Inr bf" and bf: "box_function P L f g wm = Inr bf"
    and g: "\<forall>w. g w = Some (curry_fn k body [])"
    and b: "returns_always body vs v" "type_repr P L (fn_ret f) v"
    and tr: "trampoline P F R T (lookup_in s) thr st sem code (fn_types P F f) (ffi_desc P F (fn_ret f))"
    and bss: "all_pass P L R f vs bss" and w: "lock_held w = (\<not> acquire)"
  shows "\<exists>w' bs. sem code bss w = (w', bs) \<and> encodes P L (fn_ret f) v bs \<and> lock_held w' = (\<not> acquire) \<and>
    (\<forall>a k. mapped (cmem w) a k \<longrightarrow> mapped (cmem w') a k)"
proof -
  let ?r = "ffi_desc P F (fn_ret f)"
  have "passable P (fn_ret f)" using f(1) by (simp add: callable_def fn_describable_def)
  then have rs: "result_size ?r = type_bytes P (fn_ret f)"
    by (intro arg_type_ok(4) [OF env(1,2)]) (simp add: passable_def)
  note po = passed_objects [OF env(2,1) f(1) bss]
  from tr [unfolded trampoline_def, rule_format, OF po(1)] obtain m av ps retp where
    t: "length ps = length bss" "arg_pointers P m av ps"
    "\<forall>i < length bss. ps ! i < addr_limit P \<and> load_bytes m (ps ! i) (length (bss ! i)) = Some (bss ! i)"
    "retp < addr_limit P" "mapped m retp (max (sizeof_ffi_arg F) (type_bytes P (fn_ret f)))"
    "\<forall>a k. mapped (cmem w) a k \<longrightarrow> mapped m a k"
    "\<And>w' bs. call_code P F R T (lookup_in s) thr st code retp av (w\<lparr>cmem := m\<rparr>) = (w', Inr ()) \<Longrightarrow>
       length bs = type_bytes P (fn_ret f) \<Longrightarrow> load_bytes (cmem w') retp (length (widen P F ?r bs)) = Some (widen P F ?r bs) \<Longrightarrow>
       sem code bss w = (w', bs)"
    unfolding rs by metis
  define w0 where "w0 = w\<lparr>cmem := m\<rparr>"
  have lk: "lock_held w0 = (\<not> acquire)" and cm: "cmem w0 = m" by (simp_all add: w0_def w)
  obtain w1 where w1: "body vs (entered R acquire w0) = (w1, Inr v)" "lock_held w1"
    "\<forall>a k. mapped m a k \<longrightarrow> mapped (cmem w1) a k"
    using b(1) lk cm unfolding returns_always_def by (metis entered_left(1,2))
  have args: "arg_pointers P (cmem w0) av ps" "objects_at P L (cmem w0) (c_args f) (c_values f vs) ps"
    unfolding cm by (rule t(2), rule po(2) [OF t(1,3)])
  have mr: "mapped (cmem w1) retp (max (sizeof_ffi_arg F) (type_bytes P (fn_ret f)))" using w1(3) t(5) by blast
  from called_back [where T = T and thr = thr and R = R, OF env f clo c live bf lk args g [rule_format] w1(1,2) b(2) t(4) mr]
  obtain m2 bs where cb: "call_code P F R T (lookup_in s) thr st code retp av w0 = (left R acquire (w1\<lparr>cmem := m2\<rparr>), Inr ())"
    "encodes P L (fn_ret f) v bs" "only_changes retp (max (sizeof_ffi_arg F) (type_bytes P (fn_ret f))) (cmem w1) m2"
    "load_bytes m2 retp (length (widen P F ?r bs)) = Some (widen P F ?r bs)"
    by blast
  have "sem code bss w = (left R acquire (w1\<lparr>cmem := m2\<rparr>), bs)"
    by (rule t(7) [OF cb(1) [unfolded w0_def]]) (use cb(2,4) in \<open>simp_all add: encodes_def\<close>)
  moreover have "mapped m2 a k = mapped (cmem w1) a k" for a k using only_changesD(2) [OF cb(3)] .
  ultimately show ?thesis using cb(2) w1(2,3) t(6) by simp
qed

text \<open>
  C3: an OCaml function called through its own C function pointer.  For every function type that C can call,
  \<open>pointer_of_function\<close> makes a pointer to the function, \<open>function_of_pointer\<close> makes a function of
  the pointer, and applying that to OCaml values of the argument types returns the value that the original function returns
  for these values: through the writers, libffi's call, the code of the closure, the handler, the readers, the
  function, the writer of the result, its widening, and the reader of the result.  It holds as long as the
  registration of the function has not been finalised, whatever else is registered or finalised, with the runtime lock
  released around the call and taken again by the callback, or held throughout.
\<close>

theorem function_pointer_roundtrip:
  assumes env: "libffi_types P F" "platform_ok P" "LDOUBLE_VALUE_BYTES P \<le> sizeof_ldouble P" "integers_ok L"
    and ffi: "accepts F abi" "Int_val P vabi = Inr abi" "0 < pointer_alignment F" "sizeof_ffi_arg F \<le> pointer_size F"
      "ffi_calls P F (static_types F) sem ffi_call"
    and f: "callable P f vs" "length (fn_args f) = Suc k" "list_all2 (type_repr P L) (fn_args f) vs"
    and fit: "fits P (buffer_size P F (fn_types P F f) (ffi_desc P F (fn_ret f)))"
    and reg: "registry_ok s0" "oint_ok P (next_id s0)" "Finalise (next_id s0) \<notin> set ops"
    and cl: "closure_alloc CL st = Some (a, code)" "\<forall>st' c. prep_closure_loc CL st' a c = FFI_OK" "code < addr_limit P"
    and made: "pointer_of_function_internal P L F (static_types F) CL vabi lock False f True fid g w0 s0 st = Inr (s1, st1, T1, Inr ptr)"
    and tr: "trampoline P F R (static_types F) (lookup_in (reg.run_ops ops s1)) thr st1 sem code (fn_types P F f)
      (ffi_desc P F (fn_ret f))"
    and g: "\<forall>w. g w = Some (curry_fn k body [])"
    and b: "returns_always body vs v" "type_repr P L (fn_ret f) v"
    and w: "lock_held w" "stack_ptr w < addr_limit P"
      "stack_limit R + buffer_size P F (fn_types P F f) (ffi_desc P F (fn_ret f)) + length vs * sizeof_ptr P + 32 \<le> stack_ptr w"
  shows "ctypes_raw_address_of_function_pointer P ptr st1 = Inr (CTYPES_FROM_PTR P code) \<and>
    (\<exists>spec cc w2. function_of_pointer P F (static_types F) vabi lock False f = Inr (spec, static_types F, cc) \<and>
       invoke P L F R ffi_call (static_types F) name cc [] spec (Fat_make (CTYPES_FROM_PTR P code)) vs w = (w2, Inr v) \<and>
       lock_held w2 \<and> stack_ptr w2 = stack_ptr w)"
proof -
  let ?T = "static_types F"
  obtain bf where bf: "box_function P L f g w0 = Inr bf" using f(2) by (cases f) simp_all
  have fd: "fn_describable P f" "\<not> has_ocaml_argument f" using f(1) by (simp_all add: callable_def)
  have rp: "refs_in_place f" using fd(2) by (induction f) (auto split: if_splits)
  obtain c where p: "record_function True fid bf s0 = (s1, next_id s0)" "ptr = Custom_ptr ''ocaml-ctypes:closure'' a"
    and clo: "closures st1 a = Some \<lparr>fnkey = next_id s0,
      closure_context = \<lparr>check_errno = False, runtime_lock = lock, thread_registration = False\<rparr>, fnptr = code\<rparr>"
      "bound st1 code = Some (a, c)"
    and c: "cif_nargs c = length (c_args f)" "?T (cif_rtype c) = Some (ffi_desc P F (fn_ret f))"
    using pointer_made [OF env(1,2) ffi(1-4) fd(1) fit reg(2) cl(1,2) bf, of lock False fid] made by auto
  have live: "retrieve (next_id s0) (reg.run_ops ops s1) = Inr bf"
    using reg.live [OF reg(1), of fid bf ops] p(1) reg(3) by simp
  note returned = trampoline_returns [OF env f(1,2) clo c live bf g b tr]
  have wb: "\<forall>bss. all_pass P L R f vs bss \<longrightarrow> well_behaved lock sem code bss (type_bytes P (fn_ret f))"
    using returned unfolding well_behaved_def encodes_def by fastforce
  obtain spec where spec: "build_function P F ?T vabi lock False f = Inr (spec, ?T, layout_ccallspec P F 0 0 f)"
    "call_ready P F ?T spec (fn_addrs P F f) (fn_types P F f) (ffi_addr P F (fn_ret f)) (ffi_desc P F (fn_ret f))"
    "spec_context spec = \<lparr>check_errno = False, runtime_lock = lock, thread_registration = False\<rparr>"
    using build_function_ok [OF env(1,2) ffi(1-4) fd(1) fit, of lock False] by blast
  from invoke_ok [OF env ffi(5) spec(2,3) fd(1) rp f(3) wb cl(3) w, of name] obtain bss w1 w2 where
    i: "all_pass P L R f vs bss" "lock_held w1 = (\<not> lock)" "lock_held w2" "stack_ptr w2 = stack_ptr w"
    "case sem code bss w1 of (w1', bs) \<Rightarrow>
       invoke P L F R ffi_call ?T name (layout_ccallspec P F 0 0 f) [] spec (fatptr P code) vs w =
         (w2, value_of_bytes P L (fn_ret f) bs)"
    by (elim exE conjE) (rule that; simp)
  from returned [OF i(1,2)] obtain w' bs where "sem code bss w1 = (w', bs)" "encodes P L (fn_ret f) v bs" by blast
  then have "invoke P L F R ffi_call ?T name (layout_ccallspec P F 0 0 f) [] spec (fatptr P code) vs w = (w2, Inr v)"
    using i(5) by (simp add: encodes_def)
  then show ?thesis
    using spec(1) i(3,4) fd(2) clo p(2)
    by (simp add: function_of_pointer_def ctypes_raw_address_of_function_pointer_def)
qed

section \<open>A trampoline on lp64\<close>

text \<open>
  A stack frame at a fixed address for functions of an \<open>int\<close> and a pointer: room for the result, the pointers to the arguments, the
  arguments.
\<close>

definition overlay :: "memory \<Rightarrow> nat \<Rightarrow> byte list \<Rightarrow> memory" where
  "overlay m base bs x = (if base \<le> x \<and> x < base + length bs then Some (bs ! (x - base)) else m x)"

lemma load_overlay:
  "off + n \<le> length bs \<Longrightarrow> load_bytes (overlay m base bs) (base + off) n = Some (take n (drop off bs))"
  by (rule load_bytesI) (auto simp: overlay_def)

lemma mapped_overlay:
  "mapped m a k \<Longrightarrow> mapped (overlay m base bs) a k" "n \<le> length bs \<Longrightarrow> mapped (overlay m base bs) base n"
  by (auto simp: mapped_iff overlay_def)

definition ex_frame :: "byte list list \<Rightarrow> byte list" where
  "ex_frame bss = replicate 16 0 @ enc lp64 8 131104 @ enc lp64 8 131108 @ bss ! 0 @ bss ! 1"

definition ex_trampoline :: "retriever option \<Rightarrow> closure_state \<Rightarrow> c_functions" where
  "ex_trampoline cb st code bss w =
     (case call_code lp64 (example_libffi lp64) ex_runtime (static_types (example_libffi lp64)) cb ctypes_thread_register_fail st
         code 131072 131088 (w\<lparr>cmem := overlay (cmem w) 131072 (ex_frame bss)\<rparr>) of
        (w', Inl e) \<Rightarrow> (w', [])
      | (w', Inr u) \<Rightarrow> (w', case load_bytes (cmem w') 131072 4 of Some bs \<Rightarrow> bs | None \<Rightarrow> []))"

lemma ex_trampoline_ok:
  "trampoline lp64 (example_libffi lp64) ex_runtime (static_types (example_libffi lp64)) cb ctypes_thread_register_fail st
     (ex_trampoline cb st) code
     [ffi_type_desc (example_libffi lp64) Ft_sint, ffi_type_desc (example_libffi lp64) Ft_pointer]
     (ffi_type_desc (example_libffi lp64) Ft_sint)"
  unfolding trampoline_def
proof (intro allI impI)
  let ?F = "example_libffi lp64" and ?r = "ffi_type_desc (example_libffi lp64) Ft_sint"
  fix bss :: "byte list list" and w :: c_world
  assume "map length bss = map ft_size [?r, ffi_type_desc ?F Ft_pointer]"
  then obtain b0 b1 where b: "bss = [b0, b1]" "length b0 = 4" "length b1 = 8"
    by (auto simp: example_libffi_def map_eq_Cons_conv)
  let ?m = "overlay (cmem w) 131072 (ex_frame bss)"
  have l: "length (ex_frame bss) = 44" by (simp add: ex_frame_def b)
  have r: "ft_size ?r = 4" "result_size ?r = 4" "widened ?F ?r" "length (widen lp64 ?F ?r bs) = 8" for bs
    by (simp_all add: example_libffi_def result_size_def int_kind_def widened_def widen_def)
  have "load_u lp64 ?m 131088 8 = Inr 131104" "load_u lp64 ?m 131096 8 = Inr 131108"
    using load_overlay [of 16 8 "ex_frame bss" "cmem w" 131072] load_overlay [of 24 8 "ex_frame bss" "cmem w" 131072] l
    by (simp_all add: load_u_def ex_frame_def uwrap_def codec)
  then have ptrs: "arg_pointers lp64 ?m 131088 [131104, 131108]" by (auto simp: arg_pointers_def less_Suc_eq)
  have args: "load_bytes ?m 131104 (length b0) = Some b0" "load_bytes ?m 131108 (length b1) = Some b1"
    using load_overlay [of 32 4 "ex_frame bss" "cmem w" 131072] load_overlay [of 36 8 "ex_frame bss" "cmem w" 131072] l b
    by (simp_all add: ex_frame_def)
  have ret: "mapped ?m 131072 (max (sizeof_ffi_arg ?F) (result_size ?r))"
    using l by (intro mapped_overlay(2)) (simp add: r ex_env(6))
  have out: "ex_trampoline cb st code bss w = (w', bs)"
    if "call_code lp64 ?F ex_runtime (static_types ?F) cb ctypes_thread_register_fail st code 131072 131088 (w\<lparr>cmem := ?m\<rparr>) = (w', Inr ())"
      "length bs = result_size ?r"
      "load_bytes (cmem w') 131072 (length (widen lp64 ?F ?r bs)) = Some (widen lp64 ?F ?r bs)" for w' bs
  proof -
    have "length bs = ft_size ?r" using that(2) r by simp
    from widen_read [OF this, of lp64 ?F] have "take 4 (widen lp64 ?F ?r bs) = bs"
      by (simp add: adjustment_eq r)
    then have "load_bytes (cmem w') 131072 4 = Some bs"
      using load_bytes_sub [OF that(3), of 0 4] by (simp add: r)
    with that(1) show ?thesis by (simp add: ex_trampoline_def)
  qed
  show "\<exists>m av ps retp.
      length ps = length bss \<and> arg_pointers lp64 m av ps \<and>
      (\<forall>i < length bss. ps ! i < addr_limit lp64 \<and> load_bytes m (ps ! i) (length (bss ! i)) = Some (bss ! i)) \<and>
      retp < addr_limit lp64 \<and> mapped m retp (max (sizeof_ffi_arg ?F) (result_size ?r)) \<and>
      (\<forall>a k. mapped (cmem w) a k \<longrightarrow> mapped m a k) \<and>
      (\<forall>w' bs. call_code lp64 ?F ex_runtime (static_types ?F) cb ctypes_thread_register_fail st code retp av (w\<lparr>cmem := m\<rparr>) = (w', Inr ()) \<and>
         length bs = result_size ?r \<and> load_bytes (cmem w') retp (length (widen lp64 ?F ?r bs)) = Some (widen lp64 ?F ?r bs) \<longrightarrow>
         ex_trampoline cb st code bss w = (w', bs))"
    using ptrs args ret out mapped_overlay(1)
    by (intro exI [of _ ?m] exI [of _ 131088] exI [of _ "[131104, 131108]"] exI [of _ 131072])
      (auto simp: b(1) less_Suc_eq)
qed

text \<open>The OCaml function that returns its first argument, called through its pointer with \<open>-5\<close>.\<close>

theorem function_pointer_roundtrip_witness:
  "\<exists>s1 st1 spec cc w2.
     pointer_of_function_internal lp64 (boxed_integers lp64) (example_libffi lp64) (static_types (example_libffi lp64)) ex_closures
       (Val_int lp64 2) True False ex_cb True (7 :: nat) (\<lambda>w. Some (curry_fn 1 ex_fst [])) ex_world empty_registry ex_closure_state =
       Inr (s1, st1, static_types (example_libffi lp64), Inr (Custom_ptr ''ocaml-ctypes:closure'' 64)) \<and>
     function_of_pointer lp64 (example_libffi lp64) (static_types (example_libffi lp64)) (Val_int lp64 2) True False ex_cb =
       Inr (spec, static_types (example_libffi lp64), cc) \<and>
     invoke lp64 (boxed_integers lp64) (example_libffi lp64) ex_runtime
       (reference_ffi_call lp64 (example_libffi lp64) (static_types (example_libffi lp64)) (ex_trampoline (lookup_in s1) st1))
       (static_types (example_libffi lp64)) [102] cc [] spec (Fat_make (CTYPES_FROM_PTR lp64 128))
       [Val_int lp64 (- 5), CPointer (fatptr lp64 64)] ex_world = (w2, Inr (Val_int lp64 (- 5)))"
proof -
  let ?F = "example_libffi lp64" and ?L = "boxed_integers lp64" and ?vs = "[Val_int lp64 (- 5), CPointer (fatptr lp64 64)]"
  let ?ops = "[] :: (nat, boxedfn) registry_op list" and ?g = "\<lambda>w :: c_world. Some (curry_fn 1 ex_fst [])"
  have fit: "fits lp64 (buffer_size lp64 ?F (fn_types lp64 ?F ex_cb) (ffi_desc lp64 ?F (fn_ret ex_cb)))"
    unfolding ex_cb_ok(5) by (simp add: fits_lp64)
  have "fn_describable lp64 ex_cb" using ex_cb_ok(3) by (simp add: callable_def)
  obtain bf where bf: "box_function lp64 ?L ex_cb ?g ex_world = Inr bf" by (simp add: ex_cb_def)
  from pointer_made [OF example_lp64.libffi_types_axioms platform_ok_lp64 ex_env(2-5) \<open>fn_describable lp64 ex_cb\<close> fit
      ex_closures_ok(2-4) bf, of True False "7 :: nat"]
  obtain s1 st1 where made: "pointer_of_function_internal lp64 ?L ?F (static_types ?F) ex_closures (Val_int lp64 2) True False ex_cb True
      (7 :: nat) ?g ex_world empty_registry ex_closure_state = Inr (s1, st1, static_types ?F, Inr (Custom_ptr ''ocaml-ctypes:closure'' 64))"
    by blast
  have ops: "Finalise (next_id (empty_registry :: (nat, boxedfn) registry)) \<notin> set ?ops" by simp
  have "prim_repr lp64 ?L Ctypes_Int (Val_int lp64 (- 5))"
    by (auto simp: in_srange_def oint_ok_def intro: exI [of _ "- 5"])
  then have ty: "list_all2 (type_repr lp64 ?L) (fn_args ex_cb) ?vs" "type_repr lp64 ?L (fn_ret ex_cb) (Val_int lp64 (- 5))"
    by (auto simp: ex_cb_def intro!: exI [of _ 64])
  have ret: "returns_always ex_fst ?vs (Val_int lp64 (- 5))" by (simp add: returns_always_def ex_fst_def)
  have "ffi_desc lp64 ?F (fn_ret ex_cb) = ffi_type_desc ?F Ft_sint" by (simp add: ex_cb_ok(2) ex_desc(1))
  then have tr: "trampoline lp64 ?F ex_runtime (static_types ?F) (lookup_in (reg.run_ops ?ops s1)) ctypes_thread_register_fail st1
      (ex_trampoline (lookup_in s1) st1) 128 (fn_types lp64 ?F ex_cb) (ffi_desc lp64 ?F (fn_ret ex_cb))"
    using ex_trampoline_ok [of "lookup_in s1" st1 128] ex_cb_ok(1) by simp
  have w: "lock_held ex_world" "stack_ptr ex_world < addr_limit lp64"
    "stack_limit ex_runtime + buffer_size lp64 ?F (fn_types lp64 ?F ex_cb) (ffi_desc lp64 ?F (fn_ret ex_cb)) +
       length ?vs * sizeof_ptr lp64 + 32 \<le> stack_ptr ex_world"
    unfolding ex_cb_ok(5) by (simp_all add: ex_world_def ex_runtime_def)
  have code: "128 < addr_limit lp64" "\<forall>w. ?g w = Some (curry_fn 1 ex_fst [])" by simp_all
  from function_pointer_roundtrip [OF example_lp64.libffi_types_axioms platform_ok_lp64 ex_env(1) boxed_lp64.ok ex_env(2-5)
      reference_ffi_call_ok ex_cb_ok(3,4) ty(1) fit ex_closures_ok(1,2) ops ex_closures_ok(3,4) code(1) made tr code(2) ret ty(2) w,
      of "[102]"]
  show ?thesis using made by blast
qed

end
