(* ===== verification/Threads.thy ===== *)
theory Threads
  imports Ffi_Closure
begin

text \<open>
  \<open>src/ctypes-foreign/foreign_threaded_stubs.c\<close>: registering threads that C created with the OCaml
  runtime, and unregistering them when they exit.  With POSIX threads the registration stores a
  value under a new thread-specific key whose destructor unregisters the thread; the key is in
  a global variable that all threads share without a lock, so the steps of several threads
  interleave, and the registration and unregistration wait for the runtime lock.  On Windows a TLS slot
  marks the threads that were registered.

  The state of the C library: how many keys exist (those below \<open>foreign_keys\<close> were created by others),
  the keys under which each thread has a value, who registered each thread, which thread holds
  the runtime lock.  The destructors of other libraries' keys are taken not to call back into OCaml,
  and the other libraries not to create or delete keys in between.
\<close>

section \<open>POSIX threads\<close>

datatype registration = Unregistered | By_ocaml | By_ctypes

text \<open>
  Where a thread is: running other code (OCaml or C), after \<open>caml_c_thread_register\<close>, after
  \<open>pthread_key_create\<close>, exiting, in the destructor before \<open>caml_c_thread_unregister\<close> has the runtime
  lock, in the destructor after it, gone.  The field \<open>unmarked\<close> is no state of the code: it
  remembers that the registration of a thread ended without a value under a key of this file.
\<close>

datatype thread_pc = Running | Creating | Setting | Exiting | Unregistering | Destroying | Gone

record posix_state =
  registered :: "nat \<Rightarrow> registration"
  pc :: "nat \<Rightarrow> thread_pc"
  keys :: nat
  cleanup_key :: nat
  specific :: "nat \<Rightarrow> nat list"
  runtime :: "nat option"
  unmarked :: "nat \<Rightarrow> bool"

record posix_limits =
  foreign_keys :: nat
  keys_max :: nat

text \<open>\<open>caml_c_thread_register\<close> returns 0 for a thread the runtime knows, or when it fails.\<close>

definition caml_c_thread_register :: "bool \<Rightarrow> nat \<Rightarrow> (nat \<Rightarrow> registration) \<Rightarrow> (nat \<Rightarrow> registration) \<times> int" where
  "caml_c_thread_register fails t r =
     (if r t \<noteq> Unregistered \<or> fails then (r, 0) else (r(t := By_ctypes), 1))"

definition caml_c_thread_unregister :: "nat \<Rightarrow> (nat \<Rightarrow> registration) \<Rightarrow> (nat \<Rightarrow> registration)" where
  "caml_c_thread_unregister t r = r(t := Unregistered)"

definition register_action :: "bool \<Rightarrow> nat \<Rightarrow> posix_state \<Rightarrow> posix_state" where
  "register_action fails t s =
     (case caml_c_thread_register fails t (registered s) of (r, rv) \<Rightarrow>
        s\<lparr>registered := r, pc := (pc s)(t := if rv \<noteq> 0 then Creating else Running)\<rparr>)"

text \<open>
  \<open>pthread_key_create\<close> fails when no key is left, and may fail for want of memory; the code does not
  look at its result, and after a failure the key variable stays as it was.
\<close>

definition key_create_action :: "posix_limits \<Rightarrow> bool \<Rightarrow> nat \<Rightarrow> posix_state \<Rightarrow> posix_state" where
  "key_create_action L ok t s =
     (if ok \<and> keys s < keys_max L
      then s\<lparr>pc := (pc s)(t := Setting), keys := keys s + 1, cleanup_key := keys s\<rparr>
      else s\<lparr>pc := (pc s)(t := Setting)\<rparr>)"

text \<open>
  \<open>pthread_setspecific\<close> fails for a key that does not exist, and may fail for want of memory; nor is
  its result looked at.
\<close>

definition setspecific_action :: "posix_limits \<Rightarrow> bool \<Rightarrow> nat \<Rightarrow> posix_state \<Rightarrow> posix_state" where
  "setspecific_action L ok t s =
     (let stored = ok \<and> cleanup_key s < keys s
      in s\<lparr>pc := (pc s)(t := Running),
           specific := (if stored
             then (specific s)(t := cleanup_key s # removeAll (cleanup_key s) (specific s t)) else specific s),
           unmarked := (unmarked s)(t := \<not> stored \<or> cleanup_key s < foreign_keys L)\<rparr>)"

text \<open>
  At its exit a thread runs the destructors of the keys it has a value for, after setting the value to
  \<open>NULL\<close>.  For a key of this file that is \<open>ctypes_thread_unregister\<close>, whose \<open>caml_c_thread_unregister\<close>
  first waits for the runtime lock.
\<close>

definition destructor_action :: "posix_limits \<Rightarrow> nat \<Rightarrow> nat \<Rightarrow> posix_state \<Rightarrow> posix_state" where
  "destructor_action L k t s =
     s\<lparr>pc := (pc s)(t := if foreign_keys L \<le> k then Unregistering else Exiting),
       specific := (specific s)(t := removeAll k (specific s t))\<rparr>"

definition unregister_action :: "nat \<Rightarrow> posix_state \<Rightarrow> posix_state" where
  "unregister_action t s =
     s\<lparr>registered := caml_c_thread_unregister t (registered s), pc := (pc s)(t := Destroying)\<rparr>"

definition clear_action :: "nat \<Rightarrow> posix_state \<Rightarrow> posix_state" where
  "clear_action t s =
     s\<lparr>pc := (pc s)(t := Exiting), specific := (specific s)(t := removeAll (cleanup_key s) (specific s t))\<rparr>"

text \<open>
  The steps of one thread.  A thread that is registered may take the runtime lock when it is free, to run
  OCaml code, and gives it back; the calls of the runtime that register and unregister a thread
  take it and give it back within one step, so they have to wait while another thread has it.
\<close>

inductive posix_step :: "posix_limits \<Rightarrow> nat \<Rightarrow> posix_state \<Rightarrow> posix_state \<Rightarrow> bool" for L t where
  acquire: "pc s t = Running \<Longrightarrow> registered s t \<noteq> Unregistered \<Longrightarrow> runtime s = None \<Longrightarrow>
    posix_step L t s (s\<lparr>runtime := Some t\<rparr>)"
| release: "pc s t = Running \<Longrightarrow> runtime s = Some t \<Longrightarrow> posix_step L t s (s\<lparr>runtime := None\<rparr>)"
| register: "pc s t = Running \<Longrightarrow> registered s t \<noteq> Unregistered \<or> fails \<or> runtime s = None \<Longrightarrow>
    posix_step L t s (register_action fails t s)"
| key_create: "pc s t = Creating \<Longrightarrow> posix_step L t s (key_create_action L ok t s)"
| setspecific: "pc s t = Setting \<Longrightarrow> posix_step L t s (setspecific_action L ok t s)"
| leave: "pc s t = Running \<Longrightarrow> posix_step L t s (s\<lparr>pc := (pc s)(t := Exiting)\<rparr>)"
| destructor: "pc s t = Exiting \<Longrightarrow> k \<in> set (specific s t) \<Longrightarrow> posix_step L t s (destructor_action L k t s)"
| unregister: "pc s t = Unregistering \<Longrightarrow> registered s t = Unregistered \<or> runtime s = None \<Longrightarrow>
    posix_step L t s (unregister_action t s)"
| clear: "pc s t = Destroying \<Longrightarrow> posix_step L t s (clear_action t s)"
| finish: "pc s t = Exiting \<Longrightarrow> specific s t = [] \<Longrightarrow> posix_step L t s (s\<lparr>pc := (pc s)(t := Gone)\<rparr>)"

inductive_cases posix_stepE: "posix_step L t s s'"

text \<open>
  At the start no thread is being registered by ctypes, the runtime lock is free or with a thread of
  OCaml, and no thread has a value under a key of this file, of which there are none; the zero that
  the key variable holds is anybody's.
\<close>

definition posix_initial :: "posix_limits \<Rightarrow> posix_state \<Rightarrow> bool" where
  "posix_initial L s \<longleftrightarrow>
     keys s = foreign_keys L \<and> foreign_keys L \<le> keys_max L \<and> cleanup_key s = 0 \<and>
     (\<forall>t. pc s t = Running \<and> registered s t \<noteq> By_ctypes \<and> (\<forall>k \<in> set (specific s t). k < foreign_keys L)) \<and>
     (\<forall>t. (runtime s = Some t \<longrightarrow> registered s t = By_ocaml) \<and> \<not> unmarked s t)"

inductive posix_reach :: "posix_limits \<Rightarrow> posix_state \<Rightarrow> bool" for L where
  start: "posix_initial L s \<Longrightarrow> posix_reach L s"
| step: "posix_reach L s \<Longrightarrow> posix_step L t s s' \<Longrightarrow> posix_reach L s'"

section \<open>What each action changes\<close>

lemma register_action_sel [simp]:
  "keys (register_action b t s) = keys s" "cleanup_key (register_action b t s) = cleanup_key s"
  "specific (register_action b t s) = specific s" "runtime (register_action b t s) = runtime s"
  "unmarked (register_action b t s) = unmarked s"
  "registered (register_action b t s) u =
     (if u = t \<and> registered s t = Unregistered \<and> \<not> b then By_ctypes else registered s u)"
  "pc (register_action b t s) u =
     (if u = t then if registered s t = Unregistered \<and> \<not> b then Creating else Running else pc s u)"
  by (simp_all add: register_action_def caml_c_thread_register_def)

lemma key_create_action_sel [simp]:
  "keys (key_create_action L ok t s) = (if ok \<and> keys s < keys_max L then keys s + 1 else keys s)"
  "cleanup_key (key_create_action L ok t s) = (if ok \<and> keys s < keys_max L then keys s else cleanup_key s)"
  "specific (key_create_action L ok t s) = specific s" "registered (key_create_action L ok t s) = registered s"
  "runtime (key_create_action L ok t s) = runtime s" "unmarked (key_create_action L ok t s) = unmarked s"
  "pc (key_create_action L ok t s) u = (if u = t then Setting else pc s u)"
  by (simp_all add: key_create_action_def)

lemma setspecific_action_sel [simp]:
  "keys (setspecific_action L ok t s) = keys s" "cleanup_key (setspecific_action L ok t s) = cleanup_key s"
  "specific (setspecific_action L ok t s) u =
     (if u = t \<and> ok \<and> cleanup_key s < keys s
      then cleanup_key s # removeAll (cleanup_key s) (specific s t) else specific s u)"
  "registered (setspecific_action L ok t s) = registered s" "runtime (setspecific_action L ok t s) = runtime s"
  "pc (setspecific_action L ok t s) u = (if u = t then Running else pc s u)"
  "unmarked (setspecific_action L ok t s) u =
     (if u = t then \<not> (ok \<and> cleanup_key s < keys s) \<or> cleanup_key s < foreign_keys L else unmarked s u)"
  by (auto simp: setspecific_action_def Let_def)

lemma destructor_action_sel [simp]:
  "keys (destructor_action L k t s) = keys s" "cleanup_key (destructor_action L k t s) = cleanup_key s"
  "specific (destructor_action L k t s) u = (if u = t then removeAll k (specific s t) else specific s u)"
  "registered (destructor_action L k t s) = registered s" "runtime (destructor_action L k t s) = runtime s"
  "unmarked (destructor_action L k t s) = unmarked s"
  "pc (destructor_action L k t s) u =
     (if u = t then if foreign_keys L \<le> k then Unregistering else Exiting else pc s u)"
  by (simp_all add: destructor_action_def)

lemma unregister_action_sel [simp]:
  "keys (unregister_action t s) = keys s" "cleanup_key (unregister_action t s) = cleanup_key s"
  "specific (unregister_action t s) = specific s" "runtime (unregister_action t s) = runtime s"
  "unmarked (unregister_action t s) = unmarked s"
  "registered (unregister_action t s) u = (if u = t then Unregistered else registered s u)"
  "pc (unregister_action t s) u = (if u = t then Destroying else pc s u)"
  by (simp_all add: unregister_action_def caml_c_thread_unregister_def)

lemma clear_action_sel [simp]:
  "keys (clear_action t s) = keys s" "cleanup_key (clear_action t s) = cleanup_key s"
  "specific (clear_action t s) u = (if u = t then removeAll (cleanup_key s) (specific s t) else specific s u)"
  "registered (clear_action t s) = registered s" "runtime (clear_action t s) = runtime s"
  "unmarked (clear_action t s) = unmarked s"
  "pc (clear_action t s) u = (if u = t then Exiting else pc s u)"
  by (simp_all add: clear_action_def)

section \<open>The invariant\<close>

text \<open>
  As long as this file has no key the key variable is 0, and afterwards it holds a key of this file.
  A thread ctypes registered is still on its way to storing its value, or has a value under some key of
  this file, not necessarily the one it created, unless it could not be stored; in the destructor
  before it is unregistered it has none any more, and when it has gone it is unmarked; other threads have none.
\<close>

definition own_value :: "posix_limits \<Rightarrow> posix_state \<Rightarrow> nat \<Rightarrow> bool" where
  "own_value L s t \<longleftrightarrow> (\<exists>k \<in> set (specific s t). foreign_keys L \<le> k)"

definition one_own :: "posix_limits \<Rightarrow> posix_state \<Rightarrow> nat \<Rightarrow> bool" where
  "one_own L s t \<longleftrightarrow>
     (\<forall>k \<in> set (specific s t). \<forall>j \<in> set (specific s t). foreign_keys L \<le> k \<longrightarrow> foreign_keys L \<le> j \<longrightarrow> k = j)"

definition ctypes_stage :: "thread_pc \<Rightarrow> bool \<Rightarrow> bool \<Rightarrow> bool" where
  "ctypes_stage p own unm \<longleftrightarrow>
     (p \<in> {Creating, Setting, Unregistering} \<and> \<not> own \<and> \<not> unm) \<or>
     (p \<in> {Running, Exiting} \<and> (own \<longleftrightarrow> \<not> unm)) \<or> (p = Gone \<and> \<not> own \<and> unm)"

definition thread_inv :: "posix_limits \<Rightarrow> posix_state \<Rightarrow> nat \<Rightarrow> bool" where
  "thread_inv L s t \<longleftrightarrow>
     one_own L s t \<and>
     (pc s t \<in> {Unregistering, Destroying} \<or> own_value L s t \<longrightarrow> foreign_keys L < keys s) \<and>
     (if registered s t = By_ctypes then ctypes_stage (pc s t) (own_value L s t) (unmarked s t)
      else \<not> own_value L s t \<and> \<not> unmarked s t \<and> pc s t \<notin> {Creating, Setting, Unregistering})"

definition key_inv :: "posix_limits \<Rightarrow> posix_state \<Rightarrow> bool" where
  "key_inv L s \<longleftrightarrow>
     foreign_keys L \<le> keys s \<and>
     (if foreign_keys L < keys s then foreign_keys L \<le> cleanup_key s \<and> cleanup_key s < keys s else cleanup_key s = 0)"

definition posix_inv :: "posix_limits \<Rightarrow> posix_state \<Rightarrow> bool" where
  "posix_inv L s \<longleftrightarrow> key_inv L s \<and> (\<forall>t. thread_inv L s t)"

lemma posix_inv_initial: "posix_initial L s \<Longrightarrow> posix_inv L s"
  by (force simp: posix_initial_def posix_inv_def key_inv_def thread_inv_def one_own_def own_value_def)

text \<open>A step of one thread leaves what is private to the others alone.\<close>

lemma step_other:
  assumes "posix_step L t s s'" "u \<noteq> t"
  shows "pc s' u = pc s u" "registered s' u = registered s u" "specific s' u = specific s u"
    "unmarked s' u = unmarked s u"
  using assms by (auto elim: posix_stepE)

lemma step_keys: "posix_step L t s s' \<Longrightarrow> keys s \<le> keys s'"
  by (auto elim: posix_stepE)

lemma step_key_inv: "posix_step L t s s' \<Longrightarrow> key_inv L s \<Longrightarrow> key_inv L s'"
  by (erule posix_stepE) (auto simp: key_inv_def)

lemma one_own_add:
  "\<not> own_value L s t \<Longrightarrow> specific s' t = k # removeAll k (specific s t) \<Longrightarrow> one_own L s' t"
  by (auto simp: one_own_def own_value_def)

lemma own_value_cons: "specific s' t = k # removeAll k (specific s t) \<Longrightarrow>
    own_value L s' t \<longleftrightarrow> foreign_keys L \<le> k \<or> own_value L s t"
  by (auto simp: own_value_def)

lemma own_value_removed:
  assumes "specific s' t = removeAll k (specific s t)"
  shows "one_own L s t \<Longrightarrow> one_own L s' t" "own_value L s' t \<Longrightarrow> own_value L s t"
    "k < foreign_keys L \<Longrightarrow> own_value L s' t = own_value L s t"
    "one_own L s t \<Longrightarrow> k \<in> set (specific s t) \<Longrightarrow> foreign_keys L \<le> k \<Longrightarrow> \<not> own_value L s' t"
    "\<not> own_value L s t \<Longrightarrow> \<not> own_value L s' t"
  using assms by (auto simp: one_own_def own_value_def)

lemma own_value_cong:
  assumes "specific s' t = specific s t"
  shows "own_value L s' t = own_value L s t" "one_own L s' t = one_own L s t"
  using assms by (simp_all add: own_value_def one_own_def)

lemma step_self:
  assumes "posix_step L t s s'" "posix_inv L s"
  shows "thread_inv L s' t"
proof -
  have I: "thread_inv L s t" "key_inv L s" using assms(2) by (simp_all add: posix_inv_def)
  note D = thread_inv_def ctypes_stage_def
  have same: ?thesis if "specific s' t = specific s t" "keys s \<le> keys s'"
      "pc s' t \<in> {Unregistering, Destroying} \<longrightarrow> pc s t \<in> {Unregistering, Destroying}"
      "if registered s' t = By_ctypes then ctypes_stage (pc s' t) (own_value L s t) (unmarked s' t)
       else \<not> own_value L s t \<and> \<not> unmarked s' t \<and> pc s' t \<notin> {Creating, Setting, Unregistering}"
    using I(1) that own_value_cong [OF that(1), of L] unfolding thread_inv_def by auto
  show ?thesis
    using assms(1)
  proof (cases rule: posix_step.cases)
    case (setspecific ok)
    then have o: "\<not> own_value L s t" "registered s t = By_ctypes" "\<not> unmarked s t"
      using I(1) by (auto simp: D split: if_split_asm)
    show ?thesis
    proof (cases "ok \<and> cleanup_key s < keys s")
      case True
      then have sp: "specific s' t = cleanup_key s # removeAll (cleanup_key s) (specific s t)"
        using setspecific by simp
      show ?thesis
        using one_own_add [OF o(1) sp] own_value_cons [OF sp, of L] o True setspecific I(2)
        by (auto simp: D key_inv_def split: if_split_asm)
    qed (rule same; use o setspecific in \<open>auto simp: ctypes_stage_def\<close>)
  next
    case (destructor k)
    then have sp: "specific s' t = removeAll k (specific s t)" by simp
    show ?thesis
    proof (cases "foreign_keys L \<le> k")
      case True
      then have "own_value L s t" using destructor by (auto simp: own_value_def)
      then show ?thesis using I(1) True destructor own_value_removed [OF sp, of L] by (auto simp: D split: if_split_asm)
    next
      case False
      then show ?thesis using I(1) destructor own_value_removed [OF sp, of L] by (auto simp: D split: if_split_asm)
    qed
  next
    case unregister
    show ?thesis by (rule same) (use I(1) unregister in \<open>auto simp: D split: if_split_asm\<close>)
  next
    case clear
    then have sp: "specific s' t = removeAll (cleanup_key s) (specific s t)" by simp
    then show ?thesis using I(1) clear own_value_removed [OF sp, of L] by (auto simp: D split: if_split_asm)
  next
    case finish
    show ?thesis
      by (rule same) (use I(1) finish in \<open>auto simp: D own_value_def split: if_split_asm\<close>)
  qed (rule same; use I(1) in \<open>auto simp: D split: if_split_asm\<close>)+
qed

lemma thread_inv_cong:
  assumes "thread_inv L s u" "pc s' u = pc s u" "registered s' u = registered s u" "specific s' u = specific s u"
    "unmarked s' u = unmarked s u" "keys s \<le> keys s'"
  shows "thread_inv L s' u"
  using assms own_value_cong [OF assms(4), of L] unfolding thread_inv_def by auto

lemma posix_inv_step:
  assumes "posix_inv L s" "posix_step L t s s'"
  shows "posix_inv L s'"
proof -
  have "thread_inv L s' u" for u
  proof (cases "u = t")
    case False
    have "thread_inv L s u" using assms(1) by (simp add: posix_inv_def)
    then show ?thesis
      using step_other [OF assms(2) False] step_keys [OF assms(2)] by (rule thread_inv_cong)
  qed (use step_self [OF assms(2,1)] in simp)
  then show ?thesis
    using assms(1) step_key_inv [OF assms(2)] by (simp add: posix_inv_def)
qed

lemma reach_inv: "posix_reach L s \<Longrightarrow> posix_inv L s"
  by (induction rule: posix_reach.induct) (auto intro: posix_inv_initial posix_inv_step)

lemma filter_foreign:
  "n \<le> k \<Longrightarrow> filter (\<lambda>j. j < n) (removeAll k xs) = filter (\<lambda>j. j < n) xs" for n k :: nat
  by (induction xs) auto

text \<open>How a thread comes to be unmarked: its value was not stored, or there was no key of this file.\<close>

lemma step_unmarked:
  assumes "posix_step L u s s'" "posix_inv L s" "unmarked s' t" "\<not> unmarked s t"
  shows "pc s t = Setting \<and> (specific s' t = specific s t \<or> keys s = foreign_keys L)"
proof -
  have "u = t" using step_other(4) [OF assms(1)] assms(3,4) by metis
  then show ?thesis
    using assms(1,3,4) assms(2) [unfolded posix_inv_def key_inv_def]
    by (elim posix_stepE) (auto split: if_split_asm)
qed

lemma ocaml_kept:
  assumes "posix_step L u s s'" "posix_inv L s" "registered s t = By_ocaml"
  shows "registered s' t = By_ocaml"
proof (cases "u = t")
  case True
  have "pc s t \<noteq> Unregistering" using assms(2,3) by (auto simp: posix_inv_def thread_inv_def dest!: spec [of _ t])
  then show ?thesis using assms(1,3) True by (elim posix_stepE) auto
qed (use step_other [OF assms(1)] assms(3) in auto)

text \<open>
  C9: however the registrations and exits of any number of threads interleave on the shared key
  variable, a thread that ctypes registered keeps a value under a key of this file from the end of
  its registration to its destructor, and is not registered any more when it has gone, unless it is
  unmarked; a thread becomes unmarked only when \<open>pthread_setspecific\<close> fails, or when all calls of
  \<open>pthread_key_create\<close> so far have failed, and an unmarked thread is never unregistered.  The threads
  of OCaml itself stay registered.  Once a key of this file exists no step of this file touches
  the values of other libraries' keys; while none exists the value goes to the key 0, another library's.
\<close>

theorem threads_unregistered_at_exit:
  assumes "posix_reach L s"
  shows "(registered s t = By_ctypes \<and> pc s t \<in> {Running, Exiting} \<longrightarrow> (own_value L s t \<longleftrightarrow> \<not> unmarked s t)) \<and>
    (pc s t = Gone \<longrightarrow> (registered s t = By_ctypes \<longleftrightarrow> unmarked s t)) \<and>
    (unmarked s t \<longrightarrow> registered s t = By_ctypes) \<and>
    (posix_step L u s s' \<and> unmarked s' t \<and> \<not> unmarked s t \<longrightarrow>
       pc s t = Setting \<and> (specific s' t = specific s t \<or> keys s = foreign_keys L)) \<and>
    (posix_step L u s s' \<and> registered s t = By_ocaml \<longrightarrow> registered s' t = By_ocaml) \<and>
    (pc s t = Setting \<and> foreign_keys L < keys s \<longrightarrow>
       filter (\<lambda>k. k < foreign_keys L) (specific (setspecific_action L ok t s) t) =
       filter (\<lambda>k. k < foreign_keys L) (specific s t)) \<and>
    (pc s t = Setting \<and> keys s = foreign_keys L \<and> 0 < foreign_keys L \<longrightarrow>
       specific (setspecific_action L True t s) t = 0 # removeAll 0 (specific s t)) \<and>
    (pc s t = Destroying \<longrightarrow> filter (\<lambda>k. k < foreign_keys L) (specific (clear_action t s) t) =
       filter (\<lambda>k. k < foreign_keys L) (specific s t))"
proof -
  have I: "posix_inv L s" by (rule reach_inv [OF assms])
  then have T: "thread_inv L s t" "key_inv L s" by (simp_all add: posix_inv_def)
  have d: "foreign_keys L < keys s" if "pc s t = Destroying" using T(1) that by (simp add: thread_inv_def)
  have stage: "registered s t = By_ctypes \<and> pc s t \<in> {Running, Exiting} \<longrightarrow> (own_value L s t \<longleftrightarrow> \<not> unmarked s t)"
    "pc s t = Gone \<longrightarrow> (registered s t = By_ctypes \<longleftrightarrow> unmarked s t)" "unmarked s t \<longrightarrow> registered s t = By_ctypes"
    using T(1) by (auto simp: thread_inv_def ctypes_stage_def split: if_split_asm)
  have key: "foreign_keys L \<le> cleanup_key s" if "foreign_keys L < keys s"
    using T(2) that by (simp add: key_inv_def)
  show ?thesis
    using stage step_unmarked [OF _ I, of u s' t] ocaml_kept [OF _ I, of u s' t] key d T(2)
    by (auto simp: filter_foreign key_inv_def)
qed

section \<open>Exiting\<close>

definition exit_work :: "posix_state \<Rightarrow> nat \<Rightarrow> nat" where
  "exit_work s t = 4 * length (specific s t) +
     (case pc s t of Exiting \<Rightarrow> 1 | Destroying \<Rightarrow> 2 | Unregistering \<Rightarrow> 3 | _ \<Rightarrow> 0)"

definition exiting :: "posix_state \<Rightarrow> nat \<Rightarrow> bool" where
  "exiting s t \<longleftrightarrow> pc s t \<in> {Exiting, Unregistering, Destroying}"

lemma length_removeAll: "length (removeAll x xs) \<le> length xs" "x \<in> set xs \<Longrightarrow> length (removeAll x xs) < length xs"
  by (simp_all add: removeAll_filter_not_eq length_filter_less [where x = x])

lemma exit_step:
  assumes "posix_step L t s s'" "exiting s t"
  shows "exit_work s' t < exit_work s t" "exiting s' t \<or> pc s' t = Gone \<and> specific s' t = []"
    "keys s' = keys s" "runtime s' = runtime s"
proof -
  have l: "length (removeAll k (specific s t)) < length (specific s t)" if "k \<in> set (specific s t)" for k
    using that by (rule length_removeAll)
  have m: "length (removeAll k (specific s t)) \<le> length (specific s t)" for k
    by (rule length_removeAll)
  have "exit_work s' t < exit_work s t \<and> (exiting s' t \<or> pc s' t = Gone \<and> specific s' t = []) \<and>
      keys s' = keys s \<and> runtime s' = runtime s"
    using assms(1)
  proof (cases rule: posix_step.cases)
    case (destructor k)
    then show ?thesis using l [of k] by (simp add: exit_work_def exiting_def)
  next
    case clear
    then show ?thesis using m [of "cleanup_key s"] by (simp add: exit_work_def exiting_def less_Suc_eq_le)
  qed (use assms(2) in \<open>auto simp: exit_work_def exiting_def\<close>)
  then show "exit_work s' t < exit_work s t" "exiting s' t \<or> pc s' t = Gone \<and> specific s' t = []"
    "keys s' = keys s" "runtime s' = runtime s"
    by simp_all
qed

definition waits_for_runtime :: "posix_state \<Rightarrow> nat \<Rightarrow> bool" where
  "waits_for_runtime s t \<longleftrightarrow> pc s t = Unregistering \<and> registered s t \<noteq> Unregistered \<and> runtime s \<noteq> None"

lemma exit_enabled: "exiting s t \<Longrightarrow> (\<exists>s'. posix_step L t s s') \<longleftrightarrow> \<not> waits_for_runtime s t"
proof (cases "pc s t")
  case Exiting
  then show ?thesis
    using posix_step.finish [of s t L] posix_step.destructor [of s t "hd (specific s t)" L]
    by (cases "specific s t") (auto simp: waits_for_runtime_def)
next
  case Unregistering
  then show ?thesis
    using posix_step.unregister [of s t L] by (auto simp: waits_for_runtime_def elim: posix_stepE)
qed (auto simp: exiting_def waits_for_runtime_def intro: posix_step.clear)

text \<open>What becomes of the registration.\<close>

definition to_be_unregistered :: "posix_limits \<Rightarrow> posix_state \<Rightarrow> nat \<Rightarrow> bool" where
  "to_be_unregistered L s t \<longleftrightarrow>
     pc s t = Unregistering \<or> registered s t = Unregistered \<or> (pc s t = Exiting \<and> own_value L s t)"

lemma exit_step_registered:
  assumes "posix_step L t s s'" "exiting s t"
  shows "to_be_unregistered L s t \<Longrightarrow> to_be_unregistered L s' t"
    "\<not> own_value L s t \<and> pc s t = Exiting \<Longrightarrow>
       registered s' t = registered s t \<and> \<not> own_value L s' t \<and> pc s' t \<in> {Exiting, Gone}"
  using assms by (auto elim!: posix_stepE simp: to_be_unregistered_def exiting_def own_value_def split: if_split_asm)

lemma exit_run:
  "exiting s t \<Longrightarrow> runtime s = None \<Longrightarrow>
     \<exists>s'. (posix_step L t)\<^sup>*\<^sup>* s s' \<and> pc s' t = Gone \<and> specific s' t = [] \<and> keys s' = keys s \<and> runtime s' = None \<and>
       (to_be_unregistered L s t \<longrightarrow> registered s' t = Unregistered) \<and>
       (\<not> own_value L s t \<and> pc s t = Exiting \<longrightarrow> registered s' t = registered s t)"
proof (induction "exit_work s t" arbitrary: s rule: less_induct)
  case less
  obtain s1 where s1: "posix_step L t s s1"
    using exit_enabled [OF less.prems(1), of L] less.prems(2) by (auto simp: waits_for_runtime_def)
  note e = exit_step [OF s1 less.prems(1)] exit_step_registered [OF s1 less.prems(1)]
  show ?case
  proof (cases "pc s1 t = Gone")
    case True
    then have "\<not> exiting s1 t" by (simp add: exiting_def)
    then have "(posix_step L t)\<^sup>*\<^sup>* s s1 \<and> pc s1 t = Gone \<and> specific s1 t = [] \<and> keys s1 = keys s \<and> runtime s1 = None \<and>
       (to_be_unregistered L s t \<longrightarrow> registered s1 t = Unregistered) \<and>
       (\<not> own_value L s t \<and> pc s t = Exiting \<longrightarrow> registered s1 t = registered s t)"
      using s1 e True less.prems(2) by (auto simp: to_be_unregistered_def)
    then show ?thesis by blast
  next
    case False
    then have x: "exiting s1 t" "runtime s1 = None" using e(2,4) less.prems(2) by auto
    obtain s' where s': "(posix_step L t)\<^sup>*\<^sup>* s1 s'" "pc s' t = Gone" "specific s' t = []" "keys s' = keys s1"
      "runtime s' = None" "to_be_unregistered L s1 t \<longrightarrow> registered s' t = Unregistered"
      "\<not> own_value L s1 t \<and> pc s1 t = Exiting \<longrightarrow> registered s' t = registered s1 t"
      using less.hyps [OF e(1) x] by blast
    have "(posix_step L t)\<^sup>*\<^sup>* s s'" using s1 s'(1) by (rule converse_rtranclp_into_rtranclp)
    then show ?thesis using s' e False by (intro exI [of _ s']) auto
  qed
qed

text \<open>
  C24: what an exiting thread waits for is the runtime lock, in its destructor and nowhere else: unless
  it is about to be unregistered while a thread holds the lock, it has a step; each of its steps
  brings it nearer to its end, no step of another thread takes it away from it, and while the lock
  is free its own steps alone lead to the end, where the lock is free again and no value is left; a thread with
  a value under a key of this file is then unregistered, one without keeps its registration.  The
  last step of the destructor leaves no value under the key variable's key.
\<close>

theorem thread_exit_completes:
  assumes "exiting s t"
  shows "((\<exists>s'. posix_step L t s s') \<longleftrightarrow>
       \<not> (pc s t = Unregistering \<and> registered s t \<noteq> Unregistered \<and> runtime s \<noteq> None)) \<and>
    (\<forall>s'. posix_step L t s s' \<longrightarrow> exit_work s' t < exit_work s t \<and> (exiting s' t \<or> pc s' t = Gone) \<and>
       (pc s t = Destroying \<longrightarrow> cleanup_key s \<notin> set (specific s' t))) \<and>
    (\<forall>u s'. u \<noteq> t \<and> posix_step L u s s' \<longrightarrow> exit_work s' t = exit_work s t \<and> pc s' t = pc s t) \<and>
    (runtime s = None \<longrightarrow>
       (\<exists>s'. (posix_step L t)\<^sup>*\<^sup>* s s' \<and> pc s' t = Gone \<and> specific s' t = [] \<and> runtime s' = None \<and>
          (pc s t = Unregistering \<or> pc s t = Exiting \<and> own_value L s t \<longrightarrow> registered s' t = Unregistered) \<and>
          (pc s t = Exiting \<and> \<not> own_value L s t \<longrightarrow> registered s' t = registered s t)))"
proof (intro conjI allI impI)
  show "(\<exists>s'. posix_step L t s s') \<longleftrightarrow>
      \<not> (pc s t = Unregistering \<and> registered s t \<noteq> Unregistered \<and> runtime s \<noteq> None)"
    using exit_enabled [OF assms, of L] by (simp only: waits_for_runtime_def)
  show "exit_work s' t < exit_work s t" "exiting s' t \<or> pc s' t = Gone" if "posix_step L t s s'" for s'
    using exit_step [OF that assms] by blast+
  show "cleanup_key s \<notin> set (specific s' t)" if "posix_step L t s s'" "pc s t = Destroying" for s'
    using that by (auto elim: posix_stepE)
  show "exit_work s' t = exit_work s t" "pc s' t = pc s t" if "u \<noteq> t \<and> posix_step L u s s'" for u s'
    using step_other [of L u s s' t] that by (auto simp: exit_work_def)
  show "\<exists>s'. (posix_step L t)\<^sup>*\<^sup>* s s' \<and> pc s' t = Gone \<and> specific s' t = [] \<and> runtime s' = None \<and>
      (pc s t = Unregistering \<or> pc s t = Exiting \<and> own_value L s t \<longrightarrow> registered s' t = Unregistered) \<and>
      (pc s t = Exiting \<and> \<not> own_value L s t \<longrightarrow> registered s' t = registered s t)" if "runtime s = None"
    using exit_run [OF assms that, of L] unfolding to_be_unregistered_def by blast
qed

section \<open>Keys\<close>

lemma steps_other:
  assumes "(posix_step L t)\<^sup>*\<^sup>* s s'" "u \<noteq> t"
  shows "pc s' u = pc s u \<and> registered s' u = registered s u"
  using assms(1) by induction (use step_other assms(2) in auto)

lemma reach_steps: "(posix_step L t)\<^sup>*\<^sup>* s s' \<Longrightarrow> posix_reach L s \<Longrightarrow> posix_reach L s'"
  by (induction rule: rtranclp_induct) (auto intro: posix_reach.step)

lemma one_life:
  assumes "posix_reach L s" "pc s t = Running" "registered s t = Unregistered" "keys s < keys_max L"
    "runtime s = None"
  shows "\<exists>s'. (posix_step L t)\<^sup>*\<^sup>* s s' \<and> pc s' t = Gone \<and> keys s' = keys s + 1 \<and> runtime s' = None \<and>
    registered s' t = Unregistered"
proof -
  define s1 where "s1 = register_action False t s"
  define s2 where "s2 = key_create_action L True t s1"
  define s3 where "s3 = setspecific_action L True t s2"
  define s4 where "s4 = s3\<lparr>pc := (pc s3)(t := Exiting)\<rparr>"
  have f: "foreign_keys L \<le> keys s" using reach_inv [OF assms(1)] by (simp add: posix_inv_def key_inv_def)
  have p: "pc s1 t = Creating" "pc s2 t = Setting" "pc s3 t = Running" "exiting s4 t" "keys s4 = keys s + 1"
    "runtime s4 = None" "to_be_unregistered L s4 t"
    using assms f by (simp_all add: s1_def s2_def s3_def s4_def exiting_def to_be_unregistered_def own_value_def)
  have "posix_step L t s s1" "posix_step L t s1 s2" "posix_step L t s2 s3" "posix_step L t s3 s4"
    using p assms(2,5) unfolding s1_def s2_def s3_def s4_def by (blast intro: posix_step.intros)+
  then have "(posix_step L t)\<^sup>*\<^sup>* s s4" by (meson rtranclp.intros)
  then show ?thesis using exit_run [OF p(4,6), of L] p(5,7) by (metis (lifting) rtranclp_trans)
qed

text \<open>
  C25: keys are never given back: any number of threads, up to the limit of the system, can register
  and exit one after the other, and when all of them are gone there is one key more for each.
\<close>

theorem registrations_leak_keys:
  assumes "posix_initial L s0" "\<forall>t. registered s0 t = Unregistered" "foreign_keys L + n \<le> keys_max L"
  shows "\<exists>s. posix_reach L s \<and> keys s = foreign_keys L + n \<and>
    list_all (\<lambda>t. pc s t = Gone \<and> registered s t \<noteq> By_ctypes) [0..<n]"
proof -
  have "\<exists>s. posix_reach L s \<and> keys s = foreign_keys L + n \<and> runtime s = None \<and>
      (\<forall>t < n. pc s t = Gone \<and> registered s t = Unregistered) \<and>
      (\<forall>t \<ge> n. pc s t = Running \<and> registered s t = Unregistered)"
    using assms(3)
  proof (induction n)
    case 0
    have "runtime s0 = None" using assms(1,2) by (cases "runtime s0") (auto simp: posix_initial_def)
    then show ?case
      using assms(1,2) by (intro exI [of _ s0] conjI posix_reach.start) (auto simp: posix_initial_def)
  next
    case (Suc n)
    then obtain s where s: "posix_reach L s" "keys s = foreign_keys L + n" "runtime s = None"
      "\<forall>t < n. pc s t = Gone \<and> registered s t = Unregistered"
      "\<forall>t \<ge> n. pc s t = Running \<and> registered s t = Unregistered"
      by auto
    have n: "pc s n = Running" "registered s n = Unregistered" "keys s < keys_max L" "runtime s = None"
      using s(2,3,5) Suc.prems by auto
    obtain s' where s': "(posix_step L n)\<^sup>*\<^sup>* s s'" "pc s' n = Gone" "keys s' = keys s + 1" "runtime s' = None"
      "registered s' n = Unregistered"
      using one_life [OF s(1) n] by blast
    have "\<forall>t < Suc n. pc s' t = Gone \<and> registered s' t = Unregistered"
      using s(4) s'(2,5) steps_other [OF s'(1)] by (auto simp: less_Suc_eq)
    moreover have "\<forall>t \<ge> Suc n. pc s' t = Running \<and> registered s' t = Unregistered"
      using s(5) steps_other [OF s'(1)] by auto
    ultimately show ?case using reach_steps [OF s'(1) s(1)] s'(3,4) s(2) by auto
  qed
  then show ?thesis by (auto simp: list_all_iff)
qed

section \<open>Windows\<close>

record win_state =
  wregistered :: "nat \<Rightarrow> registration"
  tls :: "nat \<Rightarrow> int"

definition CTYPES_TLS_MAGIC_VALUE :: int where
  "CTYPES_TLS_MAGIC_VALUE = 120"

datatype tls_reason = DLL_PROCESS_DETACH | DLL_PROCESS_ATTACH | DLL_THREAD_ATTACH | DLL_THREAD_DETACH

definition ctypes_tls_callback :: "nat \<Rightarrow> tls_reason \<Rightarrow> win_state \<Rightarrow> win_state" where
  "ctypes_tls_callback t reason s =
     (if reason = DLL_THREAD_DETACH \<and> tls s t = CTYPES_TLS_MAGIC_VALUE
      then s\<lparr>tls := (tls s)(t := 0), wregistered := caml_c_thread_unregister t (wregistered s)\<rparr>
      else s)"

text \<open>The result of \<open>TlsSetValue\<close> is not looked at; when it fails the slot keeps its value.\<close>

definition win_thread_actually_register :: "bool \<Rightarrow> bool \<Rightarrow> nat \<Rightarrow> win_state \<Rightarrow> win_state \<times> int" where
  "win_thread_actually_register fails ok t s =
     (case caml_c_thread_register fails t (wregistered s) of (r, rv) \<Rightarrow>
        (if rv \<noteq> 0 \<and> ok then s\<lparr>wregistered := r, tls := (tls s)(t := CTYPES_TLS_MAGIC_VALUE)\<rparr>
         else s\<lparr>wregistered := r\<rparr>, rv))"

text \<open>Which function the pointer \<open>ctypes_thread_register\<close> of \<open>ffi_call_stubs.c\<close> holds.\<close>

datatype register_function = Register_fail | Actually_register

definition posix_setup_thread_registration :: "register_function \<Rightarrow> register_function \<times> value" where
  "posix_setup_thread_registration f = (Actually_register, Val_unit)"

text \<open>\<open>TlsAlloc\<close> gives an index, or fails; then the pointer is not changed.\<close>

definition win_setup_thread_registration :: "nat option \<Rightarrow> register_function \<Rightarrow> register_function \<times> value result" where
  "win_setup_thread_registration alloc f =
     (case alloc of
        None \<Rightarrow> (f, Inl (Failure ''ctypes_thread_registration: TlsAlloc failed''))
      | Some i \<Rightarrow> (Actually_register, Inr Val_unit))"

datatype win_event = Registers bool bool nat | Notified nat tls_reason

fun win_run :: "win_event \<Rightarrow> win_state \<Rightarrow> win_state" where
  "win_run (Registers fails ok t) s = fst (win_thread_actually_register fails ok t s)"
| "win_run (Notified t r) s = ctypes_tls_callback t r s"

fun slot_set :: "win_event \<Rightarrow> bool" where
  "slot_set (Registers fails ok t) = ok"
| "slot_set (Notified t r) = True"

definition win_inv :: "win_state \<Rightarrow> bool" where
  "win_inv s \<longleftrightarrow> (\<forall>t. tls s t = CTYPES_TLS_MAGIC_VALUE \<longleftrightarrow> wregistered s t = By_ctypes)"

lemma win_inv_run: "win_inv s \<Longrightarrow> list_all slot_set es \<Longrightarrow> win_inv (fold win_run es s)"
proof (induction es arbitrary: s)
  case (Cons e es)
  have "win_inv (win_run e s)"
    using Cons.prems
    by (cases e) (auto simp: win_inv_def win_thread_actually_register_def ctypes_tls_callback_def
        caml_c_thread_register_def caml_c_thread_unregister_def CTYPES_TLS_MAGIC_VALUE_def)
  then show ?case using Cons by simp
qed simp

definition win_marks_own :: "win_state \<Rightarrow> bool" where
  "win_marks_own s \<longleftrightarrow> (\<forall>t. tls s t = CTYPES_TLS_MAGIC_VALUE \<longrightarrow> wregistered s t = By_ctypes)"

lemma win_marks_own_run:
  "win_marks_own s \<Longrightarrow> win_marks_own (fold win_run es s) \<and>
     (wregistered s t = By_ocaml \<longrightarrow> wregistered (fold win_run es s) t = By_ocaml)"
proof (induction es arbitrary: s)
  case (Cons e es)
  have "win_marks_own (win_run e s) \<and> (wregistered s t = By_ocaml \<longrightarrow> wregistered (win_run e s) t = By_ocaml)"
    using Cons.prems
    by (cases e) (auto simp: win_marks_own_def win_thread_actually_register_def ctypes_tls_callback_def
        caml_c_thread_register_def caml_c_thread_unregister_def CTYPES_TLS_MAGIC_VALUE_def)
  then show ?case using Cons.IH by auto
qed simp

text \<open>
  On Windows the TLS mark is set only for threads ctypes registered, so the threads of OCaml stay
  registered in any sequence of registrations and notifications; when no \<open>TlsSetValue\<close> fails it is set for all
  of them, so the notification of a thread's end unregisters it exactly when ctypes had registered it.
\<close>

theorem windows_unregisters_own_threads:
  assumes "win_inv s"
  shows "win_marks_own (fold win_run es s) \<and>
    (wregistered s t = By_ocaml \<longrightarrow> wregistered (fold win_run es s) t = By_ocaml) \<and>
    (list_all slot_set es \<longrightarrow>
       wregistered (ctypes_tls_callback t DLL_THREAD_DETACH (fold win_run es s)) t =
         (if wregistered (fold win_run es s) t = By_ctypes then Unregistered else wregistered (fold win_run es s) t))"
proof -
  have "win_marks_own s" using assms by (simp add: win_inv_def win_marks_own_def)
  then show ?thesis
    using win_marks_own_run [of s es t] win_inv_run [OF assms, of es]
    by (auto simp: win_inv_def ctypes_tls_callback_def caml_c_thread_unregister_def)
qed

section \<open>Examples\<close>

definition ex_limits :: posix_limits where
  "ex_limits = \<lparr>foreign_keys = 4, keys_max = 1024\<rparr>"

definition ex_posix :: posix_state where
  "ex_posix = \<lparr>registered = (\<lambda>t. Unregistered), pc = (\<lambda>t. Running), keys = 4, cleanup_key = 0,
     specific = (\<lambda>t. [3]), runtime = None, unmarked = (\<lambda>t. False)\<rparr>"

lemma ex_posix_initial: "posix_initial ex_limits ex_posix"
  by (simp add: posix_initial_def ex_limits_def ex_posix_def)

theorem threads_unregistered_at_exit_witness:
  "\<exists>s. posix_reach ex_limits s \<and> pc s 7 = Gone \<and> keys s = 5 \<and> registered s 7 = Unregistered \<and> \<not> unmarked s 7"
proof -
  have r: "posix_reach ex_limits ex_posix" by (rule posix_reach.start [OF ex_posix_initial])
  obtain s where s: "(posix_step ex_limits 7)\<^sup>*\<^sup>* ex_posix s" "pc s 7 = Gone" "keys s = keys ex_posix + 1"
    "registered s 7 = Unregistered"
    using one_life [OF r, of 7] by (auto simp: ex_posix_def ex_limits_def)
  have "posix_reach ex_limits s" by (rule reach_steps [OF s(1) r])
  from threads_unregistered_at_exit [OF this, of 7] this show ?thesis
    using s by (auto simp: ex_posix_def)
qed

theorem thread_exit_completes_witness:
  "\<exists>s'. (posix_step ex_limits 7)\<^sup>*\<^sup>*
      (ex_posix\<lparr>registered := (\<lambda>t. By_ctypes), pc := (\<lambda>t. Exiting), keys := 5, specific := (\<lambda>t. [4, 3])\<rparr>) s' \<and>
    pc s' 7 = Gone \<and> registered s' 7 = Unregistered \<and> specific s' 7 = []"
proof -
  let ?s = "ex_posix\<lparr>registered := (\<lambda>t. By_ctypes), pc := (\<lambda>t. Exiting), keys := 5, specific := (\<lambda>t. [4, 3])\<rparr>"
  have x: "exiting ?s 7" "runtime ?s = None" "pc ?s 7 = Exiting" "own_value ex_limits ?s 7"
    by (simp_all add: exiting_def ex_posix_def own_value_def ex_limits_def)
  from thread_exit_completes [OF x(1), of ex_limits] x(2-4) show ?thesis by auto
qed

theorem registrations_leak_keys_witness:
  "\<exists>s. posix_reach ex_limits s \<and> keys s = 1024"
  using registrations_leak_keys [OF ex_posix_initial, of 1020] by (auto simp: ex_limits_def ex_posix_def)

theorem windows_unregisters_own_threads_witness:
  "wregistered (ctypes_tls_callback 1 DLL_THREAD_DETACH
     (fold win_run [Registers False True 1] \<lparr>wregistered = (\<lambda>t. if t = 2 then By_ocaml else Unregistered), tls = (\<lambda>t. 0)\<rparr>)) 1 = Unregistered"
proof -
  let ?s = "\<lparr>wregistered = (\<lambda>t. if t = 2 then By_ocaml else Unregistered), tls = (\<lambda>t. 0)\<rparr>"
  have "win_inv ?s" by (simp add: win_inv_def CTYPES_TLS_MAGIC_VALUE_def)
  from windows_unregisters_own_threads [OF this, of "[Registers False True 1]" 1] show ?thesis
    by (simp add: win_thread_actually_register_def caml_c_thread_register_def)
qed

end
