(* ===== verification/Bigarrays.thy ===== *)
theory Bigarrays
  imports Primitives
begin







section \<open>The dimensions\<close>








end
