(* ===== verification/Posix_Types.thy ===== *)
theory Posix_Types
  imports Callspec
begin

text \<open>
  \<open>src/ctypes/posix_types_stubs.c\<close>: which arithmetic type each type of \<open>sys/types.h\<close> is, and size
  and alignment of \<open>sigset_t\<close>.  The C types behind the names are the system's: a parameter.
\<close>

datatype posix_type =
    Clock_t | Dev_t | Ino_t | Mode_t | Off_t | Pid_t | Ssize_t | Time_t | Useconds_t | Nlink_t

record posix_env =
  underlying :: "posix_type \<Rightarrow> c_arith"
  sigset_size :: nat
  sigset_alignment :: nat
  mingw :: bool

text \<open>The numbers of the constructors of \<open>enum ctypes_arithmetic_type\<close>.\<close>

fun arith_index :: "ctypes_arithmetic_type \<Rightarrow> nat" where
  "arith_index Ctypes_arith_Int8 = 0"
| "arith_index Ctypes_arith_Int16 = 1"
| "arith_index Ctypes_arith_Int32 = 2"
| "arith_index Ctypes_arith_Int64 = 3"
| "arith_index Ctypes_arith_Uint8 = 4"
| "arith_index Ctypes_arith_Uint16 = 5"
| "arith_index Ctypes_arith_Uint32 = 6"
| "arith_index Ctypes_arith_Uint64 = 7"
| "arith_index Ctypes_arith_Float = 8"
| "arith_index Ctypes_arith_Double = 9"

text \<open>On Windows the link count is taken to be an \<open>int\<close>.\<close>

definition posix_ctype :: "platform \<Rightarrow> posix_env \<Rightarrow> posix_type \<Rightarrow> c_arith" where
  "posix_ctype P E t = (if t = Nlink_t \<and> mingw E then C_signed (sizeof_int P) else underlying E t)"

definition ctypes_typeof :: "platform \<Rightarrow> posix_env \<Rightarrow> posix_type \<Rightarrow> value \<Rightarrow> value result" where
  "ctypes_typeof P E t u =
     map_sum id (\<lambda>k. Val_int P (int (arith_index k))) (CTYPES_CLASSIFY_ARITHMETIC_TYPE (posix_ctype P E t))"

text \<open>The offset of a member behind a \<open>char\<close> is the first multiple of its alignment.\<close>

definition ctypes_alignmentof_sigset_t :: "platform \<Rightarrow> posix_env \<Rightarrow> value \<Rightarrow> value" where
  "ctypes_alignmentof_sigset_t P E u = Val_int P (int (align_up 1 (sigset_alignment E)))"

definition ctypes_sizeof_sigset_t :: "platform \<Rightarrow> posix_env \<Rightarrow> value \<Rightarrow> value" where
  "ctypes_sizeof_sigset_t P E u = Val_int P (int (sigset_size E))"

lemma classify_arith_type: "CTYPES_CLASSIFY_ARITHMETIC_TYPE (arith_type_of k) = Inr k"
  by (cases k) (simp_all add: classify_values)

lemma align_up_1: "0 < a \<Longrightarrow> align_up 1 a = a"
  by (cases "a = 1") (auto simp: align_up_def mod_less)

lemma oint_small: "platform_ok P \<Longrightarrow> x \<in> {0..100} \<Longrightarrow> Long_val (Val_long P x) = Inr x"
proof -
  assume P: "platform_ok P" and x: "x \<in> {0..100}"
  have p: "2 \<le> sizeof_ptr P" using platform_okD(8) [OF P] by simp
  have "oint_ok P x" by (rule oint_ok_small [of 1]) (use p x in \<open>auto simp: in_srange_def\<close>)
  then show ?thesis using p by (simp add: Long_val_Val_long)
qed

text \<open>
  The numbers that the POSIX stubs give OCaml: for every type that is one of the ten arithmetic types,
  the index of the constructor with its size, signedness and kind, read back by \<open>Long_val\<close>;
  different arithmetic types have different indices; and the alignment of \<open>sigset_t\<close>,
  computed from a structure, is its alignment.
\<close>

theorem posix_types_described:
  assumes "platform_ok P" "posix_ctype P E t = arith_type_of k" "0 < sigset_alignment E" "sigset_alignment E \<le> 100"
  shows "bindR (ctypes_typeof P E t u) Long_val = Inr (int (arith_index k)) \<and>
    (\<forall>j. arith_index j = arith_index k \<longrightarrow> arith_type_of j = posix_ctype P E t) \<and>
    Long_val (ctypes_alignmentof_sigset_t P E u) = Inr (int (sigset_alignment E))"
proof -
  have "int (arith_index k) \<in> {0..100}" by (cases k) simp_all
  moreover have "j = k" if "arith_index j = arith_index k" for j
    using that by (cases j; cases k) simp_all
  moreover have "int (sigset_alignment E) \<in> {0..100}" using assms(4) by simp
  ultimately show ?thesis
    using assms(2,3) oint_small [OF assms(1)]
    by (auto simp: ctypes_typeof_def classify_arith_type ctypes_alignmentof_sigset_t_def align_up_1 [unfolded One_nat_def])
qed

theorem posix_types_described_witness:
  "bindR (ctypes_typeof lp64 \<lparr>underlying = (\<lambda>t. C_unsigned 4), sigset_size = 128, sigset_alignment = 8, mingw = False\<rparr> Mode_t Val_unit)
     Long_val = Inr 6"
  using posix_types_described [OF platform_ok_lp64,
      of "\<lparr>underlying = (\<lambda>t. C_unsigned 4), sigset_size = 128, sigset_alignment = 8, mingw = False\<rparr>" Mode_t
         Ctypes_arith_Uint32 Val_unit]
  by (simp add: posix_ctype_def)

end
