(* ===== verification/Cstubs_Macros.thy ===== *)
theory Cstubs_Macros
  imports Ffi_Call_Correct
begin

text \<open>
  \<open>src/ctypes/ctypes_cstubs_internals.h\<close>: what generated stubs use to pass strings and characters and to
  return \<open>errno\<close>.  They take the place of the libffi calls of \<open>Ffi_Call\<close>, and have to treat
  the same values the same way.
\<close>

text \<open>The remainder of C has the sign of its first operand.\<close>

definition c_rem :: "int \<Rightarrow> int \<Rightarrow> int" where
  "c_rem x y = (if 0 \<le> x then x mod y else - ((- x) mod y))"

text \<open>\<open>c\<close> is a \<open>char\<close>, promoted to \<open>int\<close>.\<close>

definition Ctypes_val_char :: "platform \<Rightarrow> int \<Rightarrow> value" where
  "Ctypes_val_char P c = Val_int P (c_rem (c + 256) 256)"

definition CTYPES_PTR_OF_OCAML_STRING :: "platform \<Rightarrow> ocaml_runtime \<Rightarrow> value \<Rightarrow> nat result" where
  "CTYPES_PTR_OF_OCAML_STRING P R s =
     bindR (Field s 1) (\<lambda>str. bindR (String_val str) (\<lambda>bs.
     bindR (Field s 0) (\<lambda>v. bindR (Long_val v) (\<lambda>off.
       Inr (nat (uwrap (sizeof_ptr P) (int (string_address R str) + off)))))))"

text \<open>\<open>Bytes_val\<close> is the same address; older headers without it use the macro for strings.\<close>

definition CTYPES_PTR_OF_OCAML_BYTES :: "platform \<Rightarrow> ocaml_runtime \<Rightarrow> value \<Rightarrow> nat result" where
  "CTYPES_PTR_OF_OCAML_BYTES P R s = CTYPES_PTR_OF_OCAML_STRING P R s"

text \<open>The pair is allocated before \<open>errno\<close> is read; \<open>alloc_errno\<close> is what the allocation does to it.\<close>

definition ctypes_pair_with_errno :: "platform \<Rightarrow> integers_lib \<Rightarrow> (int \<Rightarrow> int) \<Rightarrow> value \<Rightarrow> value act" where
  "ctypes_pair_with_errno P L alloc_errno p w =
     (let w1 = w\<lparr>errno := alloc_errno (errno w)\<rparr>
      in (w1, bindR (copy_by L (sint_rep P) (errno w1)) (\<lambda>e. Inr (Block 0 [p, e]))))"

text \<open>
  C39: generated stubs and the libffi path agree: a C character, whether the compiler's \<open>char\<close> is signed
  or not, becomes the OCaml character that reading it from memory gives; a string passed with
  an offset is given to C as the address that \<open>ctypes_call\<close> redirects its argument to.
\<close>

theorem stubs_agree_with_libffi:
  assumes "in_srange 1 c \<or> in_urange 1 c" "store_int P m a 1 c = Inr m'"
    and "mapped (cmem w) arr (sizeof_ptr P)" "mapped (cmem w) refs (sizeof_ptr P)"
    and "refs + sizeof_ptr P \<le> arr" "arr < addr_limit P" "0 < sizeof_ptr P" "oint_ok P off"
  shows "read_prim P L Ctypes_Char m' a = Inr (Ctypes_val_char P c) \<and>
    (\<exists>m p. CTYPES_PTR_OF_OCAML_STRING P R (Block 0 [Val_long P off, String_block s, x]) = Inr p \<and>
       pass_references P R refs arr 0 [Block 0 [String_block s, Val_long P off]] w = (w\<lparr>cmem := m\<rparr>, Inr ()) \<and>
       load_u P m arr (sizeof_ptr P) = Inr (int refs) \<and> load_u P m refs (sizeof_ptr P) = Inr (int p))"
proof
  have "c_rem (c + 256) 256 = uwrap 1 c"
    using assms(1) by (auto simp: c_rem_def uwrap_def in_srange_def in_urange_def)
  then show "read_prim P L Ctypes_Char m' a = Inr (Ctypes_val_char P c)"
    using load_u_store [OF assms(2)] by (simp add: Ctypes_val_char_def)
next
  let ?p = "nat (uwrap (sizeof_ptr P) (int (string_address R (String_block s)) + off))"
  have p: "CTYPES_PTR_OF_OCAML_STRING P R (Block 0 [Val_long P off, String_block s, x]) = Inr ?p"
    using assms(7,8) by (simp add: CTYPES_PTR_OF_OCAML_STRING_def Long_val_Val_long del: Long_val.simps)
  obtain m where m: "pass_references P R refs arr 0 (map (reference_field P) [Some (String_block s, off)]) w =
      (w\<lparr>cmem := m\<rparr>, Inr ())" "redirected P R refs arr (cmem w) m 0 (Some (String_block s, off))"
    using pass_references_ok [of "[Some (String_block s, off)]" P w arr 0 refs 1 R] assms(3-8) by auto
  have nn: "int ?p = uwrap (sizeof_ptr P) (int (string_address R (String_block s)) + off)"
    by (simp add: uwrap_def)
  have "pass_references P R refs arr 0 [Block 0 [String_block s, Val_long P off]] w = (w\<lparr>cmem := m\<rparr>, Inr ())"
    using m(1) by (simp only: list.map reference_field_simps)
  moreover have "load_u P m arr (sizeof_ptr P) = Inr (int refs)" "load_u P m refs (sizeof_ptr P) = Inr (int ?p)"
    unfolding nn using m(2) by (simp_all add: redirected_def)
  ultimately show "\<exists>m p. CTYPES_PTR_OF_OCAML_STRING P R (Block 0 [Val_long P off, String_block s, x]) = Inr p \<and>
       pass_references P R refs arr 0 [Block 0 [String_block s, Val_long P off]] w = (w\<lparr>cmem := m\<rparr>, Inr ()) \<and>
       load_u P m arr (sizeof_ptr P) = Inr (int refs) \<and> load_u P m refs (sizeof_ptr P) = Inr (int p)"
    using p by (intro exI [of _ m] exI [of _ ?p] conjI)
qed

theorem stubs_agree_with_libffi_witness:
  "\<exists>m'. store_int lp64 (cmem ex_stack) 0 1 (- 1) = Inr m' \<and>
     read_prim lp64 (boxed_integers lp64) Ctypes_Char m' 0 = Inr (Val_int lp64 255)"
proof -
  have c: "in_srange 1 (- 1) \<or> in_urange 1 (- 1)" by (simp add: in_srange_def)
  obtain m' where m': "store_int lp64 (cmem ex_stack) 0 1 (- 1) = Inr m'"
    using store_int_defined [of lp64 "cmem ex_stack" 0 1 "- 1"] by (auto simp: ex_stack_def mapped_iff)
  have s: "mapped (cmem ex_stack) 128 (sizeof_ptr lp64)" "mapped (cmem ex_stack) 96 (sizeof_ptr lp64)"
    "96 + sizeof_ptr lp64 \<le> 128" "128 < addr_limit lp64" "0 < sizeof_ptr lp64" "oint_ok lp64 1"
    by (simp_all add: ex_stack_def mapped_iff oint_ok_def in_srange_def)
  have r: "Ctypes_val_char lp64 (- 1) = Val_int lp64 255" by (simp add: Ctypes_val_char_def c_rem_def)
  have "read_prim lp64 (boxed_integers lp64) Ctypes_Char m' 0 = Inr (Ctypes_val_char lp64 (- 1))"
    by (rule stubs_agree_with_libffi [OF c m' s, THEN conjunct1])
  with r m' show ?thesis by auto
qed

end
