(* ===== verification/Dl_Stubs.thy ===== *)
theory Dl_Stubs
  imports Primitives
begin

text \<open>
  \<open>src/ctypes-foreign/dl_stubs.c.unix\<close> and \<open>dl.ml.unix\<close>: loading shared libraries and looking up
  symbols.  The functions of \<open>dlfcn.h\<close> are parameters that act on a state of the loader, and so are
  the values of its flags, some of which a system may not define.
\<close>

section \<open>The loader\<close>

record 'd dl_lib =
  dlopen :: "byte list option \<Rightarrow> int \<Rightarrow> 'd \<Rightarrow> 'd \<times> nat"
  dlsym :: "nat option \<Rightarrow> byte list \<Rightarrow> 'd \<Rightarrow> 'd \<times> nat"
  dlclose :: "nat \<Rightarrow> 'd \<Rightarrow> 'd \<times> int"
  dlerror :: "'d \<Rightarrow> 'd \<times> byte list option"

record dl_macros =
  m_LAZY :: int
  m_NOW :: int
  m_GLOBAL :: int
  m_LOCAL :: int
  m_NODELETE :: "int option"
  m_NOLOAD :: "int option"
  m_DEEPBIND :: "int option"

text \<open>The constructors of \<open>flag\<close> in \<open>dl.ml\<close>, which OCaml numbers from zero.\<close>

datatype flag = RTLD_LAZY | RTLD_NOW | RTLD_GLOBAL | RTLD_LOCAL | RTLD_NODELETE | RTLD_NOLOAD | RTLD_DEEPBIND

primrec flag_number :: "flag \<Rightarrow> nat" where
  "flag_number RTLD_LAZY = 0" | "flag_number RTLD_NOW = 1" | "flag_number RTLD_GLOBAL = 2"
| "flag_number RTLD_LOCAL = 3" | "flag_number RTLD_NODELETE = 4" | "flag_number RTLD_NOLOAD = 5"
| "flag_number RTLD_DEEPBIND = 6"

primrec flag_macro :: "dl_macros \<Rightarrow> flag \<Rightarrow> int option" where
  "flag_macro M RTLD_LAZY = Some (m_LAZY M)" | "flag_macro M RTLD_NOW = Some (m_NOW M)"
| "flag_macro M RTLD_GLOBAL = Some (m_GLOBAL M)" | "flag_macro M RTLD_LOCAL = Some (m_LOCAL M)"
| "flag_macro M RTLD_NODELETE = m_NODELETE M" | "flag_macro M RTLD_NOLOAD = m_NOLOAD M"
| "flag_macro M RTLD_DEEPBIND = m_DEEPBIND M"

section \<open>The stubs\<close>

text \<open>\<open>enum dl_flags_caml\<close>: a constant whose macro is not defined is left out, and the later ones move up.\<close>

definition dl_flags_caml :: "dl_macros \<Rightarrow> flag list" where
  "dl_flags_caml M =
     [RTLD_LAZY, RTLD_NOW, RTLD_GLOBAL, RTLD_LOCAL] @
     (if m_NODELETE M \<noteq> None then [RTLD_NODELETE] else []) @
     (if m_NOLOAD M \<noteq> None then [RTLD_NOLOAD] else []) @
     (if m_DEEPBIND M \<noteq> None then [RTLD_DEEPBIND] else [])"

definition ctypes_resolve_dl_flag :: "platform \<Rightarrow> dl_macros \<Rightarrow> value \<Rightarrow> value result" where
  "ctypes_resolve_dl_flag P M v =
     bindR (Int_val P v) (\<lambda>i.
       if 0 \<le> i \<and> i < int (length (dl_flags_caml M))
       then bindR (need Assert_failure (flag_macro M (dl_flags_caml M ! nat i))) (\<lambda>rv. Inr (Val_long P rv))
       else Inl Assert_failure)"

text \<open>\<open>None\<close> is the number zero, \<open>Some v\<close> a block of one field.\<close>

definition Val_none :: "platform \<Rightarrow> value" where
  "Val_none P = Val_int P 0"

definition Val_some :: "value \<Rightarrow> value" where
  "Val_some v = Block 0 [v]"

definition ctypes_dlopen :: "platform \<Rightarrow> 'd dl_lib \<Rightarrow> value \<Rightarrow> value \<Rightarrow> 'd \<Rightarrow> ('d \<times> value) result" where
  "ctypes_dlopen P D filename flag d =
     bindR (if filename = Val_none P then Inr None
            else bindR (Field filename 0) (\<lambda>s. map_sum id (Some \<circ> c_string) (String_val s))) (\<lambda>cfilename.
     bindR (Int_val P flag) (\<lambda>cflag.
       case dlopen D cfilename cflag d of (d', handle) \<Rightarrow>
         Inr (d', if handle \<noteq> 0 then Val_some (CTYPES_FROM_PTR P handle) else Val_none P)))"

text \<open>The handle \<open>None\<close> of \<open>dlsym\<close> is \<open>RTLD_DEFAULT\<close>.\<close>

definition ctypes_dlsym :: "platform \<Rightarrow> 'd dl_lib \<Rightarrow> value \<Rightarrow> value \<Rightarrow> 'd \<Rightarrow> ('d \<times> value) result" where
  "ctypes_dlsym P D handle_option symbol d =
     bindR (if handle_option = Val_none P then Inr None
            else bindR (Field handle_option 0) (\<lambda>h. map_sum id Some (CTYPES_TO_PTR P h))) (\<lambda>handle.
     bindR (String_val symbol) (\<lambda>s.
       case dlsym D handle (c_string s) d of (d', r) \<Rightarrow>
         Inr (d', if r = 0 then Val_none P else Val_some (CTYPES_FROM_PTR P r))))"

definition ctypes_dlclose :: "platform \<Rightarrow> 'd dl_lib \<Rightarrow> value \<Rightarrow> 'd \<Rightarrow> ('d \<times> value) result" where
  "ctypes_dlclose P D handle d =
     bindR (CTYPES_TO_PTR P handle) (\<lambda>h. case dlclose D h d of (d', x) \<Rightarrow> Inr (d', Val_long P x))"

definition ctypes_dlerror :: "platform \<Rightarrow> 'd dl_lib \<Rightarrow> value \<Rightarrow> 'd \<Rightarrow> 'd \<times> value" where
  "ctypes_dlerror P D u d =
     (case dlerror D d of (d', error) \<Rightarrow>
        (d', case error of Some e \<Rightarrow> Val_some (String_block (c_string e)) | None \<Rightarrow> Val_none P))"

section \<open>\<open>dl.ml\<close>\<close>

datatype dl_exn = DL_error "byte list" | Failwith string | Stub fault

definition report_dl_error :: "platform \<Rightarrow> 'd dl_lib \<Rightarrow> bool \<Rightarrow> 'd \<Rightarrow> 'd \<times> dl_exn" where
  "report_dl_error P D noload d =
     (case ctypes_dlerror P D Val_unit d of (d', v) \<Rightarrow>
        (d', case v of
           Block t [String_block e] \<Rightarrow> DL_error e
         | _ \<Rightarrow> if noload then DL_error (ascii ''library not loaded'') else Failwith ''dl_error: expected error, but no error reported''))"

text \<open>An OCaml integer or an exception; \<open>lor\<close> of the values of the flags.\<close>

primrec crush_flags :: "platform \<Rightarrow> dl_macros \<Rightarrow> int \<Rightarrow> flag list \<Rightarrow> int result" where
  "crush_flags P M i [] = Inr i"
| "crush_flags P M i (f # fs) =
     bindR (ctypes_resolve_dl_flag P M (Val_int P (int (flag_number f)))) (\<lambda>v.
     bindR (Long_val v) (\<lambda>n. crush_flags P M (i OR n) fs))"

definition Dl_dlopen ::
    "platform \<Rightarrow> 'd dl_lib \<Rightarrow> dl_macros \<Rightarrow> value \<Rightarrow> flag list \<Rightarrow> 'd \<Rightarrow> 'd \<times> (dl_exn + value)" where
  "Dl_dlopen P D M filename flags d =
     (case bindR (crush_flags P M 0 flags) (\<lambda>i. ctypes_dlopen P D filename (Val_int P i) d) of
        Inl e \<Rightarrow> (d, Inl (Stub e))
      | Inr (d', v) \<Rightarrow>
          (case v of
             Block t [library] \<Rightarrow> (d', Inr library)
           | _ \<Rightarrow> map_prod id Inl (report_dl_error P D (RTLD_NOLOAD \<in> set flags) d')))"

definition Dl_dlsym :: "platform \<Rightarrow> 'd dl_lib \<Rightarrow> value \<Rightarrow> value \<Rightarrow> 'd \<Rightarrow> 'd \<times> (dl_exn + value)" where
  "Dl_dlsym P D handle symbol d =
     (case ctypes_dlsym P D handle symbol d of
        Inl e \<Rightarrow> (d, Inl (Stub e))
      | Inr (d', v) \<Rightarrow>
          (case v of
             Block t [address] \<Rightarrow> (d', Inr address)
           | _ \<Rightarrow> map_prod id Inl (report_dl_error P D False d')))"

definition Dl_dlclose :: "platform \<Rightarrow> 'd dl_lib \<Rightarrow> value \<Rightarrow> 'd \<Rightarrow> 'd \<times> (dl_exn + unit)" where
  "Dl_dlclose P D handle d =
     (case ctypes_dlclose P D handle d of
        Inl e \<Rightarrow> (d, Inl (Stub e))
      | Inr (d', v) \<Rightarrow>
          (if v = Val_long P 0 then (d', Inr ()) else map_prod id Inl (report_dl_error P D False d')))"

section \<open>Flags\<close>

lemma flag_value:
  assumes "platform_ok P"
  shows "Int_val P (Val_int P (int (flag_number f))) = Inr (int (flag_number f))"
proof -
  have "in_urange 1 (int (flag_number f))" by (cases f) (simp_all add: in_urange_def)
  then have "oint_ok P (int (flag_number f))" "in_srange (sizeof_int P) (int (flag_number f))"
    using platform_okD [OF assms] by (auto intro: oint_ok_small [of 1] in_srange_of_urange [of 1])
  then show ?thesis using platform_okD [OF assms] by (simp add: Int_val_Val_int)
qed

definition flag_prefix :: "dl_macros \<Rightarrow> flag \<Rightarrow> bool" where
  "flag_prefix M f \<longleftrightarrow> list_all (\<lambda>g. flag_number g \<le> flag_number f \<longrightarrow> flag_macro M g \<noteq> None)
     [RTLD_NODELETE, RTLD_NOLOAD, RTLD_DEEPBIND]"

lemma resolve_flag_eq:
  assumes "platform_ok P"
  shows "ctypes_resolve_dl_flag P M (Val_int P (int (flag_number f))) =
    (if flag_number f < length (dl_flags_caml M)
     then bindR (need Assert_failure (flag_macro M (dl_flags_caml M ! flag_number f))) (\<lambda>rv. Inr (Val_long P rv))
     else Inl Assert_failure)"
  by (simp add: ctypes_resolve_dl_flag_def flag_value [OF assms])

text \<open>
  C37: the flags of \<open>dlopen\<close>.  A flag resolves to the value of its own macro when the system defines
  that macro and every optional one that OCaml numbers before it.  A system that lacks one
  gives wrong values instead of failing: without \<open>RTLD_NODELETE\<close> this flag resolves to the value of
  \<open>RTLD_NOLOAD\<close>, or of \<open>RTLD_DEEPBIND\<close> if that is missing too, and without \<open>RTLD_NOLOAD\<close> this flag
  resolves to the value of \<open>RTLD_DEEPBIND\<close>.
\<close>

theorem dl_flags_resolved:
  assumes "platform_ok P"
  shows "ctypes_resolve_dl_flag P M (Val_int P (int (flag_number f))) =
    (if flag_prefix M f then Inr (Val_long P (the (flag_macro M f)))
     else case (f, m_NODELETE M, m_NOLOAD M, m_DEEPBIND M) of
       (RTLD_NODELETE, None, Some x, d) \<Rightarrow> Inr (Val_long P x)
     | (RTLD_NODELETE, None, None, Some y) \<Rightarrow> Inr (Val_long P y)
     | (RTLD_NOLOAD, None, Some x, Some y) \<Rightarrow> Inr (Val_long P y)
     | (RTLD_NOLOAD, Some n, None, Some y) \<Rightarrow> Inr (Val_long P y)
     | z \<Rightarrow> Inl Assert_failure)"
  unfolding resolve_flag_eq [OF assms]
  by (cases f; cases "m_NODELETE M"; cases "m_NOLOAD M"; cases "m_DEEPBIND M")
    (simp_all add: dl_flags_caml_def flag_prefix_def)

theorem dl_flags_resolved_witness:
  "ctypes_resolve_dl_flag lp64 \<lparr>m_LAZY = 1, m_NOW = 2, m_GLOBAL = 4, m_LOCAL = 8, m_NODELETE = None,
       m_NOLOAD = Some 16, m_DEEPBIND = None\<rparr> (Val_int lp64 (int (flag_number RTLD_NODELETE))) = Inr (Val_long lp64 16)"
  unfolding dl_flags_resolved [OF platform_ok_lp64] by (simp add: flag_prefix_def)

section \<open>Libraries and symbols\<close>

text \<open>
  A library that \<open>dlopen\<close> opens is passed back to the loader by \<open>dlsym\<close> and \<open>dlclose\<close> as the handle it
  gave, with the symbol's name up to its first NUL; a symbol that is not found raises the
  loader's message, and one whose address is null without a message ends in \<open>Failure\<close>.
\<close>

theorem dl_symbol_lookup:
  assumes "platform_ok P" "h \<noteq> 0" "h < addr_limit P" "crush_flags P M 0 flags = Inr i" "Int_val P (Val_int P i) = Inr i"
    and "dlopen D (Some (c_string name)) i d = (d1, h)" "dlsym D (Some h) (c_string symb) d1 = (d2, a)"
    and "a = 0 \<Longrightarrow> dlerror D d2 = (d3, e)"
  shows "\<exists>lib. Dl_dlopen P D M (Val_some (String_block name)) flags d = (d1, Inr lib) \<and>
    Dl_dlsym P D (Val_some lib) (String_block symb) d1 =
      (if a \<noteq> 0 then (d2, Inr (CTYPES_FROM_PTR P a))
       else (d3, Inl (case e of Some s \<Rightarrow> DL_error (c_string s)
                      | None \<Rightarrow> Failwith ''dl_error: expected error, but no error reported''))) \<and>
    Dl_dlclose P D lib d1 =
      (case dlclose D h d1 of (d4, r) \<Rightarrow>
         if Val_long P r = Val_long P 0 then (d4, Inr ()) else map_prod id Inl (report_dl_error P D False d4))"
proof -
  have n: "Val_some v \<noteq> Val_none P" for v by (simp add: Val_some_def Val_none_def Val_long_def)
  have o: "Dl_dlopen P D M (Val_some (String_block name)) flags d = (d1, Inr (CTYPES_FROM_PTR P h))"
    using assms(2,4-6) n by (simp add: Dl_dlopen_def ctypes_dlopen_def) (simp add: Val_some_def)
  moreover have "Dl_dlsym P D (Val_some (CTYPES_FROM_PTR P h)) (String_block symb) d1 =
      (if a \<noteq> 0 then (d2, Inr (CTYPES_FROM_PTR P a))
       else (d3, Inl (case e of Some s \<Rightarrow> DL_error (c_string s)
                      | None \<Rightarrow> Failwith ''dl_error: expected error, but no error reported'')))"
    using assms(3,7,8) n
    by (simp add: Dl_dlsym_def ctypes_dlsym_def)
      (auto simp: Val_some_def Val_none_def Val_long_def report_dl_error_def ctypes_dlerror_def split: option.splits)
  moreover have "Dl_dlclose P D (CTYPES_FROM_PTR P h) d1 =
      (case dlclose D h d1 of (d4, r) \<Rightarrow>
         if Val_long P r = Val_long P 0 then (d4, Inr ()) else map_prod id Inl (report_dl_error P D False d4))"
    using assms(3) by (simp add: Dl_dlclose_def ctypes_dlclose_def split: prod.split)
  ultimately show ?thesis by blast
qed

end
