(* ===== verification/Dl_Windows.thy ===== *)
theory Dl_Windows
  imports Dl_Stubs Type_Info Managed_Buffer "HOL-Library.Multiset"
begin

text \<open>
  \<open>src/ctypes-foreign/dl_stubs.c.win\<close> and \<open>dl.ml.win\<close>: the loader on Windows.  The functions of
  Windows are parameters that act on a state of the system; what their documentation says of
  open handles, of the error mode and of the list of modules are the locales \<open>win32_resources\<close> and \<open>win32_modules\<close>.
  The array that \<open>EnumProcessModules\<close> fills is the list of the handles it wrote; reading beyond them is a fault.
\<close>

section \<open>The functions of Windows\<close>

record 'w win32 =
  OpenProcess :: "'w \<Rightarrow> 'w \<times> nat"
  EnumProcessModules :: "nat \<Rightarrow> nat \<Rightarrow> 'w \<Rightarrow> 'w \<times> bool \<times> nat list \<times> nat"
  CloseHandle :: "nat \<Rightarrow> 'w \<Rightarrow> 'w"
  GetProcAddress :: "nat \<Rightarrow> byte list \<Rightarrow> 'w \<Rightarrow> 'w \<times> nat"
  GetModuleHandle :: "'w \<Rightarrow> 'w \<times> nat"
  GetModuleHandleW :: "byte list \<Rightarrow> 'w \<Rightarrow> 'w \<times> nat"
  PinModule :: "byte list \<Rightarrow> 'w \<Rightarrow> 'w"
  LoadLibraryW :: "byte list \<Rightarrow> 'w \<Rightarrow> 'w \<times> nat"
  FreeLibrary :: "nat \<Rightarrow> 'w \<Rightarrow> 'w \<times> bool"
  SetErrorMode :: "nat \<Rightarrow> 'w \<Rightarrow> 'w \<times> nat"
  GetLastError :: "'w \<Rightarrow> nat"
  FormatMessage :: "nat \<Rightarrow> nat \<Rightarrow> nat \<times> byte list"
  MultiByteToWideChar :: "byte list \<Rightarrow> nat \<Rightarrow> nat \<times> byte list"

section \<open>The stubs\<close>

definition STUB_ERROR_UNKNOWN :: "platform \<Rightarrow> value" where
  "STUB_ERROR_UNKNOWN P = Val_long P 0"

definition STUB_ERROR_NOMEM :: "platform \<Rightarrow> value" where
  "STUB_ERROR_NOMEM P = Val_long P 1"

definition stub_ok :: "platform \<Rightarrow> nat \<Rightarrow> value" where
  "stub_ok P a = Block 1 [CTYPES_FROM_PTR P a]"

definition get_tagged_error_msg :: "platform \<Rightarrow> 'w win32 \<Rightarrow> nat \<Rightarrow> value" where
  "get_tagged_error_msg P W ecode =
     (if ecode \<noteq> 0
      then case FormatMessage W ecode 512 of (len, buf) \<Rightarrow>
        if len \<noteq> 0 then Block 0 [String_block (c_string buf)] else STUB_ERROR_UNKNOWN P
      else STUB_ERROR_UNKNOWN P)"

text \<open>Called first with no room, \<open>MultiByteToWideChar\<close> returns how many characters it needs.\<close>

definition utf8_to_wstring :: "'w win32 \<Rightarrow> value \<Rightarrow> value result" where
  "utf8_to_wstring W utf8string =
     bindR (String_val utf8string) (\<lambda>s.
       let n = fst (MultiByteToWideChar W (c_string s) 0) in
       if n = 0 then Inr Val_unit
       else case MultiByteToWideChar W (c_string s) n of (n', chars) \<Rightarrow>
         Inr (if n \<noteq> n' then Val_unit else String_block chars))"

text \<open>The loop over the modules; zero when none has the symbol.\<close>

fun find_proc :: "'w win32 \<Rightarrow> byte list \<Rightarrow> nat list \<Rightarrow> nat \<Rightarrow> 'w \<Rightarrow> ('w \<times> nat) result" where
  "find_proc W needle ms 0 w = Inr (w, 0)"
| "find_proc W needle [] (Suc n) w = Inl Memory_fault"
| "find_proc W needle (m # ms) (Suc n) w =
     (case GetProcAddress W m needle w of (w', r) \<Rightarrow>
        if r \<noteq> 0 then Inr (w', r) else find_proc W needle ms n w')"

text \<open>
  The search and what both its ends do: the array goes back if it came from \<open>malloc\<close> (an address
  other than zero here), and so does the handle of the process.
\<close>

definition search_modules ::
    "platform \<Rightarrow> 'w win32 \<Rightarrow> byte list \<Rightarrow> nat \<Rightarrow> nat \<Rightarrow> nat list \<Rightarrow> nat \<Rightarrow> 'w \<Rightarrow> cheap \<Rightarrow> ('w \<times> cheap \<times> value) result" where
  "search_modules P W needle proc r_modules ms bytes_real w h =
     bindR (find_proc W needle ms (bytes_real div sizeof_ptr P) w) (\<lambda>(w1, result).
     bindR (if r_modules \<noteq> 0 then c_free r_modules h else Inr h) (\<lambda>h1.
       Inr (CloseHandle W proc w1, h1, if result \<noteq> 0 then stub_ok P result else Val_long P 2)))"

definition ctypes_win32_dlsym_rtld_default ::
    "platform \<Rightarrow> allocator \<Rightarrow> 'w win32 \<Rightarrow> value \<Rightarrow> 'w \<Rightarrow> cheap \<Rightarrow> ('w \<times> cheap \<times> value) result" where
  "ctypes_win32_dlsym_rtld_default P A W needle w h =
     bindR (String_val needle) (\<lambda>s.
     case OpenProcess W w of (w1, proc) \<Rightarrow>
       if proc = 0 then Inr (w1, h, get_tagged_error_msg P W (GetLastError W w1))
       else case EnumProcessModules W proc (128 * sizeof_ptr P) w1 of (w2, ok, ms, bytes_hmodules) \<Rightarrow>
         if \<not> ok then
           (let ec = GetLastError W w2 in Inr (CloseHandle W proc w2, h, get_tagged_error_msg P W ec))
         else if 128 * sizeof_ptr P < bytes_hmodules then
           (case c_malloc A bytes_hmodules h of (h1, r_modules) \<Rightarrow>
              if r_modules = 0 then Inr (CloseHandle W proc w2, h1, STUB_ERROR_NOMEM P)
              else case EnumProcessModules W proc bytes_hmodules w2 of (w3, ok, ms, bytes_real) \<Rightarrow>
                if \<not> ok then
                  (let ec = GetLastError W w3 in
                   bindR (c_free r_modules h1) (\<lambda>h2. Inr (CloseHandle W proc w3, h2, get_tagged_error_msg P W ec)))
                else search_modules P W (c_string s) proc r_modules ms
                  (if bytes_hmodules < bytes_real then bytes_hmodules else bytes_real) w3 h1)
         else search_modules P W (c_string s) proc 0 ms bytes_hmodules w2 h)"

definition ctypes_win32_dlsym :: "platform \<Rightarrow> 'w win32 \<Rightarrow> value \<Rightarrow> value \<Rightarrow> 'w \<Rightarrow> ('w \<times> value) result" where
  "ctypes_win32_dlsym P W handle symbol w =
     bindR (CTYPES_TO_PTR P handle) (\<lambda>m.
     bindR (String_val symbol) (\<lambda>s.
       case GetProcAddress W m (c_string s) w of (w', p) \<Rightarrow>
         Inr (w', if p = 0 then get_tagged_error_msg P W (GetLastError W w') else stub_ok P p)))"

text \<open>\<open>SEM_FAILCRITICALERRORS\<close> and \<open>SEM_NOOPENFILEERRORBOX\<close>.\<close>

definition quiet_mode :: nat where
  "quiet_mode = 0x8001"

text \<open>Loading a library whose name was converted: the error mode is set and put back around the call.\<close>

definition load_library :: "platform \<Rightarrow> 'w win32 \<Rightarrow> byte list \<Rightarrow> int \<Rightarrow> 'w \<Rightarrow> 'w \<times> value" where
  "load_library P W name iflags w =
     (case SetErrorMode W quiet_mode w of (w1, e_mode) \<Rightarrow>
      case LoadLibraryW W name w1 of (w2, p) \<Rightarrow>
      let ec = GetLastError W w2; w3 = fst (SetErrorMode W e_mode w2) in
      if p = 0 then (w3, get_tagged_error_msg P W ec)
      else (if iflags AND 2 \<noteq> 0 then PinModule W name w3 else w3, stub_ok P p))"

definition ctypes_win32_dlopen :: "platform \<Rightarrow> 'w win32 \<Rightarrow> value \<Rightarrow> value \<Rightarrow> 'w \<Rightarrow> ('w \<times> value) result" where
  "ctypes_win32_dlopen P W filename flags w =
     (if filename = Val_none P then
        (case GetModuleHandle W w of (w1, p) \<Rightarrow>
           Inr (w1, if p = 0 then get_tagged_error_msg P W (GetLastError W w1) else stub_ok P p))
      else
        bindR (Long_val flags) (\<lambda>iflags.
        bindR (Field filename 0) (\<lambda>f.
        bindR (utf8_to_wstring W f) (\<lambda>wname.
          if wname = Val_unit then Inr (w, Block 0 [String_block (ascii ''invalid filename'')])
          else bindR (String_val wname) (\<lambda>name.
            if iflags AND 1 \<noteq> 0 then
              (case GetModuleHandleW W name w of (w1, p) \<Rightarrow>
                 if p = 0 then Inr (w1, Val_long P 2) else Inr (load_library P W name iflags w1))
            else Inr (load_library P W name iflags w))))))"

definition ctypes_win32_dlclose :: "platform \<Rightarrow> 'w win32 \<Rightarrow> value \<Rightarrow> 'w \<Rightarrow> ('w \<times> value) result" where
  "ctypes_win32_dlclose P W ohandle w =
     bindR (CTYPES_TO_PTR P ohandle) (\<lambda>handle.
       if handle = 0 then Inr (w, Val_long P 2)
       else case GetModuleHandle W w of (w1, self) \<Rightarrow>
         if handle = self then Inr (w1, Val_long P 2)
         else case FreeLibrary W handle w1 of (w2, ok) \<Rightarrow>
           Inr (w2, if ok then Val_long P 2 else get_tagged_error_msg P W (GetLastError W w2)))"

section \<open>\<open>dl.ml\<close>\<close>

definition unknown :: "byte list" where "unknown = ascii ''unknown_error''"
definition nomem :: "byte list" where "nomem = ascii ''no memory''"

text \<open>A line end at the end of a message, with the carriage return before it, is cut off.\<close>

definition nonl :: "byte list \<Rightarrow> byte list" where
  "nonl s =
     (let l = length s in
      if l = 0 \<or> s ! (l - 1) \<noteq> 10 then s
      else take (if 1 < l \<and> s ! (l - 2) = 13 then l - 2 else l - 1) s)"

definition replace_slash :: "byte list \<Rightarrow> byte list" where
  "replace_slash s = map (\<lambda>x. if x = 47 then 92 else x) s"

text \<open>\<open>String.lowercase\<close> on Latin-1, and the functions of \<open>Filename\<close> on Windows.\<close>

definition lowercase :: "byte list \<Rightarrow> byte list" where
  "lowercase s = map (\<lambda>b. if (65 \<le> b \<and> b \<le> 90) \<or> (192 \<le> b \<and> b \<le> 214) \<or> (216 \<le> b \<and> b \<le> 222) then b + 32 else b) s"

definition check_suffix :: "byte list \<Rightarrow> byte list \<Rightarrow> bool" where
  "check_suffix name suff \<longleftrightarrow>
     length suff \<le> length name \<and> lowercase (drop (length name - length suff) name) = lowercase suff"

definition is_dir_sep :: "byte \<Rightarrow> bool" where
  "is_dir_sep b \<longleftrightarrow> b = 47 \<or> b = 92 \<or> b = 58"

text \<open>
  The base name ends with a dot and what follows it, and something other than dots comes before.
\<close>

definition chop_extension :: "byte list \<Rightarrow> byte list result" where
  "chop_extension name =
     (let rev_ext = takeWhile (\<lambda>b. \<not> is_dir_sep b \<and> b \<noteq> 46) (rev name);
          rest = drop (length rev_ext) (rev name);
          base = dropWhile (\<lambda>b. b = 46) rest in
      if rest = [] \<or> hd rest \<noteq> 46 \<or> base = [] \<or> is_dir_sep (hd base)
      then Inl (Invalid_argument ''Filename.chop_extension'')
      else Inr (rev (tl rest)))"

definition library_name :: "byte list \<Rightarrow> byte list result" where
  "library_name x =
     (let s = if 47 \<in> set x then replace_slash x else x;
          ls = lowercase s in
      if check_suffix ls (ascii ''.so'') \<or> check_suffix ls (ascii ''.dylib'')
      then map_sum id (\<lambda>b. b @ ascii ''.dll'') (chop_extension s)
      else Inr s)"

definition dlopen_raise :: "byte list option \<Rightarrow> byte list \<Rightarrow> dl_exn" where
  "dlopen_raise s msg =
     DL_error (ascii ''dlopen ('' @ (case s of None \<Rightarrow> ascii ''NULL'' | Some x \<Rightarrow> x) @ ascii ''): '' @ nonl msg)"

definition Win_dlopen ::
    "platform \<Rightarrow> 'w win32 \<Rightarrow> byte list option \<Rightarrow> flag list \<Rightarrow> 'w \<Rightarrow> 'w \<times> (dl_exn + value)" where
  "Win_dlopen P W filename flags w =
     (let iflags = (if RTLD_NOLOAD \<in> set flags then 1 else 0) + (if RTLD_NODELETE \<in> set flags then 2 else 0) in
      case (case filename of None \<Rightarrow> Inr None | Some x \<Rightarrow> map_sum id Some (library_name x)) of
        Inl e \<Rightarrow> (w, Inl (Stub e))
      | Inr name \<Rightarrow>
          (case ctypes_win32_dlopen P W
               (case name of None \<Rightarrow> Val_none P | Some x \<Rightarrow> Val_some (String_block x)) (Val_long P iflags) w of
             Inl e \<Rightarrow> (w, Inl (Stub e))
           | Inr (w', v) \<Rightarrow> (w',
               (case v of
                  Block t [x] \<Rightarrow>
                    (if t = 1 then Inr x
                     else case x of String_block s \<Rightarrow> Inl (dlopen_raise name s) | _ \<Rightarrow> Inl (Stub Ill_typed))
                | _ \<Rightarrow>
                    if v = Val_long P 0 then Inl (dlopen_raise name unknown)
                    else if v = Val_long P 1 then Inl (dlopen_raise name nomem)
                    else Inl (DL_error (ascii ''library not loaded''))))))"

definition draise :: "byte list \<Rightarrow> byte list \<Rightarrow> dl_exn" where
  "draise y x = DL_error (y @ ascii '': '' @ nonl x)"

definition Win_dlclose :: "platform \<Rightarrow> 'w win32 \<Rightarrow> value \<Rightarrow> 'w \<Rightarrow> 'w \<times> (dl_exn + unit)" where
  "Win_dlclose P W handle w =
     (case ctypes_win32_dlclose P W handle w of
        Inl e \<Rightarrow> (w, Inl (Stub e))
      | Inr (w', v) \<Rightarrow> (w',
          (case v of
             Block t [String_block s] \<Rightarrow> Inl (draise (ascii ''dlclose'') s)
           | _ \<Rightarrow>
               if v = Val_long P 2 then Inr ()
               else Inl (draise (ascii ''dlclose'') (if v = Val_long P 0 then unknown else nomem)))))"

text \<open>The message of a missing symbol quotes it with \<open>%S\<close>, a parameter here.\<close>

definition Win_dlsym ::
    "platform \<Rightarrow> allocator \<Rightarrow> 'w win32 \<Rightarrow> (byte list \<Rightarrow> byte list) \<Rightarrow> value option \<Rightarrow> byte list \<Rightarrow> 'w \<Rightarrow> cheap \<Rightarrow>
     'w \<times> cheap \<times> (dl_exn + value)" where
  "Win_dlsym P A W quote handle symbol w h =
     (case (case handle of
              None \<Rightarrow> ctypes_win32_dlsym_rtld_default P A W (String_block symbol) w h
            | Some x \<Rightarrow> map_sum id (\<lambda>(w', v). (w', h, v)) (ctypes_win32_dlsym P W x (String_block symbol) w)) of
        Inl e \<Rightarrow> (w, h, Inl (Stub e))
      | Inr (w', h', v) \<Rightarrow> (w', h',
          (case v of
             Block t [x] \<Rightarrow>
               (if t = 1 then Inr x
                else case x of String_block s \<Rightarrow> Inl (draise (ascii ''dlsym'') s) | _ \<Rightarrow> Inl (Stub Ill_typed))
           | _ \<Rightarrow> Inl (draise (ascii ''dlsym'')
                (if v = Val_long P 0 then unknown else if v = Val_long P 1 then nomem
                 else ascii ''no such symbol: '' @ quote symbol)))))"

section \<open>What Windows promises\<close>

definition gives_back :: "platform \<Rightarrow> cheap \<Rightarrow> cheap \<Rightarrow> bool" where
  "gives_back P h h' \<longleftrightarrow> heap_ok P h' \<and> mem h' = mem h \<and> blocks h' = blocks h"

text \<open>
  \<open>handles\<close> is the multiset of open process handles and \<open>mode\<close> the error mode of a state.  An enumeration that
  succeeds has written as many handles as fit the array; the bytes it reports are those of all
  modules, which another thread may have changed since.
\<close>

locale win32_resources =
  fixes P :: platform and W :: "'w win32" and handles :: "'w \<Rightarrow> nat multiset" and mode :: "'w \<Rightarrow> nat"
  assumes open_process:
      "OpenProcess W w = (w', p) \<Longrightarrow>
         handles w' = (if p = 0 then handles w else add_mset p (handles w)) \<and> mode w' = mode w"
    and close_handle: "handles (CloseHandle W p w) = handles w - {#p#} \<and> mode (CloseHandle W p w) = mode w"
    and enum_modules:
      "EnumProcessModules W p cb w = (w', ok, ms, bs) \<Longrightarrow>
         handles w' = handles w \<and> mode w' = mode w \<and> (ok \<longrightarrow> length ms = min cb bs div sizeof_ptr P)"
    and get_proc_address:
      "GetProcAddress W m s w = (w', r) \<Longrightarrow> handles w' = handles w \<and> mode w' = mode w"
    and module_handle: "GetModuleHandle W w = (w', p) \<Longrightarrow> handles w' = handles w \<and> mode w' = mode w"
    and module_handle_w: "GetModuleHandleW W s w = (w', p) \<Longrightarrow> handles w' = handles w \<and> mode w' = mode w"
    and pin_module: "handles (PinModule W s w) = handles w \<and> mode (PinModule W s w) = mode w"
    and load_library_w: "LoadLibraryW W s w = (w', p) \<Longrightarrow> handles w' = handles w \<and> mode w' = mode w"
    and free_library: "FreeLibrary W p w = (w', ok) \<Longrightarrow> handles w' = handles w \<and> mode w' = mode w"
    and set_error_mode: "SetErrorMode W n w = (w', old) \<Longrightarrow> handles w' = handles w \<and> mode w' = n \<and> old = mode w"
begin

lemma find_proc_returns:
  "n \<le> length ms \<Longrightarrow> \<exists>w' r. find_proc W s ms n w = Inr (w', r) \<and> handles w' = handles w \<and> mode w' = mode w"
proof (induction n arbitrary: ms w)
  case (Suc n)
  then obtain m ms' where ms: "ms = m # ms'" "n \<le> length ms'" by (cases ms) auto
  obtain w1 r where g: "GetProcAddress W m s w = (w1, r)" by (cases "GetProcAddress W m s w")
  then show ?case using Suc.IH [OF ms(2), of w1] get_proc_address [OF g] ms(1) by simp
qed simp

lemma search_modules_returns:
  assumes "bs div sizeof_ptr P \<le> length ms" "heap_ok P h0"
    and "r = 0 \<and> h = h0 \<or> r \<noteq> 0 \<and> fresh P h0 r k \<and> h = install r (map f [r..<r + k]) h0"
  shows "\<exists>w' h' v. search_modules P W s p r ms bs w h = Inr (w', h', v) \<and>
    handles w' = handles w - {#p#} \<and> mode w' = mode w \<and> gives_back P h0 h'"
proof -
  obtain w1 a where a: "find_proc W s ms (bs div sizeof_ptr P) w = Inr (w1, a)"
      "handles w1 = handles w" "mode w1 = mode w"
    using find_proc_returns [OF assms(1)] by blast
  have "\<exists>h'. (if r \<noteq> 0 then c_free r h else Inr h) = Inr h' \<and> gives_back P h0 h'"
    using assms(2,3) free_install [OF assms(2), of r k "map f [r..<r + k]"] by (auto simp: gives_back_def)
  then show ?thesis using a close_handle [of p w1] by (auto simp: search_modules_def)
qed

lemma dlsym_default_returns:
  assumes A: "c_allocator P A" and h: "heap_ok P h"
  shows "\<exists>w' h' v. ctypes_win32_dlsym_rtld_default P A W (String_block s) w h = Inr (w', h', v) \<and>
    handles w' = handles w \<and> mode w' = mode w \<and> gives_back P h h'"
proof -
  obtain w1 p where o: "OpenProcess W w = (w1, p)" by (cases "OpenProcess W w")
  obtain w2 ok ms bs where e: "EnumProcessModules W p (128 * sizeof_ptr P) w1 = (w2, ok, ms, bs)"
    by (cases "EnumProcessModules W p (128 * sizeof_ptr P) w1") auto
  obtain w3 ok' ms' bs' where e': "EnumProcessModules W p bs w2 = (w3, ok', ms', bs')"
    by (cases "EnumProcessModules W p bs w2") auto
  obtain h1 r where m: "c_malloc A bs h = (h1, r)" by (cases "c_malloc A bs h")
  have new: "fresh P h r bs" "h1 = install r (map (junk A) [r..<r + bs]) h" if "r \<noteq> 0"
    using c_allocator.malloc_new(5) [OF A h m that] m that by (auto simp: c_malloc_def split: option.splits)
  have old: "h1 = h" if "r = 0"
    using m that c_allocator.place_fresh [OF A h] by (auto simp: c_malloc_def fresh_def split: option.splits)
  note H = open_process [OF o] enum_modules [OF e] enum_modules [OF e']
  consider "p = 0" | "p \<noteq> 0" "\<not> ok" | "p \<noteq> 0" "ok" "bs \<le> 128 * sizeof_ptr P"
    | "p \<noteq> 0" "ok" "128 * sizeof_ptr P < bs" by fastforce
  then show ?thesis
  proof cases
    case 3
    then have "bs div sizeof_ptr P \<le> length ms" using H by simp
    from search_modules_returns [OF this h, of 0 h 0 undefined "c_string s" p w2] show ?thesis
      using 3 H o e by (auto simp: ctypes_win32_dlsym_rtld_default_def)
  next
    case 4
    show ?thesis
    proof (cases "r \<noteq> 0 \<and> ok'")
      case True
      then have "(if bs < bs' then bs else bs') div sizeof_ptr P \<le> length ms'"
        using H by (simp add: min_def div_le_mono)
      from search_modules_returns [OF this h, of r h1 bs "junk A" "c_string s" p w3] show ?thesis
        using 4 H o e e' m True new by (auto simp: ctypes_win32_dlsym_rtld_default_def)
    next
      case False
      then show ?thesis
        using 4 H o e e' m old new free_install [OF h, of r bs "map (junk A) [r..<r + bs]"]
          close_handle [of p w2] close_handle [of p w3] h
        by (cases "r = 0") (auto simp: ctypes_win32_dlsym_rtld_default_def gives_back_def)
    qed
  qed (use H o e h close_handle [of p w2] in \<open>simp_all add: ctypes_win32_dlsym_rtld_default_def gives_back_def\<close>)
qed

lemma keeps:
  "handles (fst (GetProcAddress W m s w)) = handles w" "mode (fst (GetProcAddress W m s w)) = mode w"
  "handles (fst (GetModuleHandle W w)) = handles w" "mode (fst (GetModuleHandle W w)) = mode w"
  "handles (fst (GetModuleHandleW W s w)) = handles w" "mode (fst (GetModuleHandleW W s w)) = mode w"
  "handles (fst (LoadLibraryW W s w)) = handles w" "mode (fst (LoadLibraryW W s w)) = mode w"
  "handles (fst (FreeLibrary W m w)) = handles w" "mode (fst (FreeLibrary W m w)) = mode w"
  "handles (fst (SetErrorMode W n w)) = handles w" "mode (fst (SetErrorMode W n w)) = n"
  "snd (SetErrorMode W n w) = mode w"
  by (metis prod.collapse get_proc_address module_handle module_handle_w load_library_w free_library set_error_mode)+

lemma load_library_keeps:
  assumes "load_library P W name i w = (w', v)"
  shows "handles w' = handles w \<and> mode w' = mode w"
proof -
  have "handles (fst (load_library P W name i w)) = handles w \<and> mode (fst (load_library P W name i w)) = mode w"
    by (simp add: load_library_def Let_def case_prod_beta keeps pin_module)
  with assms show ?thesis by simp
qed

lemma loader_keeps:
  "ctypes_win32_dlopen P W filename flags w = Inr (w', v) \<Longrightarrow> handles w' = handles w \<and> mode w' = mode w"
  "ctypes_win32_dlsym P W x sy w = Inr (w', v) \<Longrightarrow> handles w' = handles w \<and> mode w' = mode w"
  "ctypes_win32_dlclose P W x w = Inr (w', v) \<Longrightarrow> handles w' = handles w \<and> mode w' = mode w"
  by (auto simp: ctypes_win32_dlopen_def ctypes_win32_dlsym_def ctypes_win32_dlclose_def case_prod_beta keeps
    split: if_splits dest!: load_library_keeps)

end


text \<open>The address in the first of some modules that exports a symbol, zero when none does.\<close>

definition first_export :: "(nat \<Rightarrow> byte list \<Rightarrow> nat) \<Rightarrow> byte list \<Rightarrow> nat list \<Rightarrow> nat" where
  "first_export exports s ms = (case find (\<lambda>m. exports m s \<noteq> 0) ms of None \<Rightarrow> 0 | Some m \<Rightarrow> exports m s)"

lemma first_export_result:
  "(if first_export exports s ms \<noteq> 0 then stub_ok P (first_export exports s ms) else Val_long P 2) =
   (case find (\<lambda>m. exports m s \<noteq> 0) ms of None \<Rightarrow> Val_long P 2 | Some m \<Rightarrow> stub_ok P (exports m s))"
proof (cases "find (\<lambda>m. exports m s \<noteq> 0) ms")
  case (Some m)
  then have "exports m s \<noteq> 0" by (auto simp: find_Some_iff)
  with Some show ?thesis by (simp add: first_export_def)
qed (simp add: first_export_def)

text \<open>When nobody loads a module meanwhile, an enumeration gives the modules in their order.\<close>

locale win32_modules = win32_resources P W handles mode
  for P :: platform and W :: "'w win32" and handles :: "'w \<Rightarrow> nat multiset" and mode :: "'w \<Rightarrow> nat" +
  fixes modules :: "'w \<Rightarrow> nat list" and exports :: "nat \<Rightarrow> byte list \<Rightarrow> nat"
  assumes open_modules: "modules (fst (OpenProcess W w)) = modules w"
    and enum_all:
      "EnumProcessModules W p cb w = (w', ok, ms, bs) \<Longrightarrow>
         modules w' = modules w \<and>
         (ok \<longrightarrow> ms = take (cb div sizeof_ptr P) (modules w) \<and> bs = sizeof_ptr P * length (modules w))"
    and proc_exports:
      "modules (fst (GetProcAddress W m s w)) = modules w" "snd (GetProcAddress W m s w) = exports m s"
begin

lemma find_proc_first:
  "find_proc W s ms n w = Inr (w', r) \<Longrightarrow> r = first_export exports s (take n ms)"
proof (induction n arbitrary: ms w)
  case (Suc n)
  show ?case
  proof (cases ms)
    case (Cons m ms')
    then show ?thesis
      using Suc by (auto simp: first_export_def case_prod_beta proc_exports split: if_splits)
  qed (use Suc in \<open>simp add: first_export_def\<close>)
qed (simp add: first_export_def)

lemma search_modules_first:
  assumes "search_modules P W s p r ms bs w h = Inr (w', h', v)" "take (bs div sizeof_ptr P) ms = mods"
  shows "v = (case find (\<lambda>m. exports m s \<noteq> 0) mods of None \<Rightarrow> Val_long P 2 | Some m \<Rightarrow> stub_ok P (exports m s))"
  unfolding first_export_result [symmetric]
  using assms by (auto simp: search_modules_def split: prod.splits dest: find_proc_first)

lemma dlsym_default_finds:
  assumes z: "0 < sizeof_ptr P" and run: "ctypes_win32_dlsym_rtld_default P A W (String_block s) w h = Inr (w', h', v)"
    and "snd (OpenProcess W w) \<noteq> 0" "\<And>p cb w. fst (snd (EnumProcessModules W p cb w))"
    and "snd (c_malloc A (sizeof_ptr P * length (modules w)) h) \<noteq> 0"
  shows "v = (case find (\<lambda>m. exports m (c_string s) \<noteq> 0) (modules w) of
    None \<Rightarrow> Val_long P 2 | Some m \<Rightarrow> stub_ok P (exports m (c_string s)))"
proof -
  obtain w1 p where o: "OpenProcess W w = (w1, p)" by (cases "OpenProcess W w")
  obtain w2 ms bs where e: "EnumProcessModules W p (128 * sizeof_ptr P) w1 = (w2, True, ms, bs)"
    using assms(4) [of p "128 * sizeof_ptr P" w1] by (cases "EnumProcessModules W p (128 * sizeof_ptr P) w1") auto
  obtain w3 ms' bs' where e': "EnumProcessModules W p bs w2 = (w3, True, ms', bs')"
    using assms(4) [of p bs w2] by (cases "EnumProcessModules W p bs w2") auto
  obtain h1 r where m: "c_malloc A bs h = (h1, r)" by (cases "c_malloc A bs h")
  have p: "p \<noteq> 0" using assms(3) o by simp
  have mods: "modules w1 = modules w" "ms = take 128 (modules w)" "bs = sizeof_ptr P * length (modules w)"
      "ms' = modules w" "bs' = bs"
    using open_modules [of w] o enum_all [OF e] enum_all [OF e'] z by auto
  have r: "r \<noteq> 0" using assms(5) m mods(3) by simp
  show ?thesis
  proof (cases "bs \<le> 128 * sizeof_ptr P")
    case True
    with run o e p have "search_modules P W (c_string s) p 0 ms bs w2 h = Inr (w', h', v)"
      by (simp add: ctypes_win32_dlsym_rtld_default_def)
    from search_modules_first [OF this refl] True show ?thesis using mods z by simp
  next
    case False
    with run o e e' m p r mods have "search_modules P W (c_string s) p r ms' bs w3 h1 = Inr (w', h', v)"
      by (simp add: ctypes_win32_dlsym_rtld_default_def)
    from search_modules_first [OF this refl] show ?thesis using mods z by simp
  qed
qed

end

section \<open>A process with a fixed list of modules\<close>

record winbox =
  wopen :: "nat multiset"
  wmode :: nat
  wmods :: "nat list"

definition example_windows :: "nat \<Rightarrow> (nat \<Rightarrow> byte list \<Rightarrow> nat) \<Rightarrow> winbox win32" where
  "example_windows sz ex =
     \<lparr>OpenProcess = (\<lambda>w. (w\<lparr>wopen := add_mset 4 (wopen w)\<rparr>, 4)),
      EnumProcessModules = (\<lambda>p cb w. (w, True, take (cb div sz) (wmods w), sz * length (wmods w))),
      CloseHandle = (\<lambda>p w. w\<lparr>wopen := wopen w - {#p#}\<rparr>),
      GetProcAddress = (\<lambda>m s w. (w, ex m s)),
      GetModuleHandle = (\<lambda>w. (w, case wmods w of [] \<Rightarrow> 0 | m # _ \<Rightarrow> m)),
      GetModuleHandleW = (\<lambda>s w. (w, 0)),
      PinModule = (\<lambda>s w. w),
      LoadLibraryW = (\<lambda>s w. (w\<lparr>wmods := wmods w @ [length s]\<rparr>, length s)),
      FreeLibrary = (\<lambda>p w. (w\<lparr>wmods := remove1 p (wmods w)\<rparr>, p \<in> set (wmods w))),
      SetErrorMode = (\<lambda>n w. (w\<lparr>wmode := n\<rparr>, wmode w)),
      GetLastError = (\<lambda>w. 126),
      FormatMessage = (\<lambda>e n. (0, [])),
      MultiByteToWideChar = (\<lambda>s n. (length s + 1, concat (map (\<lambda>b. [b, 0]) (s @ [0]))))\<rparr>"

interpretation box: win32_modules lp64 "example_windows 8 ex" wopen wmode wmods ex for ex
  by unfold_locales (auto simp: example_windows_def)

lemma small_answers:
  assumes "0 < sizeof_ptr P"
  shows "Val_long P 2 \<noteq> Val_long P 0" "Val_long P 2 \<noteq> Val_long P 1"
proof -
  have "(256::int) ^ 1 \<le> 256 ^ sizeof_ptr P" using assms by (intro power_increasing) auto
  then have "oint_ok P 2" unfolding oint_ok_def in_srange_def by simp linarith
  then show "Val_long P 2 \<noteq> Val_long P 0" "Val_long P 2 \<noteq> Val_long P 1"
    using Long_val_Val_long [OF assms] oint_ok_bit [OF assms] by (metis Inr_inject zero_neq_numeral one_eq_numeral_iff num.distinct(1))+
qed

text \<open>
  C38: looking up a symbol in all modules on Windows.  On every path, errors and lack of memory included, the handle of the
  process is closed, the error mode is as before and the memory taken for a long list of modules is given back;
  when the enumeration succeeds and memory is there, the result is the address in the first module that exports the
  symbol, and the exception that names the symbol when there is none.
\<close>

theorem windows_symbol_search:
  assumes W: "win32_modules P W handles mode modules exports" and A: "c_allocator P A" and h: "heap_ok P h"
    and z: "0 < sizeof_ptr P"
  shows "\<exists>w' h' r. Win_dlsym P A W quote None s w h = (w', h', r) \<and>
    handles w' = handles w \<and> mode w' = mode w \<and> heap_ok P h' \<and> mem h' = mem h \<and> blocks h' = blocks h \<and>
    (snd (OpenProcess W w) \<noteq> 0 \<and> (\<forall>p cb w. fst (snd (EnumProcessModules W p cb w))) \<and>
       snd (c_malloc A (sizeof_ptr P * length (modules w)) h) \<noteq> 0 \<longrightarrow>
     r = (case find (\<lambda>m. exports m (c_string s) \<noteq> 0) (modules w) of
            None \<Rightarrow> Inl (draise (ascii ''dlsym'') (ascii ''no such symbol: '' @ quote s))
          | Some m \<Rightarrow> Inr (CTYPES_FROM_PTR P (exports m (c_string s)))))"
proof -
  obtain w' h' v where run: "ctypes_win32_dlsym_rtld_default P A W (String_block s) w h = Inr (w', h', v)"
      "handles w' = handles w" "mode w' = mode w" "gives_back P h h'"
    using win32_resources.dlsym_default_returns [OF win32_modules.axioms(1) [OF W] A h] by blast
  define r where "r = snd (snd (Win_dlsym P A W quote None s w h))"
  have "Win_dlsym P A W quote None s w h = (w', h', r)" using run(1) by (simp add: Win_dlsym_def r_def)
  moreover have "r = (case u of None \<Rightarrow> Inl (draise (ascii ''dlsym'') (ascii ''no such symbol: '' @ quote s))
      | Some m \<Rightarrow> Inr (CTYPES_FROM_PTR P (exports m (c_string s))))"
    if "v = (case u of None \<Rightarrow> Val_long P 2 | Some m \<Rightarrow> stub_ok P (exports m (c_string s)))" for u
    using that run(1) small_answers [OF z] by (cases u) (simp_all add: Win_dlsym_def r_def stub_ok_def Val_long_def)
  ultimately show ?thesis
    using run(2-4) win32_modules.dlsym_default_finds [OF W z run(1)] by (auto simp: gives_back_def)
qed

theorem windows_symbol_search_witness:
  "\<exists>w' h'. Win_dlsym lp64 (bump lp64 4096) (example_windows 8 (\<lambda>m s. if m = 20 \<and> s = [97] then 4200 else 0)) id
      None [97, 0] \<lparr>wopen = {#}, wmode = 1, wmods = [10, 20, 30]\<rparr> empty_heap = (w', h', Inr (CTYPES_FROM_PTR lp64 4200)) \<and>
    wopen w' = {#} \<and> wmode w' = 1"
proof -
  let ?ex = "\<lambda>m s. if m = 20 \<and> s = [97] then 4200 else (0::nat)"
  let ?w = "\<lparr>wopen = {#}, wmode = 1, wmods = [10, 20, 30]\<rparr>"
  have c: "snd (OpenProcess (example_windows 8 ?ex) ?w) \<noteq> 0"
      "fst (snd (EnumProcessModules (example_windows 8 ?ex) p cb w))"
      "snd (c_malloc (bump lp64 4096) (sizeof_ptr lp64 * 3) empty_heap) \<noteq> 0" for p cb w
    by (simp_all add: example_windows_def c_malloc_def bump_def empty_heap_def lp64_def)
  have "0 < sizeof_ptr lp64" by simp
  from windows_symbol_search [OF box.win32_modules_axioms bump.c_allocator_axioms [of lp64 4096] empty_heap_ok this,
      of ?ex id "[97, 0]" ?w]
  show ?thesis using c by (auto simp: c_string_def)
qed

section \<open>Names of libraries\<close>

text \<open>
  The name that \<open>dlopen\<close> asks Windows for has no slash, and one that ends in \<open>.so\<close> or \<open>.dylib\<close> ends in \<open>.dll\<close> instead;
  one that is only such a suffix raises \<open>Invalid_argument\<close>.
\<close>

lemma chop_extension_prefix:
  assumes "chop_extension s = Inr b"
  shows "set b \<subseteq> set s"
proof -
  let ?n = "length (takeWhile (\<lambda>b. \<not> is_dir_sep b \<and> b \<noteq> 46) (rev s))"
  have "b = rev (drop (Suc ?n) (rev s))"
    using assms by (simp add: chop_extension_def Let_def drop_Suc tl_drop split: if_splits)
  then show ?thesis using set_drop_subset [of "Suc ?n" "rev s"] by (simp del: drop_Suc)
qed

lemma library_name_no_slash:
  assumes "library_name x = Inr s"
  shows "47 \<notin> set s"
proof -
  let ?s = "if 47 \<in> set x then replace_slash x else x"
  have n: "47 \<notin> set ?s" by (auto simp: replace_slash_def)
  have "s = ?s \<or> (\<exists>b. chop_extension ?s = Inr b \<and> s = b @ ascii ''.dll'')"
    using assms unfolding library_name_def Let_def
    by (cases "chop_extension ?s"; cases "check_suffix (lowercase ?s) (ascii ''.so'') \<or> check_suffix (lowercase ?s) (ascii ''.dylib'')")
      (simp_all only: if_True if_False map_sum.simps id_apply Inr_inject sum.distinct simp_thms, blast+)
  moreover have "47 \<notin> set (ascii ''.dll'')" by (simp add: ascii_def)
  ultimately show ?thesis using n chop_extension_prefix [of ?s] by auto
qed

lemma library_name_examples:
  "library_name (ascii ''lib/Foo.SO'') = Inr (ascii [CHR ''l'', CHR ''i'', CHR ''b'', CHR 0x5C] @ ascii ''Foo.dll'')"
  "library_name (ascii ''libm.so.6'') = Inr (ascii ''libm.so.6'')"
  "library_name (ascii ''.so'') = Inl (Invalid_argument ''Filename.chop_extension'')"
  by code_simp+

end
