(* ===== verification/Example_Cbuf.thy ===== *)
theory Example_Cbuf
  imports Type_Info_Text
begin

text \<open>
  The C library of \<open>src/examples/cbuf\<close> that the buffer bindings are demonstrated on
  (\<open>example.c\<close>): a parser of dotted IPv4 addresses and functions that store results through
  pointers.  A C string is the list of its bytes without the final NUL, and a pointer into it
  an index; \<open>strtol\<close> is the function of the standard library in base 10 and the C locale.
\<close>

section \<open>strtol\<close>

definition isspace :: "byte \<Rightarrow> bool" where
  "isspace b \<longleftrightarrow> b = 32 \<or> (9 \<le> b \<and> b \<le> 13)"

definition isdigit :: "byte \<Rightarrow> bool" where
  "isdigit b \<longleftrightarrow> 48 \<le> b \<and> b \<le> 57"

text \<open>Values out of range are replaced by the nearest \<open>long\<close>.\<close>

definition clamp_long :: "platform \<Rightarrow> int \<Rightarrow> int" where
  "clamp_long P x = max (- (256 ^ sizeof_long P div 2)) (min (256 ^ sizeof_long P div 2 - 1) x)"

text \<open>The value and the number of characters consumed, 0 when there is no numeral.\<close>

definition strtol10 :: "platform \<Rightarrow> byte list \<Rightarrow> int \<times> nat" where
  "strtol10 P cs =
     (let ws = length (takeWhile isspace cs);
          rest = drop ws cs;
          sgn = (if rest \<noteq> [] \<and> (hd rest = 45 \<or> hd rest = 43) then 1 else 0);
          ds = takeWhile isdigit (drop sgn rest);
          v = int (parse_nat ds)
      in if ds = [] then (0, 0)
         else (clamp_long P (if sgn = 1 \<and> hd rest = 45 then - v else v), ws + sgn + length ds))"

section \<open>The functions\<close>

text \<open>The byte at a pointer into the string.\<close>

definition char_at :: "byte list \<Rightarrow> nat \<Rightarrow> byte result" where
  "char_at p i = (if i < length p then Inr (p ! i) else if i = length p then Inr 0 else Inl Memory_fault)"

text \<open>The loop from \<open>idx\<close>, \<open>k\<close> rounds to go: the memory and the result.\<close>

primrec pton_loop :: "platform \<Rightarrow> byte list \<Rightarrow> nat \<Rightarrow> nat \<Rightarrow> nat \<Rightarrow> nat \<Rightarrow> memory \<Rightarrow> (memory \<times> int) result" where
  "pton_loop P p n idx sp 0 m = Inr (m, 0)"
| "pton_loop P p n idx sp (Suc k) m =
     (case strtol10 P (drop sp p) of (x, used) \<Rightarrow>
        if x < 0 \<or> 255 < x then Inr (m, -1)
        else if used = 0 then Inr (m, -1)
        else bindR (char_at p (sp + used)) (\<lambda>c.
          if (idx = 3 \<and> c \<noteq> 0) \<or> (idx \<noteq> 3 \<and> c \<noteq> 46) then Inr (m, -1)
          else bindR (store_int P m (n + idx) 1 x) (\<lambda>m'.
            pton_loop P p n (Suc idx) (sp + used + 1) k m')))"

definition ip_addr_pton :: "platform \<Rightarrow> byte list \<Rightarrow> nat \<Rightarrow> memory \<Rightarrow> (memory \<times> int) result" where
  "ip_addr_pton P p n m = pton_loop P p n 0 0 4 m"

definition int_as_buffer :: "platform \<Rightarrow> nat \<Rightarrow> memory \<Rightarrow> (memory \<times> int) result" where
  "int_as_buffer P i m = bindR (store_int P m i (sizeof_int P) 10) (\<lambda>m. Inr (m, 0))"

definition multi_buffer :: "platform \<Rightarrow> int \<Rightarrow> nat \<Rightarrow> nat \<Rightarrow> nat \<Rightarrow> memory \<Rightarrow> memory result" where
  "multi_buffer P inp out1 out2 out3 m =
     bindR (store_int P m out1 8 inp) (\<lambda>m.
     bindR (store_int P m out2 8 (uwrap 8 (inp * 2))) (\<lambda>m.
       store_int P m out3 8 (uwrap 8 (inp * 4))))"

text \<open>Shifting a negative \<open>int\<close>, or past its range, is undefined; the compilers shift the bits.\<close>

definition last_cbuf :: "platform \<Rightarrow> int \<Rightarrow> nat \<Rightarrow> nat \<Rightarrow> memory \<Rightarrow> (memory \<times> int) result" where
  "last_cbuf P inp out1 out2 m =
     bindR (store_int P m out1 1 inp) (\<lambda>m.
     bindR (store_int P m out2 1 (swrap (sizeof_int P) (inp * 2))) (\<lambda>m. Inr (m, 0)))"

definition first_cbuf :: "platform \<Rightarrow> nat \<Rightarrow> nat \<Rightarrow> int \<Rightarrow> memory \<Rightarrow> (memory \<times> int) result" where
  "first_cbuf P out1 out2 inp m =
     bindR (store_int P m out1 1 inp) (\<lambda>m.
     bindR (store_int P m out2 1 (swrap (sizeof_int P) (inp * 2))) (\<lambda>m. Inr (m, 0)))"

definition cbuf_only :: "platform \<Rightarrow> nat \<Rightarrow> memory \<Rightarrow> (memory \<times> int) result" where
  "cbuf_only P out1 m = bindR (store_int P m out1 1 1) (\<lambda>m. Inr (m, 0))"

definition arity1 :: "platform \<Rightarrow> int \<Rightarrow> nat \<Rightarrow> memory \<Rightarrow> memory result" where
  "arity1 P inp out1 m = store_int P m out1 1 inp"

definition arity2 :: "platform \<Rightarrow> int \<Rightarrow> nat \<Rightarrow> nat \<Rightarrow> memory \<Rightarrow> memory result" where
  "arity2 P inp out1 out2 m = store_int P m out2 1 inp"

definition arity3 :: "platform \<Rightarrow> int \<Rightarrow> nat \<Rightarrow> nat \<Rightarrow> nat \<Rightarrow> memory \<Rightarrow> memory result" where
  "arity3 P inp out1 out2 out3 m = store_int P m out3 1 inp"

section \<open>Reading printed numbers\<close>

lemma isdigit_digit: "d < 10 \<Longrightarrow> isdigit (digit d)"
  using unat_digit [of d] by (simp add: isdigit_def word_le_nat_alt)

lemma digits_isdigit: "b \<in> set (digits n) \<Longrightarrow> isdigit b"
proof (induction n rule: digits.induct)
  case (1 n)
  show ?case
    using 1 isdigit_digit [of n] isdigit_digit [of "n mod 10"]
    by (cases "n < 10") (auto simp: digits.simps [of n])
qed

lemma isdigit_not: "isdigit b \<Longrightarrow> \<not> isspace b \<and> b \<noteq> 45 \<and> b \<noteq> 43"
  by (auto simp: isdigit_def isspace_def word_le_nat_alt)

text \<open>The number ends at the end of the string or at a character that is not a digit.\<close>

definition number_ends :: "byte list \<Rightarrow> bool" where
  "number_ends rest \<longleftrightarrow> rest = [] \<or> \<not> isdigit (hd rest)"

lemma takeWhile_digits:
  assumes "number_ends rest"
  shows "takeWhile isdigit (digits v @ rest) = digits v"
proof -
  have "takeWhile isdigit (digits v @ rest) = digits v @ takeWhile isdigit rest"
    using digits_isdigit by (intro takeWhile_append2) blast
  also have "takeWhile isdigit rest = []" using assms by (cases rest) (auto simp: number_ends_def)
  finally show ?thesis by simp
qed

lemma strtol10_digits:
  assumes "number_ends rest" "int v < 256 ^ sizeof_long P div 2"
  shows "strtol10 P (digits v @ rest) = (int v, length (digits v))"
proof -
  obtain d cs where h: "digits v = digit d # cs" "d < 10" using digits_head by blast
  note nd = isdigit_not [OF isdigit_digit [OF h(2)]]
  have ne: "digits v \<noteq> []" using h(1) by simp
  have ws: "takeWhile isspace (digits v @ rest) = []" using h(1) nd by simp
  have hd: "hd (digits v @ rest) = digit d" using h(1) by simp
  have "(0 :: int) \<le> 256 ^ sizeof_long P div 2" by simp
  then have c: "clamp_long P (int v) = int v" using assms(2) by (simp add: clamp_long_def)
  show ?thesis
    using nd ne by (simp add: strtol10_def ws hd takeWhile_digits [OF assms(1)] parse_digits c Let_def)
qed

section \<open>Dotted addresses\<close>

primrec dotted_prefix :: "nat list \<Rightarrow> byte list" where
  "dotted_prefix [] = []"
| "dotted_prefix (v # vs) = digits v @ 46 # dotted_prefix vs"

definition dotted :: "nat list \<Rightarrow> byte list" where
  "dotted vs = dotted_prefix (butlast vs) @ digits (last vs)"

lemma not_digit_46: "\<not> isdigit 46"
  by (simp add: isdigit_def word_le_nat_alt)

lemma store_byte:
  assumes "mapped m a 1"
  shows "\<exists>m'. store_int P m a 1 x = Inr m' \<and> m' a = Some (word_of_int x) \<and> only_changes a 1 m m'"
proof -
  obtain m' where m': "store_int P m a 1 x = Inr m'" "only_changes a 1 m m'"
    using store_int_ok [OF assms, of P x] by blast
  have "enc P 1 x = [word_of_int x]" by (simp add: enc_def)
  then have "load_bytes m' a 1 = Some [word_of_int x]"
    using m'(1) load_store_same [of m a "enc P 1 x" m' 1] by (simp add: store_int_def)
  then have "m' a = Some (word_of_int x)" by (simp split: option.splits)
  with m' show ?thesis by blast
qed

lemma pton_step:
  assumes "number_ends rest" "v \<le> 255" "2 \<le> sizeof_long P" "mapped m (n + idx) 1"
    and "if idx = 3 then rest = [] else rest \<noteq> [] \<and> hd rest = 46"
  shows "\<exists>m1. pton_loop P (pre @ digits v @ rest) n idx (length pre) (Suc k) m =
      pton_loop P (pre @ digits v @ rest) n (Suc idx) (length pre + length (digits v) + 1) k m1 \<and>
    m1 (n + idx) = Some (of_nat v) \<and> only_changes (n + idx) 1 m m1"
proof -
  have "(256 :: int) ^ 2 \<le> 256 ^ sizeof_long P" using assms(3) by (rule power_increasing) simp
  then have "int v < 256 ^ sizeof_long P div 2" using assms(2) by simp
  from strtol10_digits [OF assms(1) this]
  have st: "strtol10 P (digits v @ rest) = (int v, length (digits v))" .
  have pos: "length (digits v) \<noteq> 0" using digits_head [of v] by auto
  have c: "char_at (pre @ digits v @ rest) (length pre + length (digits v)) = Inr (if idx = 3 then 0 else 46)"
    using assms(5) by (auto simp: char_at_def nth_append hd_conv_nth split: if_split_asm)
  obtain m1 where m1: "store_int P m (n + idx) 1 (int v) = Inr m1" "m1 (n + idx) = Some (word_of_int (int v))"
    "only_changes (n + idx) 1 m m1"
    using store_byte [OF assms(4)] by blast
  show ?thesis
    using m1 assms(2) pos by (intro exI [of _ m1]) (simp add: st c del: One_nat_def)
qed

lemma pton_prefix:
  assumes "idx + length vs < 4" "\<forall>v \<in> set vs. v \<le> 255" "2 \<le> sizeof_long P" "mapped m n 4"
  shows "\<exists>m'. pton_loop P (pre @ dotted_prefix vs @ rest) n idx (length pre) (length vs + k) m =
      pton_loop P (pre @ dotted_prefix vs @ rest) n (idx + length vs) (length pre + length (dotted_prefix vs)) k m' \<and>
    load_bytes m' (n + idx) (length vs) = Some (map of_nat vs) \<and> only_changes (n + idx) (length vs) m m'"
  using assms
proof (induction vs arbitrary: idx pre m)
  case (Cons v vs)
  let ?rest = "46 # dotted_prefix vs @ rest" and ?pre = "pre @ digits v @ [46]"
  have mp: "mapped m (n + idx) 1" using Cons.prems(1) by (intro mapped_sub [OF Cons.prems(4)]) auto
  have ends: "number_ends ?rest" using not_digit_46 by (simp add: number_ends_def)
  obtain m1 where m1: "pton_loop P (pre @ digits v @ ?rest) n idx (length pre) (Suc (length vs + k)) m =
      pton_loop P (pre @ digits v @ ?rest) n (Suc idx) (length pre + length (digits v) + 1) (length vs + k) m1"
    "m1 (n + idx) = Some (of_nat v)" "only_changes (n + idx) 1 m m1"
    using pton_step [OF ends _ Cons.prems(3) mp, of v pre "length vs + k"] Cons.prems(1,2) by auto
  have "mapped m1 n 4" using Cons.prems(4) only_changesD(2) [OF m1(3)] by simp
  then obtain m' where m': "pton_loop P (?pre @ dotted_prefix vs @ rest) n (Suc idx) (length ?pre) (length vs + k) m1 =
      pton_loop P (?pre @ dotted_prefix vs @ rest) n (Suc idx + length vs) (length ?pre + length (dotted_prefix vs)) k m'"
    "load_bytes m' (n + Suc idx) (length vs) = Some (map of_nat vs)"
    "only_changes (n + Suc idx) (length vs) m1 m'"
    using Cons.IH [of "Suc idx" m1 ?pre] Cons.prems(1-3) by auto
  have "m' (n + idx) = Some (of_nat v)"
    using only_changesD(1) [OF m'(3), of "n + idx"] m1(2) by simp
  then have "load_bytes m' (n + idx) (length (v # vs)) = Some (map of_nat (v # vs))" using m'(2) by simp
  moreover have "only_changes (n + idx) (length (v # vs)) m m'"
    by (rule only_changes_trans [OF m1(3) m'(3)]) simp_all
  ultimately show ?case using m1(1) m'(1) by (intro exI [of _ m']) (simp add: add.assoc)
next
  case Nil
  then show ?case by (intro exI [of _ m]) simp
qed

text \<open>
  C40: every printed IPv4 address is parsed: the four numbers come back as the four bytes at the
  pointer, in order, and nothing else in memory changes.
\<close>

theorem ip_addr_pton_roundtrip:
  assumes "length vs = 4" "\<forall>v \<in> set vs. v \<le> 255" "2 \<le> sizeof_long P" "mapped m n 4"
  shows "\<exists>m'. ip_addr_pton P (dotted vs) n m = Inr (m', 0) \<and>
    load_bytes m' n 4 = Some (map of_nat vs) \<and> (\<forall>x. x < n \<or> n + 4 \<le> x \<longrightarrow> m' x = m x)"
proof -
  define us u where "us = butlast vs" and "u = last vs"
  have "vs \<noteq> []" using assms(1) by auto
  then have vs: "vs = us @ [u]" by (simp add: us_def u_def)
  have us: "length us = 3" "0 + length us < 4" "\<forall>v \<in> set us. v \<le> 255" "u \<le> 255" using assms(1,2) by (simp_all add: vs)
  obtain m1 where m1: "pton_loop P (dotted_prefix us @ digits u) n 0 0 (3 + 1) m =
      pton_loop P (dotted_prefix us @ digits u) n 3 (length (dotted_prefix us)) 1 m1"
    "load_bytes m1 n 3 = Some (map of_nat us)" "only_changes n 3 m m1"
    using pton_prefix [OF us(2,3) assms(3,4), of "[]" "digits u" 1] us(1) by auto
  have mp: "mapped m1 (n + 3) 1"
    unfolding only_changesD(2) [OF m1(3)] by (rule mapped_sub [OF assms(4)]) simp_all
  have ends: "number_ends []" by (simp add: number_ends_def)
  obtain m2 where m2: "pton_loop P (dotted_prefix us @ digits u @ []) n 3 (length (dotted_prefix us)) (Suc 0) m1 = Inr (m2, 0)"
    "m2 (n + 3) = Some (of_nat u)" "only_changes (n + 3) 1 m1 m2"
    using pton_step [OF ends us(4) assms(3) mp, of "dotted_prefix us" 0] by auto
  have "load_bytes m2 n 3 = Some (map of_nat us)"
    using load_bytes_unchanged [OF m2(3), of n 3] m1(2) by simp
  then have "load_bytes m2 n 4 = Some (map of_nat vs)"
    using m2(2) us(1) load_bytes_nth [of m2 n 3 "map of_nat us"]
    by (intro load_bytesI) (auto simp: vs nth_append less_Suc_eq eval_nat_numeral)
  moreover have "only_changes n 4 m m2" by (rule only_changes_trans [OF m1(3) m2(3)]) simp_all
  moreover have "ip_addr_pton P (dotted vs) n m = Inr (m2, 0)"
    using m1(1) m2(1) by (simp add: ip_addr_pton_def dotted_def vs)
  ultimately show ?thesis by (auto simp: only_changes_def)
qed

text \<open>
  A number above 255 makes the parser return -1, and the bytes before it have been stored by then:
  a failed call leaves the beginning of an address behind, and nothing else changes.
\<close>

theorem ip_addr_pton_rejects:
  assumes "length us < 4" "\<forall>v \<in> set us. v \<le> 255" "255 < w" "int w < 256 ^ sizeof_long P div 2"
    and "number_ends rest" "2 \<le> sizeof_long P" "mapped m n 4"
  shows "\<exists>m'. ip_addr_pton P (dotted_prefix us @ digits w @ rest) n m = Inr (m', -1) \<and>
    load_bytes m' n (length us) = Some (map of_nat us) \<and> (\<forall>x. x < n \<or> n + length us \<le> x \<longrightarrow> m' x = m x)"
proof -
  obtain k where k: "4 = length us + Suc k" using assms(1) by (metis add_Suc_right less_iff_Suc_add)
  have l: "0 + length us < 4" using assms(1) by simp
  obtain m1 where m1: "pton_loop P (dotted_prefix us @ digits w @ rest) n 0 0 (length us + Suc k) m =
      pton_loop P (dotted_prefix us @ digits w @ rest) n (length us) (length (dotted_prefix us)) (Suc k) m1"
    "load_bytes m1 n (length us) = Some (map of_nat us)" "only_changes n (length us) m m1"
    using pton_prefix [OF l assms(2,6,7), of "[]" "digits w @ rest" "Suc k"] by auto
  have "pton_loop P (dotted_prefix us @ digits w @ rest) n (length us) (length (dotted_prefix us)) (Suc k) m1 = Inr (m1, -1)"
    using strtol10_digits [OF assms(5,4)] assms(3) by simp
  then show ?thesis
    using m1 unfolding ip_addr_pton_def k by (auto simp: only_changes_def)
qed

theorem ip_addr_pton_roundtrip_witness:
  "\<exists>m'. ip_addr_pton lp64 (dotted [192, 168, 0, 1]) 0 (\<lambda>x. if x < 4 then Some 0 else None) = Inr (m', 0) \<and>
     load_bytes m' 0 4 = Some [192, 168, 0, 1]"
  using ip_addr_pton_roundtrip [of "[192, 168, 0, 1]" lp64 "\<lambda>x. if x < 4 then Some 0 else None" 0]
  by (auto simp: mapped_iff)

theorem ip_addr_pton_rejects_witness:
  "\<exists>m'. ip_addr_pton lp64 (dotted_prefix [192] @ digits 256 @ [46]) 0 (\<lambda>x. if x < 4 then Some 0 else None) = Inr (m', -1) \<and>
     load_bytes m' 0 1 = Some [192]"
  using ip_addr_pton_rejects [of "[192]" 256 lp64 "[46]" "\<lambda>x. if x < 4 then Some 0 else None" 0]
  by (auto simp: mapped_iff number_ends_def not_digit_46)

text \<open>
  \<open>multi_buffer\<close> stores its argument and the argument shifted by one and two bits, reduced to 64 bits,
  through three pointers whose objects do not overlap.
\<close>

theorem multi_buffer_stores:
  assumes "in_urange 8 x" "mapped m a 8" "mapped m b 8" "mapped m c 8"
    and "a + 8 \<le> b \<or> b + 8 \<le> a" "a + 8 \<le> c \<or> c + 8 \<le> a" "b + 8 \<le> c \<or> c + 8 \<le> b"
  shows "\<exists>m'. multi_buffer P x a b c m = Inr m' \<and> load_u P m' a 8 = Inr x \<and>
    load_u P m' b 8 = Inr ((2 * x) mod 2 ^ 64) \<and> load_u P m' c 8 = Inr ((4 * x) mod 2 ^ 64)"
proof -
  obtain m1 where m1: "store_int P m a 8 x = Inr m1" "only_changes a 8 m m1" "load_u P m1 a 8 = Inr (uwrap 8 x)"
    using store_int_ok [OF assms(2), of P x] by blast
  have "mapped m1 b 8" using assms(3) only_changesD(2) [OF m1(2)] by simp
  then obtain m2 where m2: "store_int P m1 b 8 (uwrap 8 (x * 2)) = Inr m2" "only_changes b 8 m1 m2"
    "load_u P m2 b 8 = Inr (uwrap 8 (x * 2))"
    using store_int_ok [of m1 b 8 P "uwrap 8 (x * 2)"] by auto
  have "mapped m2 c 8" using assms(4) only_changesD(2) [OF m1(2)] only_changesD(2) [OF m2(2)] by simp
  then obtain m3 where m3: "store_int P m2 c 8 (uwrap 8 (x * 4)) = Inr m3" "only_changes c 8 m2 m3"
    "load_u P m3 c 8 = Inr (uwrap 8 (x * 4))"
    using store_int_ok [of m2 c 8 P "uwrap 8 (x * 4)"] by auto
  have "load_u P m3 a 8 = Inr x"
    using load_u_unchanged [OF m3(2), of a 8 P] load_u_unchanged [OF m2(2), of a 8 P] m1(3) assms
    by (auto simp: uwrap_id)
  moreover have "load_u P m3 b 8 = Inr (uwrap 8 (x * 2))"
    using load_u_unchanged [OF m3(2), of b 8 P] m2(3) assms(7) by auto
  ultimately show ?thesis
    using m1(1) m2(1) m3(1,3) by (simp add: multi_buffer_def uwrap_def mult.commute)
qed

theorem multi_buffer_stores_witness:
  "\<exists>m'. multi_buffer lp64 (2 ^ 63) 0 8 16 (\<lambda>x. if x < 24 then Some 0 else None) = Inr m' \<and> load_u lp64 m' 8 8 = Inr 0"
  using multi_buffer_stores [of "2 ^ 63" "\<lambda>x. if x < 24 then Some 0 else None" 0 8 16 lp64]
  by (auto simp: mapped_iff in_urange_def)

end
