(* ===== verification/Spec2Isabelle.thy ===== *)
theory Spec2Isabelle
  imports
    Type_Info_Text Managed_Buffer LDouble_Arith Complex_Numbers Foreign_Roundtrip Threads
    Bigarrays Posix_Types Cstubs_Macros Dl_Windows Example_Cbuf
begin

text \<open>
  The C stubs of ocaml-ctypes (with the buffer bindings of this fork), modelled as HOL functions on
  an explicit memory.

  The program.  ctypes lets OCaml describe C types and functions as values.  Its OCaml library
  (\<open>src/ctypes/*.ml\<close>, \<open>src/ctypes-foreign/*.ml\<close>) interprets the descriptions; everything that touches C is a
  stub in C, called with OCaml values.  The stubs under \<open>src/ctypes\<close> own memory and move values: \<open>managed_buffer_stubs.c\<close>
  allocates, \<open>raw_pointer_stubs.c\<close> copies, \<open>type_info_stubs.c\<close> reads, writes and prints a value of each
  primitive type, \<open>ldouble_stubs.c\<close> and \<open>complex_stubs.c\<close> give OCaml the types it lacks, \<open>ctypes_roots.c\<close> keeps OCaml values alive
  from C.  The stubs under \<open>src/ctypes-foreign\<close> call: a call specification is built argument by argument, then a
  call allocates a buffer on the stack, has OCaml write the arguments into it, runs libffi and
  has OCaml read the result; in the other direction a closure runs an OCaml function found in a registry.

  Theories, in the order of their imports, with what they model (paths under \<open>src/\<close>):

  \<^item> \<open>Ctypes_Prelude\<close>: faults (undefined behaviour, assertions, OCaml exceptions) and the result type, conversions of
    C integers at a width in bytes, the byte codec.  \<open>C_Float\<close>, \<open>X87_Float\<close>: IEEE patterns and the values they stand for.
    \<open>C_Memory\<close>: the platform record (sizes, byte order, long double format), memory as a map from addresses to bytes, the C
    heap and its allocator (locale \<open>c_allocator\<close>).  \<open>Ocaml_Value\<close>: OCaml values, the macros of \<open>caml/mlvalues.h\<close>,
    \<open>ctypes_raw_pointer.h\<close>, fat pointers, the \<open>integers\<close> package (locale \<open>integers_interface\<close>).
  \<^item> \<open>Primitives\<close>: \<open>ctypes_primitives.h\<close>, the enumeration of types and the preprocessor ladders.
  \<^item> \<open>LDouble\<close>, \<open>LDouble_Ops\<close>, \<open>LDouble_Arith\<close>: \<open>ldouble_stubs.c\<close>; \<open>Complex_Numbers\<close>: \<open>complex_stubs.c\<close>,
    \<open>ctypes_complex_compatibility.h\<close> and the complex half of \<open>ldouble_stubs.c\<close>.
  \<^item> \<open>Managed_Buffer\<close>: \<open>managed_buffer_stubs.c\<close>, \<open>raw_pointer_stubs.c\<close>, \<open>ctypes_roots.c\<close>.
  \<^item> \<open>Type_Info\<close>, \<open>Type_Info_Correct\<close>, \<open>Type_Info_Text\<close>: \<open>type_info_stubs.c\<close>, one equation per case label.
  \<^item> \<open>Ffi_Types\<close>: \<open>ffi_type_stubs.c\<close> (locale \<open>libffi_types\<close> for libffi's descriptors).
  \<^item> \<open>Callspec\<close>, \<open>Callspec_Layout\<close>, \<open>Ffi_Call\<close>, \<open>Ffi_Call_Correct\<close>, \<open>Ffi_Closure\<close>, \<open>Ffi_Closure_Correct\<close>: \<open>ffi_call_stubs.c\<close>; the
    world of a call is memory, \<open>errno\<close>, the runtime lock and the stack pointer.  \<open>Closure_Registry\<close>:
    \<open>ctypes_closure_properties.ml\<close> (locale \<open>closure_registry\<close>).
  \<^item> \<open>Foreign_Function\<close>, \<open>Foreign_Callback\<close>, \<open>Foreign_Roundtrip\<close>: \<open>ctypes_ffi.ml\<close>, with the types of \<open>ctypes_static.ml\<close> and the readers and
    writers of \<open>ctypes_memory.ml\<close>, for functions on \<open>void\<close>, primitive types, pointers, function pointers and OCaml
    strings; it composes the stubs above into calls and callbacks.
  \<^item> \<open>Threads\<close>: \<open>foreign_threaded_stubs.c\<close>; POSIX threads as an interleaving step relation that contends for the
    runtime lock and in which the calls of pthreads may fail, Windows as functions.
  \<^item> \<open>Bigarrays\<close>: \<open>ctypes_bigarrays.c\<close>; \<open>Posix_Types\<close>: \<open>posix_types_stubs.c\<close>; \<open>Cstubs_Macros\<close>:
    \<open>ctypes_cstubs_internals.h\<close>; \<open>Dl_Stubs\<close>: \<open>dl_stubs.c.unix\<close> and \<open>dl.ml.unix\<close>; \<open>Dl_Windows\<close>:
    \<open>dl_stubs.c.win\<close> and \<open>dl.ml.win\<close> (locales \<open>win32_resources\<close>, \<open>win32_modules\<close> for the functions of Windows); \<open>Example_Cbuf\<close>: \<open>examples/cbuf/example.c\<close>.

  What is shown.  End to end: a call from OCaml hands the C function objects that read as the
  arguments and returns what its bytes represent (\<open>foreign_call\<close>), and a C call of an OCaml function does the
  reverse (\<open>foreign_callback\<close>); composed, an OCaml function called through its own C function pointer
  returns what it returned before (\<open>function_pointer_roundtrip\<close>, with \<open>trampoline\<close> for the code that libffi generates); they rest on the round trip of every primitive type through memory
  (\<open>write_read_roundtrip\<close>), on the refinement of the layout of a call by the stubs' arithmetic (\<open>call_buffer_layout\<close>), on the
  invariant of a specification under every sequence of stub calls, and on the widening of results, which
  callbacks and libffi do in the same way.  Managed memory is fresh and zero-filled, and its finaliser gives back exactly its block.
  Roots refine a map.  Long doubles compare as a total preorder that hashing respects, are
  serialized and converted without loss within their format, and report what the platform lacks.  Threads that register
  are unregistered when they are gone, in every interleaving, unless pthreads failed to keep their mark, and their exit
  waits for the runtime lock only.  Error paths are part of
  every statement: \<open>Out_of_memory\<close>, \<open>Unix_error\<close>, \<open>CallToExpiredClosure\<close>, \<open>FFI_internal_error\<close>, \<open>Failure\<close>, assertions.  Some
  theorems show behaviour the code does not intend: the lock that an escaping exception leaves taken, the closure and the
  thread keys that are never given back, the thread whose mark could not be stored and stays registered
  (\<open>threads_unregistered_at_exit\<close>), the bigarray of more than 16 dimensions, the flags of \<open>dlopen\<close>,
  the string behind a \<open>void\<close> argument (\<open>string_after_void\<close>) and the \<open>void\<close> among the arguments of a callback.

  Parameters.  Code that is not in the repository is an argument of the definitions that use it: the allocator,
  libffi (\<open>ffi_prep_cif\<close>, \<open>ffi_call\<close>, closures), the \<open>integers\<close> package, libm, \<open>strtold\<close> and the floating conversions of \<open>printf\<close>,
  the runtime's hashing, \<open>caml_ba_alloc\<close> and \<open>Caml_ba_layout_val\<close>, pthreads, the dynamic loader, and the OCaml functions given as writers,
  readers and callbacks.  Theorems name what they assume of it (\<open>ffi_calls\<close>: libffi reads each argument where its pointer
  points and stores the widened result; \<open>accepts\<close>: libffi accepts types it has descriptors of); the witnesses
  instantiate each with a concrete function (\<open>reference_ffi_call\<close>, \<open>ex_trampoline\<close>, \<open>example_libffi\<close>, \<open>bump\<close>, \<open>boxed_integers\<close>).

  Bounds.  Integers wrap at the width of their C type (the number of dimensions of a bigarray too); offsets that the code keeps in an \<open>int\<close> are required to fit by
  \<open>fits\<close>.  A call needs stack space for its buffer, for the array of string addresses and 32 bytes of alignment
  (two \<open>alloca\<close> of at most 16 each).  Loops are structural recursions on the data or on their bound; \<open>read_cstring\<close> has the bytes
  up to the top of the heap as fuel, which \<open>string_of_cstring_terminates\<close> shows to be enough for the unbounded scan.

  Not modelled.  The moving of values by the collector (an OCaml value here does not change its address under the stub's
  feet), other threads running during a call beyond what \<open>ffi_call\<close> may do to the world, destructors of other libraries'
  thread keys that call back into OCaml, failure of \<open>caml_stat_alloc\<close>, a \<open>_Bool\<close> byte other than 0 and 1 (undefined in C, read as true here), the custom-operations tables (data), headers of prototypes, and the OCaml programs that generate C text (\<open>src/cstubs\<close>, \<open>src/cbuf\<close>) or probe the system (\<open>src/discover\<close>, \<open>src/configure\<close>).
  Of \<open>ctypes_ffi.ml\<close>, structs passed by value and views are left out: the readers and writers of views are OCaml code of the
  program that uses the library, and a struct that is returned is allocated while the call runs.
\<close>

end
